(* ===== verification/Prelude.thy ===== *)
theory Prelude
  imports Main "HOL-Library.Word"
begin

unbundle bit_operations_syntax

text \<open>
  What every component shares: machine integers, byte strings, the result type of Rust code
  (a value, an error, or a panic), the big-endian conversions of the standard library, the
  string functions of \<^verbatim>\<open>core::str\<close> that the sources call, and the generic lemmas about them.

  A Rust \<^verbatim>\<open>&str\<close> or \<^verbatim>\<open>String\<close> is modelled by its UTF-8 bytes: \<^verbatim>\<open>len\<close>, \<^verbatim>\<open>bytes\<close>, \<^verbatim>\<open>starts_with\<close>
  and slicing are all defined on the bytes.
\<close>

type_synonym byte = "8 word"
type_synonym u16 = "16 word"
type_synonym u32 = "32 word"
type_synonym u64 = "64 word"
type_synonym bytes = "byte list"

named_theorems outcome_simps "unfolding of the result combinators"
named_theorems be_simps "big-endian conversions"
named_theorems str_simps "byte-string functions"

section \<open>Results\<close>

text \<open>
  A call of a Rust function returns \<^verbatim>\<open>Ok(v)\<close>, returns \<^verbatim>\<open>Err(e)\<close>, or panics.
\<close>

datatype ('e, 'a) outcome = Ok 'a | Err 'e | Panic

text \<open>The \<^verbatim>\<open>?\<close> operator: go on with the value, return the error, let a panic through.\<close>

fun and_then :: "('e, 'a) outcome \<Rightarrow> ('a \<Rightarrow> ('e, 'b) outcome) \<Rightarrow> ('e, 'b) outcome" where
  "and_then (Ok v) k = k v"
| "and_then (Err e) k = Err e"
| "and_then Panic k = Panic"

fun map_err :: "('e \<Rightarrow> 'f) \<Rightarrow> ('e, 'a) outcome \<Rightarrow> ('f, 'a) outcome" where
  "map_err f (Ok v) = Ok v"
| "map_err f (Err e) = Err (f e)"
| "map_err f Panic = Panic"

fun map_ok :: "('a \<Rightarrow> 'b) \<Rightarrow> ('e, 'a) outcome \<Rightarrow> ('e, 'b) outcome" where
  "map_ok f (Ok v) = Ok (f v)"
| "map_ok f (Err e) = Err e"
| "map_ok f Panic = Panic"

fun ok_or :: "'e \<Rightarrow> 'a option \<Rightarrow> ('e, 'a) outcome" where
  "ok_or e None = Err e"
| "ok_or e (Some v) = Ok v"

fun is_ok :: "('e, 'a) outcome \<Rightarrow> bool" where
  "is_ok (Ok v) = True"
| "is_ok _ = False"

lemma and_then_Ok_iff [outcome_simps]:
  "and_then r k = Ok w \<longleftrightarrow> (\<exists>v. r = Ok v \<and> k v = Ok w)"
  by (cases r) auto

lemma and_then_Err_iff [outcome_simps]:
  "and_then r k = Err e \<longleftrightarrow> r = Err e \<or> (\<exists>v. r = Ok v \<and> k v = Err e)"
  by (cases r) auto

lemma and_then_Panic_iff [outcome_simps]:
  "and_then r k = Panic \<longleftrightarrow> r = Panic \<or> (\<exists>v. r = Ok v \<and> k v = Panic)"
  by (cases r) auto

lemma map_err_Ok_iff [outcome_simps]: "map_err f r = Ok v \<longleftrightarrow> r = Ok v"
  by (cases r) auto

lemma map_err_Err_iff [outcome_simps]: "map_err f r = Err e \<longleftrightarrow> (\<exists>e'. r = Err e' \<and> f e' = e)"
  by (cases r) auto

lemma map_err_Panic_iff [outcome_simps]: "map_err f r = Panic \<longleftrightarrow> r = Panic"
  by (cases r) auto

lemma map_ok_Ok_iff [outcome_simps]: "map_ok f r = Ok w \<longleftrightarrow> (\<exists>v. r = Ok v \<and> f v = w)"
  by (cases r) auto

lemma map_ok_Err_iff [outcome_simps]: "map_ok f r = Err e \<longleftrightarrow> r = Err e"
  by (cases r) auto

lemma map_ok_Panic_iff [outcome_simps]: "map_ok f r = Panic \<longleftrightarrow> r = Panic"
  by (cases r) auto

lemma ok_or_Ok_iff [outcome_simps]: "ok_or e p = Ok v \<longleftrightarrow> p = Some v"
  by (cases p) auto

lemma ok_or_Err_iff [outcome_simps]: "ok_or e p = Err e' \<longleftrightarrow> p = None \<and> e' = e"
  by (cases p) auto

lemma ok_or_not_Panic [simp]: "ok_or e p \<noteq> Panic"
  by (cases p) auto

lemma is_ok_iff: "is_ok r \<longleftrightarrow> (\<exists>v. r = Ok v)"
  by (cases r) auto

text \<open>The same for a call that also changes a state, and a call on one component of a state.\<close>

fun st_then ::
  "('e, 'a) outcome \<times> 's \<Rightarrow> ('a \<Rightarrow> 's \<Rightarrow> ('e, 'b) outcome \<times> 's) \<Rightarrow> ('e, 'b) outcome \<times> 's" where
  "st_then (Ok v, s) k = k v s"
| "st_then (Err e, s) k = (Err e, s)"
| "st_then (Panic, s) k = (Panic, s)"

lemma st_then_Ok_iff [outcome_simps]:
  "st_then x k = (Ok w, s') \<longleftrightarrow> (\<exists>v s. x = (Ok v, s) \<and> k v s = (Ok w, s'))"
  by (cases x; cases "fst x") auto

lemma st_then_snd_cases:
  "snd (st_then (r, s) k) = (case r of Ok v \<Rightarrow> snd (k v s) | _ \<Rightarrow> s)"
  by (cases r) auto

section \<open>Checked and wrapping arithmetic\<close>

text \<open>
  \<^verbatim>\<open>a + b\<close> on an unsigned integer panics on overflow when the build has overflow checks (the
  \<^verbatim>\<open>dev\<close> profile) and wraps around when it has not (the \<^verbatim>\<open>release\<close> profile); \<open>oc\<close> says
  which. The other two are \<^verbatim>\<open>checked_add\<close> and the saturating pair.
\<close>

definition plus_oc :: "bool \<Rightarrow> 'a::len word \<Rightarrow> 'a word \<Rightarrow> ('e, 'a word) outcome" where
  "plus_oc oc a b = (if oc \<and> unat a + unat b \<ge> 2 ^ LENGTH('a) then Panic else Ok (a + b))"

definition checked_add :: "'a::len word \<Rightarrow> 'a word \<Rightarrow> 'a word option" where
  "checked_add a b = (if unat a + unat b < 2 ^ LENGTH('a) then Some (a + b) else None)"

definition saturating_sub :: "'a::len word \<Rightarrow> 'a word \<Rightarrow> 'a word" where
  "saturating_sub a b = (if a < b then 0 else a - b)"

definition saturating_add :: "'a::len word \<Rightarrow> 'a word \<Rightarrow> 'a word" where
  "saturating_add a b = (if unat a + unat b < 2 ^ LENGTH('a) then a + b else - 1)"

lemma unat_bound: "unat (w :: 'a::len word) < 2 ^ LENGTH('a)"
  by (rule unsigned_less)

lemma unat_max_word: "x = - 1 \<Longrightarrow> unat (x :: 'a::len word) = 2 ^ LENGTH('a) - 1"
  by (simp only: unsigned_minus_1_eq_mask mask_eq_exp_minus_1)

lemma unat_add_no_overflow:
  "unat a + unat b < 2 ^ LENGTH('a) \<Longrightarrow> unat (a + b) = unat a + unat (b :: 'a::len word)"
  by (simp add: unat_word_ariths)

lemma checked_add_Some:
  "checked_add a b = Some c \<Longrightarrow> unat c = unat a + unat b"
  by (auto simp: checked_add_def unat_add_no_overflow split: if_splits)

lemma checked_add_1_None_iff: "checked_add (a :: 'a::len word) 1 = None \<longleftrightarrow> a = - 1"
proof -
  have le: "unat a \<le> 2 ^ LENGTH('a) - 1" using unat_bound [of a] by linarith
  have max: "unat (- 1 :: 'a word) = 2 ^ LENGTH('a) - 1"
    by (rule unat_max_word) (rule refl)
  have "checked_add a 1 = None \<longleftrightarrow> unat a + 1 \<ge> 2 ^ LENGTH('a)"
    by (auto simp: checked_add_def)
  also have "\<dots> \<longleftrightarrow> unat a = 2 ^ LENGTH('a) - 1" using le by auto
  also have "\<dots> \<longleftrightarrow> a = - 1" unfolding max [symmetric] by (simp add: word_unat_eq_iff)
  finally show ?thesis .
qed

lemma word_less_plus_1: "a + 1 \<noteq> 0 \<Longrightarrow> a < a + 1" for a :: u32
proof -
  assume "a + 1 \<noteq> 0"
  then have "a \<noteq> - 1" by auto
  then have "checked_add a 1 \<noteq> None" by (simp only: checked_add_1_None_iff not_False_eq_True)
  then have "unat a + 1 < 2 ^ 32" by (simp add: checked_add_def split: if_splits)
  then have "unat (a + 1) = unat a + 1" using unat_add_no_overflow [of a 1] by simp
  then show ?thesis by (simp add: word_less_nat_alt)
qed

lemma unat_saturating_sub: "unat (saturating_sub a b) = unat a - unat b"
  by (auto simp: saturating_sub_def unat_sub word_less_nat_alt word_le_nat_alt)

lemma unat_saturating_add:
  "unat (saturating_add a b) = min (unat a + unat b) (2 ^ LENGTH('a) - 1)"
  for a b :: "'a::len word"
  by (auto simp: saturating_add_def unat_add_no_overflow unat_max_word min_def)

section \<open>Words as numbers\<close>

lemma nat_shift_or: "m < 2 ^ k \<Longrightarrow> push_bit k n OR m = n * 2 ^ k + (m :: nat)"
proof -
  assume "m < 2 ^ k"
  then have m: "take_bit k m = m" by (simp add: take_bit_nat_eq_self)
  have "push_bit k n AND m = 0"
    by (subst m [symmetric], rule bit_eqI) (auto simp: bit_simps)
  then have "push_bit k n + m = push_bit k n OR m" by (rule disjunctive_add_eq_or)
  then show ?thesis by (simp add: push_bit_nat_def)
qed

lemma unat_push_or:
  fixes acc :: u32 and b :: byte
  assumes "unat acc < 2 ^ 24"
  shows "unat (push_bit 8 acc OR ucast b) = unat acc * 256 + unat b"
proof -
  have b: "unat b < 2 ^ 8" using unat_bound [of b] by simp
  have 1: "unat (ucast b :: u32) = unat b"
    using b by (simp add: unsigned_ucast_eq take_bit_nat_eq_self)
  have 2: "unat (push_bit 8 acc) = push_bit 8 (unat acc)"
    using assms by (simp add: unsigned_push_bit_eq take_bit_nat_eq_self push_bit_nat_def)
  show ?thesis by (simp add: unsigned_or_eq 1 2 nat_shift_or [OF b])
qed

lemma unat_and_mask: "unat (w AND mask n) = unat w mod 2 ^ n"
  by (simp only: take_bit_eq_mask [symmetric] unsigned_take_bit_eq take_bit_nat_def)

lemma unat_and_pow: "unat (w AND (push_bit n 1 - 1)) = unat w mod 2 ^ n" for w :: "'a::len word"
proof -
  have "push_bit n 1 - 1 = (mask n :: 'a word)" by (simp add: mask_eq_exp_minus_1 push_bit_eq_mult)
  then show ?thesis by (simp only: unat_and_mask)
qed

lemma unat_drop_bit: "unat (drop_bit n w) = unat w div 2 ^ n"
  by (simp add: unat_drop_bit_eq drop_bit_nat_def)

section \<open>Big-endian conversions\<close>

text \<open>\<^verbatim>\<open>to_be_bytes\<close> and \<^verbatim>\<open>from_be_bytes\<close>, first on numbers, then at the widths the code uses.\<close>

fun be_bytes :: "nat \<Rightarrow> nat \<Rightarrow> bytes" where
  "be_bytes 0 x = []"
| "be_bytes (Suc n) x = be_bytes n (x div 256) @ [word_of_nat x]"

definition be_val :: "bytes \<Rightarrow> nat" where
  "be_val bs = foldl (\<lambda>a b. a * 256 + unat b) 0 bs"

lemma length_be_bytes [simp]: "length (be_bytes n x) = n"
  by (induction n arbitrary: x) auto

lemma be_val_Nil [simp]: "be_val [] = 0"
  by (simp add: be_val_def)

lemma be_val_snoc [be_simps]: "be_val (bs @ [b]) = be_val bs * 256 + unat b"
  by (simp add: be_val_def)

lemma be_val_bound: "be_val bs < 256 ^ length bs"
proof (induction bs rule: rev_induct)
  case Nil
  show ?case by simp
next
  case (snoc b bs)
  have "unat b < 256" using unat_bound [of b] by simp
  moreover have "Suc (be_val bs) * 256 \<le> 256 ^ length bs * 256"
    using snoc.IH by (intro mult_le_mono1) simp
  ultimately have "be_val bs * 256 + unat b < 256 ^ length bs * 256" by simp
  then show ?case by (simp add: be_val_snoc mult.commute)
qed

lemma be_val_be_bytes [be_simps]: "be_val (be_bytes n x) = x mod 256 ^ n"
proof (induction n arbitrary: x)
  case 0
  show ?case by simp
next
  case (Suc n)
  have "be_val (be_bytes (Suc n) x) = (x div 256 mod 256 ^ n) * 256 + x mod 256"
    by (simp add: be_val_snoc Suc.IH unat_of_nat)
  also have "\<dots> = x mod (256 * 256 ^ n)"
    by (simp add: mod_mult2_eq mult.commute)
  finally show ?case by simp
qed

lemma be_bytes_be_val [be_simps]: "be_bytes (length bs) (be_val bs) = bs"
proof (induction bs rule: rev_induct)
  case Nil
  show ?case by simp
next
  case (snoc b bs)
  have b: "unat b < 256" using unat_bound [of b] by simp
  then have d: "(be_val bs * 256 + unat b) div 256 = be_val bs" by simp
  have w: "(word_of_nat (be_val bs * 256 + unat b) :: byte) = b"
  proof -
    have "unat (word_of_nat (be_val bs * 256 + unat b) :: byte) = unat b"
      by (subst unat_of_nat) (use b in simp)
    then show ?thesis by (simp only: word_unat_eq_iff)
  qed
  show ?case using snoc.IH w d by (simp only: be_val_snoc be_bytes.simps length_append_singleton)
qed

lemma foldl_be: "foldl (\<lambda>a b. a * 256 + unat b) x bs = x * 256 ^ length bs + be_val bs"
  for bs :: bytes
proof (induction bs rule: rev_induct)
  case Nil
  show ?case by simp
next
  case (snoc b bs)
  then show ?case by (simp add: be_val_snoc algebra_simps)
qed

lemma be_val_append [be_simps]: "be_val (as @ bs) = be_val as * 256 ^ length bs + be_val bs"
  using foldl_be [of "be_val as" bs] by (simp add: be_val_def)

lemma be_val_take: "be_val (take i bs) = be_val bs div 256 ^ (length bs - i)"
proof -
  have "be_val bs = be_val (take i bs) * 256 ^ (length bs - i) + be_val (drop i bs)"
    using be_val_append [of "take i bs" "drop i bs"] by simp
  moreover have "be_val (drop i bs) < 256 ^ (length bs - i)"
    using be_val_bound [of "drop i bs"] by simp
  ultimately show ?thesis by simp
qed

lemma be_val_take_Suc:
  "i < length bs \<Longrightarrow> be_val (take (Suc i) bs) = be_val (take i bs) * 256 + unat (bs ! i)"
  by (simp add: take_Suc_conv_app_nth be_val_snoc)

definition u16_to_be :: "u16 \<Rightarrow> bytes" where
  "u16_to_be w = be_bytes 2 (unat w)"

definition u32_to_be :: "u32 \<Rightarrow> bytes" where
  "u32_to_be w = be_bytes 4 (unat w)"

definition u64_to_be :: "u64 \<Rightarrow> bytes" where
  "u64_to_be w = be_bytes 8 (unat w)"

definition word_from_be :: "bytes \<Rightarrow> 'a::len word" where
  "word_from_be bs = word_of_nat (be_val bs)"

lemma length_u16_to_be [simp]: "length (u16_to_be w) = 2"
  by (simp add: u16_to_be_def)

lemma length_u32_to_be [simp]: "length (u32_to_be w) = 4"
  by (simp add: u32_to_be_def)

lemma length_u64_to_be [simp]: "length (u64_to_be w) = 8"
  by (simp add: u64_to_be_def)

lemma u16_from_to_be [simp]: "word_from_be (u16_to_be w) = w"
  using unat_bound [of w] by (simp add: word_from_be_def u16_to_be_def be_val_be_bytes)

lemma u32_from_to_be [simp]: "word_from_be (u32_to_be w) = w"
  using unat_bound [of w] by (simp add: word_from_be_def u32_to_be_def be_val_be_bytes)

lemma u64_from_to_be [simp]: "word_from_be (u64_to_be w) = w"
  using unat_bound [of w] by (simp add: word_from_be_def u64_to_be_def be_val_be_bytes)

lemma u64_to_be_inject: "u64_to_be a = u64_to_be b \<longleftrightarrow> a = b"
  by (metis u64_from_to_be)

section \<open>Strings\<close>

text \<open>A literal of the source, as the bytes it stands for.\<close>

definition ascii :: "string \<Rightarrow> bytes" where
  "ascii cs = map (\<lambda>c. word_of_nat (of_char c)) cs"

lemma length_ascii [simp]: "length (ascii cs) = length cs"
  by (simp add: ascii_def)

text \<open>\<^verbatim>\<open>u8::is_ascii_alphanumeric\<close>, \<^verbatim>\<open>is_ascii_hexdigit\<close>, \<^verbatim>\<open>to_ascii_lowercase\<close>.\<close>

definition is_digit :: "byte \<Rightarrow> bool" where
  "is_digit b \<longleftrightarrow> 48 \<le> b \<and> b \<le> 57"

definition is_alnum :: "byte \<Rightarrow> bool" where
  "is_alnum b \<longleftrightarrow> is_digit b \<or> (65 \<le> b \<and> b \<le> 90) \<or> (97 \<le> b \<and> b \<le> 122)"

definition is_hexdigit :: "byte \<Rightarrow> bool" where
  "is_hexdigit b \<longleftrightarrow> is_digit b \<or> (65 \<le> b \<and> b \<le> 70) \<or> (97 \<le> b \<and> b \<le> 102)"

definition ascii_lower :: "byte \<Rightarrow> byte" where
  "ascii_lower b = (if 65 \<le> b \<and> b \<le> 90 then b + 32 else b)"

definition eq_ignore_case :: "bytes \<Rightarrow> bytes \<Rightarrow> bool" where
  "eq_ignore_case a b \<longleftrightarrow> map ascii_lower a = map ascii_lower b"

text \<open>\<^verbatim>\<open>starts_with\<close> and \<^verbatim>\<open>ends_with\<close>.\<close>

definition starts_with :: "bytes \<Rightarrow> bytes \<Rightarrow> bool" where
  "starts_with s p \<longleftrightarrow> take (length p) s = p"

definition ends_with :: "bytes \<Rightarrow> bytes \<Rightarrow> bool" where
  "ends_with s p \<longleftrightarrow> length p \<le> length s \<and> drop (length s - length p) s = p"

text \<open>
  \<^verbatim>\<open>&s[..n]\<close> on a string: a panic when \<open>n\<close> is past its length or not at a character
  boundary (the byte there continues a UTF-8 sequence).
\<close>

definition is_cont_byte :: "byte \<Rightarrow> bool" where
  "is_cont_byte b \<longleftrightarrow> 0x80 \<le> b \<and> b \<le> 0xBF"

definition is_char_boundary :: "bytes \<Rightarrow> nat \<Rightarrow> bool" where
  "is_char_boundary s n \<longleftrightarrow> n = 0 \<or> n = length s \<or> (n < length s \<and> \<not> is_cont_byte (s ! n))"

definition str_prefix :: "bytes \<Rightarrow> nat \<Rightarrow> ('e, bytes) outcome" where
  "str_prefix s n = (if is_char_boundary s n then Ok (take n s) else Panic)"

definition str_slice :: "bytes \<Rightarrow> nat \<Rightarrow> nat \<Rightarrow> ('e, bytes) outcome" where
  "str_slice s i j =
     (if i \<le> j \<and> is_char_boundary s i \<and> is_char_boundary s j
      then Ok (take (j - i) (drop i s)) else Panic)"

text \<open>\<^verbatim>\<open>trim_end_matches\<close> with an ASCII character.\<close>

definition trim_end_matches :: "byte \<Rightarrow> bytes \<Rightarrow> bytes" where
  "trim_end_matches c s = rev (dropWhile (\<lambda>b. b = c) (rev s))"

text \<open>
  \<^verbatim>\<open>core::str::from_utf8\<close> accepts exactly the well-formed sequences of the Unicode standard
  (no overlong forms, no surrogates, nothing above U+10FFFF).
\<close>

fun utf8_valid :: "bytes \<Rightarrow> bool" where
  "utf8_valid [] = True"
| "utf8_valid (a # s) =
    (if a < 0x80 then utf8_valid s
     else if 0xC2 \<le> a \<and> a \<le> 0xDF then
       (case s of b # s' \<Rightarrow> is_cont_byte b \<and> utf8_valid s' | _ \<Rightarrow> False)
     else if 0xE0 \<le> a \<and> a \<le> 0xEF then
       (case s of b # c # s' \<Rightarrow>
          (if a = 0xE0 then 0xA0 \<le> b \<and> b \<le> 0xBF
           else if a = 0xED then 0x80 \<le> b \<and> b \<le> 0x9F else is_cont_byte b)
          \<and> is_cont_byte c \<and> utf8_valid s'
        | _ \<Rightarrow> False)
     else if 0xF0 \<le> a \<and> a \<le> 0xF4 then
       (case s of b # c # d # s' \<Rightarrow>
          (if a = 0xF0 then 0x90 \<le> b \<and> b \<le> 0xBF
           else if a = 0xF4 then 0x80 \<le> b \<and> b \<le> 0x8F else is_cont_byte b)
          \<and> is_cont_byte c \<and> is_cont_byte d \<and> utf8_valid s'
        | _ \<Rightarrow> False)
     else False)"

lemma alnum_lt_0x80: "is_alnum b \<Longrightarrow> b < 0x80"
  by (auto simp: is_alnum_def is_digit_def word_le_nat_alt word_less_nat_alt)

lemma alnum_not_cont: "is_alnum b \<Longrightarrow> \<not> is_cont_byte b"
  by (auto simp: is_cont_byte_def dest: alnum_lt_0x80)

lemma hexdigit_alnum: "is_hexdigit b \<Longrightarrow> is_alnum b"
  by (auto simp: is_alnum_def is_hexdigit_def word_le_nat_alt)

lemma utf8_valid_ascii: "\<forall>b \<in> set s. b < 0x80 \<Longrightarrow> utf8_valid s"
  by (induction s) auto

lemma utf8_valid_alnum: "\<forall>b \<in> set s. is_alnum b \<Longrightarrow> utf8_valid s"
  by (rule utf8_valid_ascii) (auto intro: alnum_lt_0x80)

lemma char_boundary_alnum:
  "\<forall>b \<in> set s. is_alnum b \<Longrightarrow> n \<le> length s \<Longrightarrow> is_char_boundary s n"
  using alnum_not_cont nth_mem by (auto simp: is_char_boundary_def)

lemma str_prefix_alnum:
  "\<forall>b \<in> set s. is_alnum b \<Longrightarrow> n \<le> length s \<Longrightarrow> str_prefix s n = Ok (take n s)"
  by (simp add: str_prefix_def char_boundary_alnum)

lemma str_slice_alnum:
  "\<forall>b \<in> set s. is_alnum b \<Longrightarrow> i \<le> j \<Longrightarrow> j \<le> length s \<Longrightarrow>
   str_slice s i j = Ok (take (j - i) (drop i s))"
  by (simp add: str_slice_def char_boundary_alnum)

lemma trim_end_matches_pad:
  assumes "\<forall>b \<in> set s. b \<noteq> c"
  shows "trim_end_matches c (s @ replicate n c) = s"
proof -
  have "dropWhile (\<lambda>b. b = c) (replicate n c @ rev s) = dropWhile (\<lambda>b. b = c) (rev s)"
    by (induction n) auto
  also have "\<dots> = rev s" using assms by (cases "rev s") (auto dest: arg_cong [of _ _ set])
  finally show ?thesis by (simp add: trim_end_matches_def)
qed

lemma trim_end_matches_split:
  "s = trim_end_matches c s @ replicate (length s - length (trim_end_matches c s)) c"
proof -
  let ?t = "takeWhile (\<lambda>b. b = c) (rev s)" and ?d = "dropWhile (\<lambda>b. b = c) (rev s)"
  have t: "?t = replicate (length ?t) c"
    by (metis (mono_tags, lifting) replicate_length_same set_takeWhileD)
  have "rev s = ?t @ ?d" by simp
  then have "s = rev ?d @ rev ?t" by (metis rev_append rev_rev_ident)
  moreover have "rev ?t = replicate (length ?t) c" by (metis t rev_replicate)
  moreover have "length s - length ?d = length ?t"
    by (metis add_diff_cancel_right' length_append length_rev takeWhile_dropWhile_id)
  ultimately show ?thesis by (simp add: trim_end_matches_def)
qed

lemma length_trim_end_matches: "length (trim_end_matches c s) \<le> length s"
  unfolding trim_end_matches_def by (metis length_dropWhile_le length_rev)

lemma set_trim_end_matches: "set (trim_end_matches c s) \<subseteq> set s"
  unfolding trim_end_matches_def by (metis set_dropWhileD set_rev subsetI)

section \<open>Decimal output\<close>

text \<open>\<^verbatim>\<open>Display\<close> of an unsigned integer, for the error messages that carry one.\<close>

fun show_nat :: "nat \<Rightarrow> bytes" where
  "show_nat n = (if n < 10 then [word_of_nat (48 + n)]
                 else show_nat (n div 10) @ [word_of_nat (48 + n mod 10)])"

declare show_nat.simps [simp del]

section \<open>Lists\<close>

lemma take_append_exact: "length xs = n \<Longrightarrow> take n (xs @ ys) = xs"
  by simp

lemma drop_append_exact: "length xs = n \<Longrightarrow> drop n (xs @ ys) = ys"
  by simp

text \<open>Indexing and prefix slicing: a panic when the bound is past the end.\<close>

definition index_oc :: "'a list \<Rightarrow> nat \<Rightarrow> ('e, 'a) outcome" where
  "index_oc xs i = (if i < length xs then Ok (xs ! i) else Panic)"

definition prefix_oc :: "'a list \<Rightarrow> nat \<Rightarrow> ('e, 'a list) outcome" where
  "prefix_oc xs n = (if n \<le> length xs then Ok (take n xs) else Panic)"

text \<open>\<^verbatim>\<open>dst.copy_from_slice(src)\<close> into an array of \<open>n\<close> elements: a panic when the lengths differ.\<close>

definition copy_from_slice_oc :: "nat \<Rightarrow> 'a list \<Rightarrow> ('e, 'a list) outcome" where
  "copy_from_slice_oc n src = (if length src = n then Ok src else Panic)"

text \<open>\<^verbatim>\<open>&buf[i..j]\<close> on a slice whose length is known to be at least \<open>j\<close>.\<close>

definition slice :: "nat \<Rightarrow> nat \<Rightarrow> 'a list \<Rightarrow> 'a list" where
  "slice i j xs = take (j - i) (drop i xs)"

lemma length_slice [simp]: "j \<le> length xs \<Longrightarrow> length (slice i j xs) = j - i"
  by (simp add: slice_def)

lemma slice_append1: "j \<le> length xs \<Longrightarrow> slice i j (xs @ ys) = slice i j xs"
  by (simp add: slice_def)

lemma slice_append2:
  "length xs \<le> i \<Longrightarrow> slice i j (xs @ ys) = slice (i - length xs) (j - length xs) ys"
  by (simp add: slice_def)

lemma slice_exact: "length xs = i \<Longrightarrow> length ys = j - i \<Longrightarrow> slice i j (xs @ ys @ zs) = ys"
  by (simp add: slice_def)

lemma slice_zero [simp]: "slice 0 j xs = take j xs"
  by (simp add: slice_def)

lemma set_slice: "set (slice i j xs) \<subseteq> set xs"
  unfolding slice_def by (meson set_drop_subset set_take_subset subset_trans)

text \<open>\<^verbatim>\<open>buf[i..i + new.len()].copy_from_slice(new)\<close>, for an in-range target.\<close>

definition blit :: "nat \<Rightarrow> 'a list \<Rightarrow> 'a list \<Rightarrow> 'a list" where
  "blit i new xs = take i xs @ new @ drop (i + length new) xs"

lemma length_blit [simp]: "i + length new \<le> length xs \<Longrightarrow> length (blit i new xs) = length xs"
  by (simp add: blit_def)

text \<open>
  A buffer filled from the front: each write starts where the last one ended, and the prefix so
  far is known. \<open>filled n p xs\<close> says that \<open>xs\<close> has length \<open>n\<close> and starts with \<open>p\<close>.
\<close>

definition filled :: "nat \<Rightarrow> 'a list \<Rightarrow> 'a list \<Rightarrow> bool" where
  "filled n p xs \<longleftrightarrow> length xs = n \<and> length p \<le> n \<and> take (length p) xs = p"

lemma filled_Nil: "length xs = n \<Longrightarrow> filled n [] xs"
  by (simp add: filled_def)

lemma filled_blit:
  "filled n p xs \<Longrightarrow> i = length p \<Longrightarrow> i + length new \<le> n \<Longrightarrow> filled n (p @ new) (blit i new xs)"
  by (simp add: filled_def blit_def)

lemma filled_all: "filled n p xs \<Longrightarrow> length p = n \<Longrightarrow> xs = p"
  by (metis filled_def order_refl take_all)

text \<open>Reading a buffer that is a concatenation of fields.\<close>

lemma nth_append_right: "length xs \<le> i \<Longrightarrow> (xs @ ys) ! i = ys ! (i - length xs)"
  by (simp add: nth_append)

end
