(* ===== verification/CoreTypes.thy ===== *)
theory CoreTypes
  imports Prelude
begin

text \<open>
  \<^verbatim>\<open>mcpix-core/src/error.rs\<close> and \<^verbatim>\<open>types.rs\<close>: the error type, the domain types of the protocol
  and their smart constructors.

  The fixed-size arrays of the source (\<^verbatim>\<open>[u8; 32]\<close>, \<^verbatim>\<open>[u8; 11]\<close>) are byte lists; the length
  their type promises, and what their constructors check besides, is the predicate
  \<open>..._wf\<close> of the type, which every constructor of the crate establishes.
\<close>

section \<open>Errors\<close>

datatype mcpix_error =
    TransportFieldLength nat
  | TransportFieldCharset nat
  | TransportFieldPrefix
  | UnsupportedProtocolVersion bytes
  | SeedIdLength nat nat
  | SeedIdCharset
  | SeedLength nat nat
  | CounterOverflow
  | CounterCollision u64
  | CounterRollback u64 u64
  | UnknownSeed
  | NoRetainedReceipt
  | ReplayRejected
  | Mismatch
  | Storage bytes
  | Transport bytes

type_synonym 'a mcpix = "(mcpix_error, 'a) outcome"

text \<open>The \<^verbatim>\<open>Display\<close> of the error, which the HTTP server sends as the body of its replies.\<close>

fun mcpix_display :: "mcpix_error \<Rightarrow> bytes" where
  "mcpix_display (TransportFieldLength n) =
     ascii ''transport field has invalid length: expected 26..=35, got '' @ show_nat n"
| "mcpix_display (TransportFieldCharset n) =
     ascii ''transport field contains non-alphanumeric character at position '' @ show_nat n"
| "mcpix_display TransportFieldPrefix =
     ascii ''transport field prefix does not match expected scheme''"
| "mcpix_display (UnsupportedProtocolVersion v) =
     ascii ''transport field carries unsupported protocol version: '' @ [0x27] @ v @ [0x27]
       @ ascii '' '' @ [0xE2, 0x80, 0x94] @ ascii '' atualize a SDK''"
| "mcpix_display (SeedIdLength mx got) =
     ascii ''seed id has invalid length: expected up to '' @ show_nat mx
       @ ascii '', got '' @ show_nat got"
| "mcpix_display SeedIdCharset = ascii ''seed id contains non-alphanumeric character''"
| "mcpix_display (SeedLength ex got) =
     ascii ''seed material has wrong length: expected '' @ show_nat ex
       @ ascii '', got '' @ show_nat got"
| "mcpix_display CounterOverflow = ascii ''counter overflow''"
| "mcpix_display (CounterCollision w) =
     ascii ''counter collision: another charge already issued in the current window (''
       @ show_nat (unat w) @ ascii ''s)''"
| "mcpix_display (CounterRollback last_t now_t) =
     ascii ''counter rollback detected: clock moved backwards (last='' @ show_nat (unat last_t)
       @ ascii '', now='' @ show_nat (unat now_t) @ ascii '')''"
| "mcpix_display UnknownSeed = ascii ''unknown seed id''"
| "mcpix_display NoRetainedReceipt = ascii ''no retained receipt for the presented charge''"
| "mcpix_display ReplayRejected =
     ascii ''retained receipt already consumed (replay rejected)''"
| "mcpix_display Mismatch = ascii ''confirmation code mismatch''"
| "mcpix_display (Storage m) = ascii ''storage failure: '' @ m"
| "mcpix_display (Transport m) = ascii ''transport failure: '' @ m"

section \<open>Domain types\<close>

definition SEED_LEN :: nat where "SEED_LEN = 32"
definition SEED_ID_MAX_LEN :: nat where "SEED_ID_MAX_LEN = 16"
definition C1_TRANSPORT_LEN :: nat where "C1_TRANSPORT_LEN = 11"
definition C2_TRANSPORT_LEN :: nat where "C2_TRANSPORT_LEN = 11"

lemmas len_defs = SEED_LEN_def SEED_ID_MAX_LEN_def C1_TRANSPORT_LEN_def C2_TRANSPORT_LEN_def

datatype seed = Seed (seed_as_bytes: bytes)
datatype seed_id = SeedId (sid_as_str: bytes)
datatype c1 = C1 (c1_chars: bytes)
datatype c2 = C2 (c2_chars: bytes)

record charge =
  ch_seed_id :: seed_id
  ch_counter :: u64
  ch_amount_cents :: u64
  ch_transport_field :: bytes

record receipt =
  rr_seed_id :: seed_id
  rr_counter :: u64
  rr_amount_cents :: u64
  rr_expected_c2 :: c2
  rr_consumed :: bool

section \<open>Constructors and accessors\<close>

definition seed_from_bytes :: "bytes \<Rightarrow> seed" where
  "seed_from_bytes bs = Seed bs"

definition seed_try_from_slice :: "bytes \<Rightarrow> seed mcpix" where
  "seed_try_from_slice s =
     (if length s \<noteq> SEED_LEN then Err (SeedLength SEED_LEN (length s)) else Ok (Seed s))"

definition seed_id_new :: "bytes \<Rightarrow> seed_id mcpix" where
  "seed_id_new v =
     (if v = [] \<or> length v > SEED_ID_MAX_LEN then Err (SeedIdLength SEED_ID_MAX_LEN (length v))
      else if \<not> list_all (\<lambda>b. is_alnum b \<and> b \<noteq> 0x30) v then Err SeedIdCharset
      else Ok (SeedId v))"

text \<open>\<^verbatim>\<open>from_utf8(..).expect(..)\<close>: a panic when the characters are not UTF-8.\<close>

definition c1_as_str :: "c1 \<Rightarrow> ('e, bytes) outcome" where
  "c1_as_str c = (if utf8_valid (c1_chars c) then Ok (c1_chars c) else Panic)"

definition c2_as_str :: "c2 \<Rightarrow> ('e, bytes) outcome" where
  "c2_as_str c = (if utf8_valid (c2_chars c) then Ok (c2_chars c) else Panic)"

definition c2_parse :: "bytes \<Rightarrow> c2 mcpix" where
  "c2_parse s =
     (if length s \<noteq> C2_TRANSPORT_LEN then Err (TransportFieldLength (length s))
      else if \<not> list_all is_alnum s then Err (TransportFieldCharset 0)
      else Ok (C2 s))"

section \<open>Debug output\<close>

text \<open>
  What \<^verbatim>\<open>{:?}\<close> prints: secrets are replaced by a word. An identifier is letters and digits, so its
  quoted form has nothing to escape.
\<close>

definition seed_debug :: "seed \<Rightarrow> bytes" where
  "seed_debug s = ascii ''Seed(REDACTED)''"

definition c2_debug :: "c2 \<Rightarrow> bytes" where
  "c2_debug c = ascii ''C2(REDACTED)''"

definition seed_id_debug :: "seed_id \<Rightarrow> bytes" where
  "seed_id_debug sid = ascii ''SeedId('' @ [0x22] @ sid_as_str sid @ [0x22] @ ascii '')''"

definition receipt_debug :: "receipt \<Rightarrow> bytes" where
  "receipt_debug r =
     ascii ''RetainedReceipt { seed_id: '' @ seed_id_debug (rr_seed_id r)
       @ ascii '', counter: '' @ show_nat (unat (rr_counter r))
       @ ascii '', amount_cents: '' @ show_nat (unat (rr_amount_cents r))
       @ ascii '', expected_c2: '' @ c2_debug (rr_expected_c2 r)
       @ ascii '', consumed: '' @ (if rr_consumed r then ascii ''true'' else ascii ''false'')
       @ ascii '' }''"

section \<open>Well-formedness\<close>

definition seed_wf :: "seed \<Rightarrow> bool" where
  "seed_wf s \<longleftrightarrow> length (seed_as_bytes s) = 32"

definition seed_id_wf :: "seed_id \<Rightarrow> bool" where
  "seed_id_wf i \<longleftrightarrow>
     1 \<le> length (sid_as_str i) \<and> length (sid_as_str i) \<le> 16 \<and>
     (\<forall>b \<in> set (sid_as_str i). is_alnum b \<and> b \<noteq> 0x30)"

definition c1_wf :: "c1 \<Rightarrow> bool" where
  "c1_wf c \<longleftrightarrow> length (c1_chars c) = 11 \<and> (\<forall>b \<in> set (c1_chars c). is_alnum b)"

definition c2_wf :: "c2 \<Rightarrow> bool" where
  "c2_wf c \<longleftrightarrow> length (c2_chars c) = 11 \<and> (\<forall>b \<in> set (c2_chars c). is_alnum b)"

definition receipt_wf :: "receipt \<Rightarrow> bool" where
  "receipt_wf r \<longleftrightarrow> seed_id_wf (rr_seed_id r) \<and> c2_wf (rr_expected_c2 r)"

lemma seed_try_from_slice_Ok_iff [outcome_simps]:
  "seed_try_from_slice s = Ok x \<longleftrightarrow> length s = 32 \<and> x = Seed s"
  by (auto simp: seed_try_from_slice_def len_defs)

lemma seed_try_from_slice_wf: "seed_try_from_slice s = Ok x \<Longrightarrow> seed_wf x"
  by (simp add: seed_try_from_slice_Ok_iff seed_wf_def)

lemma seed_try_from_slice_as_bytes: "seed_wf s \<Longrightarrow> seed_try_from_slice (seed_as_bytes s) = Ok s"
  by (simp add: seed_try_from_slice_Ok_iff seed_wf_def)

lemma seed_id_new_Ok_iff [outcome_simps]:
  "seed_id_new v = Ok i \<longleftrightarrow> i = SeedId v \<and> seed_id_wf (SeedId v)"
  by (cases v) (auto simp: seed_id_new_def seed_id_wf_def len_defs list_all_iff)

lemma seed_id_new_not_Panic [simp]: "seed_id_new v \<noteq> Panic"
  by (simp add: seed_id_new_def)

lemma seed_id_new_Err_cases:
  "seed_id_new v = Err e \<Longrightarrow> e = SeedIdLength 16 (length v) \<or> e = SeedIdCharset"
  by (auto simp: seed_id_new_def len_defs split: if_splits)

lemma seed_id_new_as_str: "seed_id_wf i \<Longrightarrow> seed_id_new (sid_as_str i) = Ok i"
  by (simp add: seed_id_new_Ok_iff)

lemma c2_parse_Ok_iff [outcome_simps]: "c2_parse s = Ok c \<longleftrightarrow> c = C2 s \<and> c2_wf (C2 s)"
  by (auto simp: c2_parse_def c2_wf_def len_defs list_all_iff)

lemma c2_parse_not_Panic [simp]: "c2_parse s \<noteq> Panic"
  by (simp add: c2_parse_def)

lemma c2_parse_chars: "c2_wf c \<Longrightarrow> c2_parse (c2_chars c) = Ok c"
  by (simp add: c2_parse_Ok_iff)

lemma c1_as_str_wf [simp]: "c1_wf c \<Longrightarrow> c1_as_str c = Ok (c1_chars c)"
  by (simp add: c1_wf_def c1_as_str_def utf8_valid_alnum)

lemma c2_as_str_wf [simp]: "c2_wf c \<Longrightarrow> c2_as_str c = Ok (c2_chars c)"
  by (simp add: c2_wf_def c2_as_str_def utf8_valid_alnum)

end
