(* ===== verification/Crypto.thy ===== *)
theory Crypto
  imports CoreTypes
begin

text \<open>
  \<^verbatim>\<open>mcpix-core/src/crypto.rs\<close>: the alphanumeric encoding of a MAC, the derivation of the pair
  \<open>(C1, C2)\<close> and the comparison of two confirmation codes.

  HMAC-SHA-256 (\<^verbatim>\<open>hmac\<close>, \<^verbatim>\<open>sha2\<close>) and the constant-time comparison (\<^verbatim>\<open>subtle\<close>) are third-party
  crates: they are the fields of \<open>crypto_lib\<close>, an argument of every definition that uses
  them. \<open>crypto_ok\<close> states what their documentation promises: a 32-byte tag for a key of any
  length, and equality of the contents.
\<close>

record crypto_lib =
  hmac_sha256 :: "bytes \<Rightarrow> bytes \<Rightarrow> bytes"
  ct_eq :: "bytes \<Rightarrow> bytes \<Rightarrow> bool"

definition crypto_ok :: "crypto_lib \<Rightarrow> bool" where
  "crypto_ok L \<longleftrightarrow> (\<forall>k m. length (hmac_sha256 L k m) = 32) \<and> (\<forall>a b. ct_eq L a b \<longleftrightarrow> a = b)"

text \<open>
  The AEAD of the sealed store and of the backups, another third-party crate: a ciphertext is
  16 bytes longer than its plaintext and decrypts, under the same key, nonce and associated
  data, to it. That nothing else decrypts is a cryptographic claim the model does not make.
\<close>

record aead =
  aead_encrypt :: "bytes \<Rightarrow> bytes \<Rightarrow> bytes \<Rightarrow> bytes \<Rightarrow> bytes option"
  aead_decrypt :: "bytes \<Rightarrow> bytes \<Rightarrow> bytes \<Rightarrow> bytes \<Rightarrow> bytes option"

definition aead_ok :: "aead \<Rightarrow> bool" where
  "aead_ok A \<longleftrightarrow> (\<forall>key nonce msg aad ct. aead_encrypt A key nonce msg aad = Some ct \<longrightarrow>
     length ct = length msg + 16 \<and> aead_decrypt A key nonce ct aad = Some msg)"

section \<open>The alphanumeric encoding\<close>

definition ALPHANUMERIC :: bytes where
  "ALPHANUMERIC = ascii ''ABCDEFGHJKLMNPQRSTUVWXYZ23456789''"

text \<open>The inner loop: shift bytes into the accumulator while it has fewer than five bits.\<close>

function refill :: "bytes \<Rightarrow> u32 \<Rightarrow> nat \<Rightarrow> nat \<Rightarrow> ('e, u32 \<times> nat \<times> nat) outcome" where
  "refill bs acc bits byte_idx =
     (if bits < 5
      then and_then (index_oc bs byte_idx)
             (\<lambda>b. refill bs (push_bit 8 acc OR ucast b) (bits + 8) (byte_idx + 1))
      else Ok (acc, bits, byte_idx))"
  by pat_completeness auto
termination by (relation "measure (\<lambda>(_, _, bits, _). 5 - bits)") auto

declare refill.simps [simp del]

text \<open>The outer loop, one character per round.\<close>

fun encode_loop :: "bytes \<Rightarrow> nat \<Rightarrow> u32 \<Rightarrow> nat \<Rightarrow> nat \<Rightarrow> ('e, bytes) outcome" where
  "encode_loop bs 0 acc bits byte_idx = Ok []"
| "encode_loop bs (Suc n) acc bits byte_idx =
     and_then (refill bs acc bits byte_idx) (\<lambda>(acc, bits, byte_idx).
       let idx = unat (drop_bit (bits - 5) acc AND 0b11111);
           bits = bits - 5;
           acc = acc AND (push_bit bits 1 - 1)
       in and_then (index_oc ALPHANUMERIC idx) (\<lambda>ch.
            and_then (encode_loop bs n acc bits byte_idx) (\<lambda>rest. Ok (ch # rest))))"

text \<open>
  The buffer has sixteen slots, \<^verbatim>\<open>b'A'\<close> where nothing is written. The \<^verbatim>\<open>debug_assert!\<close> is the
  first branch, as in a build that has it (without it such a call would fill the sixteen slots); the
  function is private and every caller passes 11.
\<close>

definition encode_alphanumeric :: "bytes \<Rightarrow> nat \<Rightarrow> ('e, bytes) outcome" where
  "encode_alphanumeric bs out_len =
     (if out_len > 16 then Panic
      else map_ok (\<lambda>cs. cs @ replicate (16 - length cs) 0x41) (encode_loop bs out_len 0 0 0))"

section \<open>Derivations\<close>

definition hmac_chunks :: "crypto_lib \<Rightarrow> seed \<Rightarrow> bytes list \<Rightarrow> bytes" where
  "hmac_chunks L s chunks = hmac_sha256 L (seed_as_bytes s) (concat chunks)"

definition DOMAIN_C1 :: bytes where "DOMAIN_C1 = ascii ''mcpix/v1/c1''"
definition DOMAIN_C2 :: bytes where "DOMAIN_C2 = ascii ''mcpix/v1/c2''"

definition derive_c2_from_c1 :: "crypto_lib \<Rightarrow> seed \<Rightarrow> u64 \<Rightarrow> c1 \<Rightarrow> ('e, c2) outcome" where
  "derive_c2_from_c1 L s counter c1 =
     (let t = u64_to_be counter in
      and_then (c1_as_str c1) (\<lambda>c1s.
      let c2_mac = hmac_chunks L s [DOMAIN_C2, t, c1s] in
      and_then (encode_alphanumeric c2_mac C2_TRANSPORT_LEN) (\<lambda>cs.
      and_then (prefix_oc cs C2_TRANSPORT_LEN) (\<lambda>c2. Ok (C2 c2)))))"

definition derive_pair :: "crypto_lib \<Rightarrow> seed \<Rightarrow> u64 \<Rightarrow> ('e, c1 \<times> c2) outcome" where
  "derive_pair L s counter =
     (let t = u64_to_be counter;
          c1_mac = hmac_chunks L s [DOMAIN_C1, t] in
      and_then (encode_alphanumeric c1_mac C1_TRANSPORT_LEN) (\<lambda>cs.
      and_then (prefix_oc cs C1_TRANSPORT_LEN) (\<lambda>c1b.
      let c1 = C1 c1b in
      and_then (derive_c2_from_c1 L s counter c1) (\<lambda>c2. Ok (c1, c2)))))"

definition verify_c2 :: "crypto_lib \<Rightarrow> c2 \<Rightarrow> c2 \<Rightarrow> bool" where
  "verify_c2 L expected presented = ct_eq L (c2_chars expected) (c2_chars presented)"

section \<open>The encoding against its specification\<close>

text \<open>
  Character \<open>k\<close> of the encoding stands for bits \<open>5k .. 5k + 4\<close> of the input, read as one
  big-endian number.
\<close>

definition encode_char :: "bytes \<Rightarrow> nat \<Rightarrow> byte" where
  "encode_char bs k = ALPHANUMERIC ! (be_val bs div 2 ^ (8 * length bs - 5 * Suc k) mod 32)"

definition encode_spec :: "bytes \<Rightarrow> nat \<Rightarrow> bytes" where
  "encode_spec bs n = map (encode_char bs) [0 ..< n]"

lemma length_ALPHANUMERIC [simp]: "length ALPHANUMERIC = 32"
  by (simp add: ALPHANUMERIC_def)

lemma ALPHANUMERIC_alnum: "\<forall>b \<in> set ALPHANUMERIC. is_alnum b \<and> b \<noteq> 0x30"
  by (simp add: ALPHANUMERIC_def ascii_def is_alnum_def is_digit_def)

lemma encode_char_alnum: "is_alnum (encode_char bs k) \<and> encode_char bs k \<noteq> 0x30"
  unfolding encode_char_def using ALPHANUMERIC_alnum by simp

lemma length_encode_spec [simp]: "length (encode_spec bs n) = n"
  by (simp add: encode_spec_def)

lemma encode_spec_alnum: "\<forall>b \<in> set (encode_spec bs n). is_alnum b \<and> b \<noteq> 0x30"
  using encode_char_alnum by (auto simp: encode_spec_def)

text \<open>
  The invariant of the two loops: after \<open>i\<close> bytes read and \<open>k\<close> characters written, the
  accumulator holds the \<open>bits\<close> bits of the input that are read and not yet written.
\<close>

definition acc_inv :: "bytes \<Rightarrow> nat \<Rightarrow> u32 \<Rightarrow> nat \<Rightarrow> nat \<Rightarrow> bool" where
  "acc_inv bs k acc bits i \<longleftrightarrow>
     bits \<le> 12 \<and> 8 * i = 5 * k + bits \<and> i \<le> length bs \<and>
     unat acc = be_val (take i bs) mod 2 ^ bits"

lemma mod_shift_add: "(a mod 2 ^ n) * 256 + b = (a * 256 + b) mod 2 ^ (n + 8)"
  if "b < 256" for a b n :: nat
proof -
  have "(a * 256 + b) mod 2 ^ (n + 8) = (256 * a + b) mod (256 * 2 ^ n)"
    by (simp add: power_add mult.commute)
  also have "\<dots> = 256 * ((256 * a + b) div 256 mod 2 ^ n) + (256 * a + b) mod 256"
    by (rule mod_mult2_eq)
  finally show ?thesis using that by simp
qed

lemma acc_inv_read:
  assumes inv: "acc_inv bs k acc bits i" and few: "bits < 5" and i: "i < length bs"
  shows "acc_inv bs k (push_bit 8 acc OR ucast (bs ! i)) (bits + 8) (Suc i)"
proof -
  have acc: "unat acc = be_val (take i bs) mod 2 ^ bits" using inv by (simp add: acc_inv_def)
  have "(2 :: nat) ^ bits \<le> 2 ^ 24" using few by (intro power_increasing) simp_all
  moreover have "unat acc < 2 ^ bits" using acc by simp
  ultimately have "unat acc < 2 ^ 24" by linarith
  then have "unat (push_bit 8 acc OR ucast (bs ! i)) = unat acc * 256 + unat (bs ! i)"
    by (rule unat_push_or)
  also have "\<dots> = be_val (take (Suc i) bs) mod 2 ^ (bits + 8)"
    using unat_bound [of "bs ! i"] i by (simp only: acc be_val_take_Suc) (simp add: mod_shift_add)
  finally show ?thesis using inv few i by (simp add: acc_inv_def)
qed

lemma refill_correct:
  assumes inv: "acc_inv bs k acc bits i" and room: "5 * Suc k \<le> 8 * length bs"
  shows "\<exists>acc' bits' i'. refill bs acc bits i = Ok (acc', bits', i') \<and>
    5 \<le> bits' \<and> acc_inv bs k acc' bits' i'"
proof (cases "bits < 5")
  case False
  with inv show ?thesis by (auto simp: refill.simps)
next
  case True
  with inv room have i: "i < length bs" by (auto simp: acc_inv_def)
  have r: "refill bs acc bits i =
      Ok (push_bit 8 acc OR ucast (bs ! i), bits + 8, Suc i)"
    using True i by (simp add: refill.simps index_oc_def)
  show ?thesis by (intro exI conjI, rule r, simp, rule acc_inv_read [OF inv True i])
qed

lemma acc_inv_char:
  assumes inv: "acc_inv bs k acc bits i" and enough: "5 \<le> bits"
  shows "unat (drop_bit (bits - 5) acc AND 0b11111) =
      be_val bs div 2 ^ (8 * length bs - 5 * Suc k) mod 32"
proof -
  have 31: "(0b11111 :: u32) = mask 5" by (simp add: mask_eq_exp_minus_1)
  have k: "8 * i = 5 * k + bits" and i: "i \<le> length bs"
    and acc: "unat acc = be_val (take i bs) mod 2 ^ bits"
    using inv by (simp_all add: acc_inv_def)
  have "(2 :: nat) ^ bits = 2 ^ (bits - 5) * 2 ^ 5"
    using enough by (subst power_add [symmetric]) simp
  then have "unat (drop_bit (bits - 5) acc AND 0b11111) =
      be_val (take i bs) mod (2 ^ (bits - 5) * 2 ^ 5) div 2 ^ (bits - 5) mod 2 ^ 5"
    unfolding 31 unat_and_mask unat_drop_bit acc by simp
  also have "\<dots> = be_val (take i bs) div 2 ^ (bits - 5) mod 2 ^ 5"
    by (simp add: mod_mult2_eq)
  also have "be_val (take i bs) div 2 ^ (bits - 5) =
      be_val bs div (2 ^ (8 * (length bs - i)) * 2 ^ (bits - 5))"
    by (simp add: be_val_take div_mult2_eq power_mult)
  also have "(2 :: nat) ^ (8 * (length bs - i)) * 2 ^ (bits - 5) =
      2 ^ (8 * length bs - 5 * Suc k)"
    using k i enough
    by (subst power_add [symmetric], intro arg_cong [where f = "(^) 2"])
      (simp add: diff_mult_distrib2)
  finally show ?thesis by simp
qed

lemma acc_inv_step:
  assumes inv: "acc_inv bs k acc bits i" and enough: "5 \<le> bits"
  shows "acc_inv bs (Suc k) (acc AND (push_bit (bits - 5) 1 - 1)) (bits - 5) i"
proof -
  have "unat (acc AND (push_bit (bits - 5) 1 - 1)) =
      be_val (take i bs) mod 2 ^ bits mod 2 ^ (bits - 5)"
    using inv by (simp only: unat_and_pow acc_inv_def)
  also have "\<dots> = be_val (take i bs) mod 2 ^ (bits - 5)"
    by (rule mod_mod_cancel) (simp add: le_imp_power_dvd)
  finally show ?thesis using inv enough by (auto simp: acc_inv_def)
qed

lemma encode_loop_correct:
  "acc_inv bs k acc bits i \<Longrightarrow> 5 * (k + n) \<le> 8 * length bs \<Longrightarrow>
   encode_loop bs n acc bits i = (Ok (map (encode_char bs) [k ..< k + n]) :: ('e, bytes) outcome)"
proof (induction n arbitrary: k acc bits i)
  case 0
  then show ?case by simp
next
  case (Suc n)
  obtain acc' bits' i' where
    r: "refill bs acc bits i = (Ok (acc', bits', i') :: ('e, u32 \<times> nat \<times> nat) outcome)"
    and b: "5 \<le> bits'" and inv: "acc_inv bs k acc' bits' i'"
    using refill_correct [OF Suc.prems(1)] Suc.prems(2) by auto
  let ?acc = "acc' AND (push_bit (bits' - 5) 1 - 1)"
  have room: "5 * (Suc k + n) \<le> 8 * length bs" using Suc.prems(2) by simp
  have rest: "encode_loop bs n ?acc (bits' - 5) i' =
      (Ok (map (encode_char bs) [Suc k ..< Suc k + n]) :: ('e, bytes) outcome)"
    by (rule Suc.IH [OF acc_inv_step [OF inv b] room])
  have ch: "index_oc ALPHANUMERIC (unat (drop_bit (bits' - 5) acc' AND 0b11111)) =
      (Ok (encode_char bs k) :: ('e, byte) outcome)"
    unfolding acc_inv_char [OF inv b] by (simp add: index_oc_def encode_char_def)
  have "[k ..< k + Suc n] = k # [Suc k ..< Suc k + n]" by (simp add: upt_rec)
  then show ?case
    by (simp only: encode_loop.simps r and_then.simps prod.case Let_def ch rest list.map)
qed

lemma encode_alphanumeric_spec:
  assumes "n \<le> 16" and "5 * n \<le> 8 * length bs"
  shows "encode_alphanumeric bs n = Ok (encode_spec bs n @ replicate (16 - n) 0x41)"
proof -
  have "acc_inv bs 0 0 0 0" by (simp add: acc_inv_def)
  then show ?thesis
    using assms
    by (simp add: encode_alphanumeric_def encode_spec_def encode_loop_correct [where k = 0])
qed

lemma encode_alphanumeric_mac:
  "length mac = 32 \<Longrightarrow>
   encode_alphanumeric mac 11 = Ok (encode_spec mac 11 @ replicate 5 0x41)"
  by (simp add: encode_alphanumeric_spec)

section \<open>What the derivations compute\<close>

definition c1_spec :: "crypto_lib \<Rightarrow> seed \<Rightarrow> u64 \<Rightarrow> c1" where
  "c1_spec L s t = C1 (encode_spec (hmac_sha256 L (seed_as_bytes s) (DOMAIN_C1 @ u64_to_be t)) 11)"

definition c2_spec :: "crypto_lib \<Rightarrow> seed \<Rightarrow> u64 \<Rightarrow> c1 \<Rightarrow> c2" where
  "c2_spec L s t c =
     C2 (encode_spec
          (hmac_sha256 L (seed_as_bytes s) (DOMAIN_C2 @ u64_to_be t @ c1_chars c)) 11)"

lemma crypto_okD [simp]:
  "crypto_ok L \<Longrightarrow> length (hmac_sha256 L k m) = 32"
  "crypto_ok L \<Longrightarrow> ct_eq L a b \<longleftrightarrow> a = b"
  by (simp_all add: crypto_ok_def)

lemma c1_spec_wf [simp]: "c1_wf (c1_spec L s t)"
  using encode_spec_alnum by (simp add: c1_wf_def c1_spec_def)

lemma c2_spec_wf [simp]: "c2_wf (c2_spec L s t c)"
  using encode_spec_alnum by (simp add: c2_wf_def c2_spec_def)

lemma derive_c2_from_c1_eq:
  "crypto_ok L \<Longrightarrow> c1_wf c \<Longrightarrow> derive_c2_from_c1 L s t c = Ok (c2_spec L s t c)"
  by (simp add: derive_c2_from_c1_def hmac_chunks_def encode_alphanumeric_mac prefix_oc_def
      C2_TRANSPORT_LEN_def c2_spec_def)

lemma derive_pair_eq:
  assumes "crypto_ok L"
  shows "derive_pair L s t = Ok (c1_spec L s t, c2_spec L s t (c1_spec L s t))"
proof -
  have "C1 (encode_spec (hmac_sha256 L (seed_as_bytes s) (DOMAIN_C1 @ u64_to_be t)) 11)
      = c1_spec L s t"
    by (simp add: c1_spec_def)
  with assms show ?thesis
    by (simp add: derive_pair_def hmac_chunks_def encode_alphanumeric_mac prefix_oc_def
        C1_TRANSPORT_LEN_def derive_c2_from_c1_eq Let_def)
qed

lemma verify_c2_iff: "crypto_ok L \<Longrightarrow> verify_c2 L a b \<longleftrightarrow> a = b"
  by (cases a; cases b) (simp add: verify_c2_def)

lemmas derive_simps = derive_pair_eq derive_c2_from_c1_eq verify_c2_iff

section \<open>How much of the MAC a code carries\<close>

lemma digits_eq:
  "(\<forall>k < n. x div b ^ k mod b = y div b ^ k mod b) \<Longrightarrow> x mod b ^ n = y mod b ^ n"
  for x y b :: nat
proof (induction n)
  case 0
  show ?case by simp
next
  case (Suc n)
  then show ?case by (simp add: mod_mult2_eq mult.commute [of b])
qed

lemma ALPHANUMERIC_distinct: "distinct ALPHANUMERIC"
  by (simp add: ALPHANUMERIC_def ascii_def)

lemma encode_char_eq_iff:
  "encode_char bs k = encode_char cs k \<longleftrightarrow>
   be_val bs div 2 ^ (8 * length bs - 5 * Suc k) mod 32 =
   be_val cs div 2 ^ (8 * length cs - 5 * Suc k) mod 32"
  unfolding encode_char_def by (rule nth_eq_iff_index_eq [OF ALPHANUMERIC_distinct]) simp_all

lemma encode_spec_eq_iff:
  assumes len: "length bs = 32" "length cs = 32"
  shows "encode_spec bs 11 = encode_spec cs 11 \<longleftrightarrow>
    be_val bs div 2 ^ 201 = be_val cs div 2 ^ 201"
    (is "?eq \<longleftrightarrow> ?x = ?y")
proof -
  have split: "be_val ds div 2 ^ (256 - 5 * Suc (10 - k)) = be_val ds div 2 ^ 201 div 32 ^ k"
    if "k < 11" for k and ds :: bytes
  proof -
    have "256 - 5 * Suc (10 - k) = 201 + 5 * k" using that by simp
    then show ?thesis by (simp add: power_add div_mult2_eq power_mult)
  qed
  have "?eq \<longleftrightarrow> (\<forall>k < 11. encode_char bs k = encode_char cs k)"
    by (simp add: encode_spec_def atLeast0LessThan lessThan_def Ball_def)
  also have "\<dots> \<longleftrightarrow> (\<forall>k < 11. encode_char bs (10 - k) = encode_char cs (10 - k))"
  proof (intro iffI allI impI)
    fix k :: nat
    assume *: "\<forall>k < 11. encode_char bs (10 - k) = encode_char cs (10 - k)" and "k < 11"
    then have "10 - (10 - k) = k" "10 - k < 11" by simp_all
    with * show "encode_char bs k = encode_char cs k" by metis
  qed simp
  also have "\<dots> \<longleftrightarrow> (\<forall>k < 11. ?x div 32 ^ k mod 32 = ?y div 32 ^ k mod 32)"
    using len split by (simp only: encode_char_eq_iff) simp
  also have "\<dots> \<longleftrightarrow> ?x = ?y"
  proof
    assume "\<forall>k < 11. ?x div 32 ^ k mod 32 = ?y div 32 ^ k mod 32"
    then have "?x mod 32 ^ 11 = ?y mod 32 ^ 11" by (rule digits_eq)
    moreover have "be_val ds div 2 ^ 201 < 32 ^ 11" if "length ds = 32" for ds
      using be_val_bound [of ds] that by (intro less_mult_imp_div_less) simp
    ultimately show "?x = ?y" using len by simp
  qed simp
  finally show ?thesis .
qed

section \<open>A concrete instance\<close>

text \<open>
  A toy MAC that satisfies \<open>crypto_ok\<close> and is cheap to evaluate. The witnesses of the
  development run the code on it.
\<close>

definition demo_mac :: "bytes \<Rightarrow> bytes \<Rightarrow> bytes" where
  "demo_mac k m = (let h = foldl (\<lambda>a b. 3 * a + b) 7 (k @ m) in
     map (\<lambda>i. h * word_of_nat (Suc i) + word_of_nat i) [0 ..< 32])"

definition demo_crypto :: crypto_lib where
  "demo_crypto = \<lparr> hmac_sha256 = demo_mac, ct_eq = (=) \<rparr>"

lemma demo_crypto_ok [simp]: "crypto_ok demo_crypto"
  by (simp add: crypto_ok_def demo_crypto_def demo_mac_def Let_def)

definition demo_seed :: seed where
  "demo_seed = Seed (replicate 32 0xA5)"

lemma demo_seed_wf [simp]: "seed_wf demo_seed"
  by (simp add: seed_wf_def demo_seed_def)

text \<open>A toy AEAD for the witnesses: no secrecy, a tag that is checked.\<close>

definition demo_tag :: "bytes \<Rightarrow> bytes \<Rightarrow> bytes \<Rightarrow> bytes \<Rightarrow> bytes" where
  "demo_tag key nonce msg aad = replicate 16 (foldl (+) 1 (key @ nonce @ msg @ aad))"

definition demo_aead :: aead where
  "demo_aead =
     \<lparr> aead_encrypt = \<lambda>key nonce msg aad. Some (msg @ demo_tag key nonce msg aad),
       aead_decrypt = \<lambda>key nonce ct aad.
         (if length ct \<ge> 16 \<and>
             drop (length ct - 16) ct = demo_tag key nonce (take (length ct - 16) ct) aad
          then Some (take (length ct - 16) ct) else None) \<rparr>"

lemma demo_aead_ok [simp]: "aead_ok demo_aead"
  by (simp add: aead_ok_def demo_aead_def demo_tag_def)

section \<open>Properties\<close>

text \<open>
  C1. The encoding of a 32-byte MAC into eleven characters never panics and is exact: slot \<open>k\<close>
  is the alphabet character of bits \<open>5k .. 5k + 4\<close> of the MAC, read as a big-endian number, and
  the five slots past the eleventh keep their initial \<open>A\<close>.
\<close>
theorem mac_encoding_reads_bits:
  assumes "length mac = 32"
  shows "encode_alphanumeric mac 11 =
    Ok (map (\<lambda>k. ALPHANUMERIC ! (be_val mac div 2 ^ (256 - 5 * Suc k) mod 32)) [0 ..< 11]
        @ replicate 5 0x41)"
proof -
  have "encode_char mac = (\<lambda>k. ALPHANUMERIC ! (be_val mac div 2 ^ (256 - 5 * Suc k) mod 32))"
    using assms by (simp add: encode_char_def fun_eq_iff)
  then show ?thesis by (simp only: encode_alphanumeric_mac [OF assms] encode_spec_def)
qed

theorem mac_encoding_reads_bits_witness:
  "encode_alphanumeric (replicate 32 0xA5) 11 =
   Ok (map (\<lambda>k. ALPHANUMERIC ! (be_val (replicate 32 0xA5) div 2 ^ (256 - 5 * Suc k) mod 32))
        [0 ..< 11] @ replicate 5 0x41)"
  by (rule mac_encoding_reads_bits) simp

text \<open>
  A code carries exactly the first 55 bits of its MAC: two MACs have the same eleven
  characters if and only if these bits agree, so no other truncation happens.
\<close>
theorem mac_encoding_collisions:
  assumes "length mac = 32" and "length mac' = 32"
  shows "encode_alphanumeric mac 11 = (encode_alphanumeric mac' 11 :: bytes mcpix) \<longleftrightarrow>
    be_val mac div 2 ^ 201 = be_val mac' div 2 ^ 201"
  using assms by (simp add: encode_alphanumeric_mac encode_spec_eq_iff)

theorem mac_encoding_collisions_witness:
  "encode_alphanumeric (replicate 7 0 @ replicate 25 1) 11 =
   (encode_alphanumeric (replicate 7 0 @ replicate 25 2) 11 :: bytes mcpix) \<longleftrightarrow>
   be_val (replicate 7 0 @ replicate 25 1) div 2 ^ 201 =
   be_val (replicate 7 0 @ replicate 25 2) div 2 ^ 201"
  by (rule mac_encoding_collisions) simp_all

text \<open>
  The institutional substitution: whoever holds the seed, the counter and the public \<open>C1\<close>
  recomputes the confirmation code of the pair, both codes are eleven alphanumeric characters,
  and the comparison accepts that code and no other.
\<close>
theorem c2_recomputed_from_c1:
  assumes "crypto_ok L"
  shows "\<exists>c1 c2. derive_pair L s t = Ok (c1, c2) \<and> c1_wf c1 \<and> c2_wf c2 \<and>
    derive_c2_from_c1 L s t c1 = Ok c2 \<and> (\<forall>c. verify_c2 L c2 c = (c = c2))"
  using assms by (auto simp: derive_simps)

theorem c2_recomputed_from_c1_witness:
  "\<exists>c1 c2. derive_pair demo_crypto demo_seed 42 = Ok (c1, c2) \<and> c1_wf c1 \<and> c2_wf c2 \<and>
    derive_c2_from_c1 demo_crypto demo_seed 42 c1 = Ok c2 \<and>
    (\<forall>c. verify_c2 demo_crypto c2 c = (c = c2))"
  by (rule c2_recomputed_from_c1) simp

end
