(* ===== verification/Version.thy ===== *)
theory Version
  imports CoreTypes
begin

text \<open>
  \<^verbatim>\<open>mcpix-core/src/version.rs\<close>: the protocol versions, the dispatch on the prefix of a field and
  the negotiation of a common version.
\<close>

definition PROTOCOL_PREFIX_FAMILY :: bytes where "PROTOCOL_PREFIX_FAMILY = ascii ''PIXOFFv''"
definition PROTOCOL_PREFIX_LEN :: nat where "PROTOCOL_PREFIX_LEN = 8"

datatype protocol_version = V1

text \<open>The discriminant of the \<^verbatim>\<open>repr(u8)\<close> enum orders the versions.\<close>

fun version_num :: "protocol_version \<Rightarrow> nat" where
  "version_num V1 = 1"

instantiation protocol_version :: linorder
begin

definition less_eq_protocol_version :: "protocol_version \<Rightarrow> protocol_version \<Rightarrow> bool" where
  "less_eq_protocol_version a b \<longleftrightarrow> version_num a \<le> version_num b"

definition less_protocol_version :: "protocol_version \<Rightarrow> protocol_version \<Rightarrow> bool" where
  "less_protocol_version a b \<longleftrightarrow> version_num a < version_num b"

instance
proof
  fix a b :: protocol_version
  show "a \<le> b \<Longrightarrow> b \<le> a \<Longrightarrow> a = b" by (cases a; cases b) simp
qed (auto simp: less_eq_protocol_version_def less_protocol_version_def)

end

definition version_current :: protocol_version where
  "version_current = V1"

fun version_prefix :: "protocol_version \<Rightarrow> bytes" where
  "version_prefix V1 = ascii ''PIXOFFv1''"

text \<open>\<^verbatim>\<open>Display\<close>\<close>

definition version_display :: "protocol_version \<Rightarrow> bytes" where
  "version_display v = version_prefix v"

definition version_all :: "protocol_version list" where
  "version_all = [V1]"

definition detect :: "bytes \<Rightarrow> protocol_version mcpix" where
  "detect field =
     (if length field < PROTOCOL_PREFIX_LEN then Err (TransportFieldLength (length field))
      else and_then (str_prefix field PROTOCOL_PREFIX_LEN) (\<lambda>prefix.
        case find (\<lambda>v. prefix = version_prefix v) version_all of
          Some v \<Rightarrow> Ok v
        | None \<Rightarrow>
            if starts_with prefix PROTOCOL_PREFIX_FAMILY
            then Err (UnsupportedProtocolVersion prefix)
            else Err TransportFieldPrefix))"

definition is_any_version :: "bytes \<Rightarrow> ('e, bool) outcome" where
  "is_any_version field =
     (if length field \<ge> PROTOCOL_PREFIX_LEN
      then map_ok (\<lambda>prefix. starts_with prefix PROTOCOL_PREFIX_FAMILY)
             (str_prefix field PROTOCOL_PREFIX_LEN)
      else Ok False)"

definition negotiate_version :: "protocol_version list \<Rightarrow> bytes list \<Rightarrow> protocol_version option" where
  "negotiate_version loc peer =
     find (\<lambda>v. list_ex (\<lambda>s. s = version_prefix v) peer) (rev loc)"

section \<open>Lemmas\<close>

lemma length_version_prefix [simp]: "length (version_prefix v) = 8"
  by (cases v) simp

lemma version_prefix_alnum: "\<forall>b \<in> set (version_prefix v). is_alnum b"
  by (cases v) (simp add: ascii_def is_alnum_def is_digit_def)

lemma version_prefix_inject: "version_prefix v = version_prefix w \<longleftrightarrow> v = w"
  by (cases v; cases w) simp

lemma version_prefix_family: "starts_with (version_prefix v) PROTOCOL_PREFIX_FAMILY"
  by (cases v) (simp add: starts_with_def PROTOCOL_PREFIX_FAMILY_def ascii_def)

lemma version_all_complete: "v \<in> set version_all"
  by (cases v) (simp add: version_all_def)

lemma find_version:
  "find (\<lambda>v. p = version_prefix v) version_all = (if p = version_prefix V1 then Some V1 else None)"
  by (simp add: version_all_def)

lemma detect_boundary:
  "8 \<le> length f \<Longrightarrow> is_char_boundary f 8 \<Longrightarrow> detect f =
    (if take 8 f = version_prefix V1 then Ok V1
     else if starts_with (take 8 f) PROTOCOL_PREFIX_FAMILY
       then Err (UnsupportedProtocolVersion (take 8 f))
     else Err TransportFieldPrefix)"
  unfolding detect_def by (simp only: find_version) (simp add: str_prefix_def PROTOCOL_PREFIX_LEN_def)

lemma detect_Ok_iff:
  "detect f = Ok v \<longleftrightarrow> 8 \<le> length f \<and> is_char_boundary f 8 \<and> take 8 f = version_prefix v"
proof (cases "8 \<le> length f \<and> is_char_boundary f 8")
  case True
  then show ?thesis by (cases v) (simp add: detect_boundary)
next
  case False
  then show ?thesis by (auto simp: detect_def str_prefix_def PROTOCOL_PREFIX_LEN_def)
qed

lemma detect_Panic_iff: "detect f = Panic \<longleftrightarrow> 8 < length f \<and> is_cont_byte (f ! 8)"
proof (cases "8 \<le> length f \<and> is_char_boundary f 8")
  case True
  then show ?thesis by (auto simp: detect_boundary is_char_boundary_def)
next
  case False
  then show ?thesis
    by (auto simp: detect_def str_prefix_def PROTOCOL_PREFIX_LEN_def is_char_boundary_def)
qed

lemma is_any_version_Panic_iff:
  "is_any_version f = Panic \<longleftrightarrow> 8 < length f \<and> is_cont_byte (f ! 8)"
  by (auto simp: is_any_version_def str_prefix_def PROTOCOL_PREFIX_LEN_def is_char_boundary_def)

lemma is_any_version_Ok:
  assumes "is_char_boundary f 8"
  shows "is_any_version f = Ok (8 \<le> length f \<and> starts_with f PROTOCOL_PREFIX_FAMILY)"
  using assms
  by (auto simp: is_any_version_def str_prefix_def PROTOCOL_PREFIX_LEN_def starts_with_def
      PROTOCOL_PREFIX_FAMILY_def min_def)

text \<open>The search from the end of a sorted list finds the largest element that qualifies.\<close>

lemma find_rev_greatest:
  fixes xs :: "'a::linorder list"
  assumes "sorted xs" and "find P (rev xs) = Some v"
  shows "v \<in> set xs \<and> P v \<and> (\<forall>w \<in> set xs. P w \<longrightarrow> w \<le> v)"
  using assms
proof (induction xs rule: rev_induct)
  case Nil
  then show ?case by simp
next
  case (snoc x xs)
  then show ?case by (cases "P x") (auto simp: sorted_append)
qed

section \<open>Properties\<close>

text \<open>
  On a list of versions in ascending order, the negotiation returns the highest version
  that the peer announces too, and returns \<open>None\<close> exactly when there is none.
\<close>
theorem negotiate_highest_common:
  assumes "sorted loc"
  shows "case negotiate_version loc peer of
      None \<Rightarrow> \<forall>v \<in> set loc. version_prefix v \<notin> set peer
    | Some v \<Rightarrow> v \<in> set loc \<and> version_prefix v \<in> set peer \<and>
        (\<forall>w \<in> set loc. version_prefix w \<in> set peer \<longrightarrow> w \<le> v)"
proof (cases "negotiate_version loc peer")
  case None
  then have "\<forall>v \<in> set loc. version_prefix v \<notin> set peer"
    by (auto simp: negotiate_version_def find_None_iff list_ex_iff)
  with None show ?thesis by simp
next
  case (Some v)
  with find_rev_greatest [OF assms] show ?thesis
    by (fastforce simp: negotiate_version_def list_ex_iff)
qed

theorem negotiate_highest_common_witness:
  "case negotiate_version [V1] [ascii ''PIXOFFv9'', ascii ''PIXOFFv1''] of
      None \<Rightarrow> \<forall>v \<in> set [V1]. version_prefix v \<notin> set [ascii ''PIXOFFv9'', ascii ''PIXOFFv1'']
    | Some v \<Rightarrow> v \<in> set [V1] \<and>
        version_prefix v \<in> set [ascii ''PIXOFFv9'', ascii ''PIXOFFv1''] \<and>
        (\<forall>w \<in> set [V1]. version_prefix w \<in> set [ascii ''PIXOFFv9'', ascii ''PIXOFFv1'']
           \<longrightarrow> w \<le> v)"
  by (rule negotiate_highest_common) simp

text \<open>
  C40. The dispatch on the prefix panics exactly when the ninth byte of the field continues a
  UTF-8 sequence: the slice of the first eight bytes then ends inside a character. A well-formed
  string of this kind exists, so the two public entry points do not handle every \<^verbatim>\<open>&str\<close>.
\<close>
theorem detect_panics_inside_character:
  "(detect f = Panic \<longleftrightarrow> 8 < length f \<and> is_cont_byte (f ! 8)) \<and>
   (is_any_version f = (Panic :: bool mcpix) \<longleftrightarrow> 8 < length f \<and> is_cont_byte (f ! 8)) \<and>
   utf8_valid (ascii ''PIXOFFv'' @ [0xC3, 0xA9]) \<and>
   detect (ascii ''PIXOFFv'' @ [0xC3, 0xA9]) = Panic \<and>
   is_any_version (ascii ''PIXOFFv'' @ [0xC3, 0xA9]) = (Panic :: bool mcpix)"
proof (intro conjI)
  have c: "is_cont_byte ((ascii ''PIXOFFv'' @ [0xC3, 0xA9]) ! 8)"
    by (simp add: ascii_def is_cont_byte_def)
  show "utf8_valid (ascii ''PIXOFFv'' @ [0xC3, 0xA9])"
    by (simp add: ascii_def is_cont_byte_def)
  show "detect (ascii ''PIXOFFv'' @ [0xC3, 0xA9]) = Panic"
    "is_any_version (ascii ''PIXOFFv'' @ [0xC3, 0xA9]) = (Panic :: bool mcpix)"
    using c by (simp_all add: detect_Panic_iff is_any_version_Panic_iff)
qed (rule detect_Panic_iff is_any_version_Panic_iff)+

end
