(* ===== verification/TransportField.thy ===== *)
theory TransportField
  imports Version
begin

text \<open>
  \<^verbatim>\<open>mcpix-core/src/transport_field.rs\<close>: the 35-character field that carries the version, the
  seed identifier and \<open>C1\<close> over public channels.
\<close>

definition PROTOCOL_PREFIX :: bytes where "PROTOCOL_PREFIX = ascii ''PIXOFFv1''"

definition TRANSPORT_FIELD_LEN :: nat where
  "TRANSPORT_FIELD_LEN = PROTOCOL_PREFIX_LEN + SEED_ID_MAX_LEN + C1_TRANSPORT_LEN"

definition SEED_ID_PAD :: byte where "SEED_ID_PAD = 0x30"

lemmas field_len_defs =
  TRANSPORT_FIELD_LEN_def PROTOCOL_PREFIX_LEN_def SEED_ID_MAX_LEN_def C1_TRANSPORT_LEN_def

record parsed_field =
  pf_seed_id :: seed_id
  pf_c1 :: c1
  pf_version :: protocol_version

text \<open>
  The loop pushes one pad character per missing position. The final \<^verbatim>\<open>debug_assert_eq!\<close> is the
  last branch.
\<close>

definition encode_with_version ::
  "seed_id \<Rightarrow> c1 \<Rightarrow> protocol_version \<Rightarrow> ('e, bytes) outcome" where
  "encode_with_version sid c v =
     and_then (c1_as_str c) (\<lambda>c1s.
     let out = version_prefix v @ sid_as_str sid
           @ replicate (SEED_ID_MAX_LEN - length (sid_as_str sid)) SEED_ID_PAD @ c1s
     in if length out = TRANSPORT_FIELD_LEN then Ok out else Panic)"

definition encode :: "seed_id \<Rightarrow> c1 \<Rightarrow> ('e, bytes) outcome" where
  "encode sid c = encode_with_version sid c version_current"

definition parse_v1 :: "bytes \<Rightarrow> parsed_field mcpix" where
  "parse_v1 field =
     (if length field \<noteq> TRANSPORT_FIELD_LEN then Err (TransportFieldLength (length field))
      else
        and_then (str_slice field PROTOCOL_PREFIX_LEN (PROTOCOL_PREFIX_LEN + SEED_ID_MAX_LEN))
          (\<lambda>seed_id_slot.
        let seed_id_str = trim_end_matches SEED_ID_PAD seed_id_slot in
        and_then (seed_id_new seed_id_str) (\<lambda>sid.
        and_then (str_slice field (PROTOCOL_PREFIX_LEN + SEED_ID_MAX_LEN) (length field))
          (\<lambda>c1_slot.
        and_then (copy_from_slice_oc C1_TRANSPORT_LEN c1_slot) (\<lambda>c1_bytes.
        Ok \<lparr> pf_seed_id = sid, pf_c1 = C1 c1_bytes, pf_version = V1 \<rparr>)))))"

text \<open>The charset loop: the position of the first byte that is not alphanumeric.\<close>

fun charset_error :: "nat \<Rightarrow> bytes \<Rightarrow> nat option" where
  "charset_error i [] = None"
| "charset_error i (b # bs) = (if \<not> is_alnum b then Some i else charset_error (Suc i) bs)"

definition parse :: "bytes \<Rightarrow> parsed_field mcpix" where
  "parse field =
     (if \<not> (26 \<le> length field \<and> length field \<le> 35)
      then Err (TransportFieldLength (length field))
      else case charset_error 0 field of
        Some i \<Rightarrow> Err (TransportFieldCharset i)
      | None \<Rightarrow>
          and_then (detect field) (\<lambda>v. case v of V1 \<Rightarrow> parse_v1 field))"

definition is_protocol_field :: "bytes \<Rightarrow> bool" where
  "is_protocol_field field \<longleftrightarrow>
     length field = TRANSPORT_FIELD_LEN \<and> starts_with field PROTOCOL_PREFIX"

section \<open>Lemmas\<close>

text \<open>The field as the documentation draws it: prefix, padded seed identifier, \<open>C1\<close>.\<close>

definition field_of :: "seed_id \<Rightarrow> c1 \<Rightarrow> bytes" where
  "field_of sid c = version_prefix V1 @ sid_as_str sid
     @ replicate (16 - length (sid_as_str sid)) 0x30 @ c1_chars c"

lemma encode_eq:
  "seed_id_wf sid \<Longrightarrow> c1_wf c \<Longrightarrow> encode sid c = Ok (field_of sid c)"
  by (simp add: encode_def encode_with_version_def version_current_def field_of_def field_len_defs
      SEED_ID_PAD_def seed_id_wf_def c1_wf_def c1_as_str_def utf8_valid_alnum)

lemma length_field_of: "seed_id_wf sid \<Longrightarrow> c1_wf c \<Longrightarrow> length (field_of sid c) = 35"
  by (simp add: field_of_def seed_id_wf_def c1_wf_def)

lemma pad_alnum: "is_alnum 0x30"
  by (simp add: is_alnum_def is_digit_def)

lemma field_of_alnum:
  "seed_id_wf sid \<Longrightarrow> c1_wf c \<Longrightarrow> \<forall>b \<in> set (field_of sid c). is_alnum b"
  using version_prefix_alnum [of V1] pad_alnum
  by (auto simp: field_of_def seed_id_wf_def c1_wf_def)

lemma charset_error_eq:
  "charset_error i bs =
    (if \<forall>b \<in> set bs. is_alnum b then None else Some (i + length (takeWhile is_alnum bs)))"
  by (induction bs arbitrary: i) auto

lemma str_slice_field:
  "length f = 35 \<Longrightarrow> \<forall>b \<in> set f. is_alnum b \<Longrightarrow> str_slice f 8 24 = Ok (take 16 (drop 8 f))"
  "length f = 35 \<Longrightarrow> \<forall>b \<in> set f. is_alnum b \<Longrightarrow> str_slice f 24 35 = Ok (drop 24 f)"
  by (simp_all add: str_slice_alnum)

text \<open>The seed identifier that the slot of a 35-character field stands for.\<close>

definition sid_slot :: "bytes \<Rightarrow> bytes" where
  "sid_slot f = trim_end_matches 0x30 (take 16 (drop 8 f))"

lemma parse_v1_eq:
  assumes "length f = 35" and "\<forall>b \<in> set f. is_alnum b"
  shows "parse_v1 f = map_ok (\<lambda>sid. \<lparr> pf_seed_id = sid, pf_c1 = C1 (drop 24 f), pf_version = V1 \<rparr>)
    (seed_id_new (sid_slot f))"
  using assms
  by (cases "seed_id_new (sid_slot f)")
    (simp_all add: str_slice_field parse_v1_def field_len_defs sid_slot_def SEED_ID_PAD_def copy_from_slice_oc_def)

lemma parse_len: "\<not> (26 \<le> length f \<and> length f \<le> 35) \<Longrightarrow>
    parse f = Err (TransportFieldLength (length f))"
  by (simp add: parse_def)

lemma parse_charset: "26 \<le> length f \<Longrightarrow> length f \<le> 35 \<Longrightarrow> \<not> (\<forall>b \<in> set f. is_alnum b) \<Longrightarrow>
    parse f = Err (TransportFieldCharset (length (takeWhile is_alnum f)))"
  by (auto simp: parse_def charset_error_eq)

lemma parse_alnum:
  assumes "26 \<le> length f" and "length f \<le> 35" and "\<forall>b \<in> set f. is_alnum b"
  shows "parse f =
    (if take 8 f = version_prefix V1 then parse_v1 f
     else if starts_with (take 8 f) PROTOCOL_PREFIX_FAMILY
       then Err (UnsupportedProtocolVersion (take 8 f))
     else Err TransportFieldPrefix)"
proof -
  have "is_char_boundary f 8" using assms by (intro char_boundary_alnum) auto
  then have "detect f =
    (if take 8 f = version_prefix V1 then Ok V1
     else if starts_with (take 8 f) PROTOCOL_PREFIX_FAMILY
       then Err (UnsupportedProtocolVersion (take 8 f))
     else Err TransportFieldPrefix)"
    using assms by (intro detect_boundary) auto
  with assms show ?thesis by (simp add: parse_def charset_error_eq)
qed

lemma parse_v1_len: "length f \<noteq> 35 \<Longrightarrow> parse_v1 f = Err (TransportFieldLength (length f))"
  by (simp add: parse_v1_def field_len_defs)

lemma sid_slot_field_of:
  assumes "seed_id_wf sid"
  shows "sid_slot (field_of sid c) = sid_as_str sid"
proof -
  have "take 16 (drop 8 (field_of sid c)) =
      sid_as_str sid @ replicate (16 - length (sid_as_str sid)) 0x30"
    using assms by (simp add: field_of_def seed_id_wf_def)
  with assms show ?thesis
    by (simp add: sid_slot_def trim_end_matches_pad seed_id_wf_def)
qed

lemma parse_field_of:
  assumes "seed_id_wf sid" and "c1_wf c"
  shows "parse (field_of sid c) = Ok \<lparr> pf_seed_id = sid, pf_c1 = c, pf_version = V1 \<rparr>"
proof -
  let ?f = "field_of sid c"
  have f: "length ?f = 35" "\<forall>b \<in> set ?f. is_alnum b"
    using assms by (simp_all add: length_field_of field_of_alnum)
  have pre: "take 8 ?f = version_prefix V1" by (simp add: field_of_def del: version_prefix.simps)
  have c1: "drop 24 ?f = c1_chars c"
    using assms(1) by (simp add: field_of_def seed_id_wf_def)
  show ?thesis
    using assms f by (simp add: parse_alnum pre parse_v1_eq sid_slot_field_of seed_id_new_as_str c1)
qed

lemma parse_Ok_field_of:
  assumes "parse f = Ok p"
  shows "seed_id_wf (pf_seed_id p) \<and> c1_wf (pf_c1 p) \<and> pf_version p = V1 \<and>
    f = field_of (pf_seed_id p) (pf_c1 p)"
proof -
  have len: "26 \<le> length f" "length f \<le> 35" using assms parse_len by force+
  have an: "\<forall>b \<in> set f. is_alnum b" using assms parse_charset [OF len] by force
  have pre: "take 8 f = version_prefix V1" and v1: "parse_v1 f = Ok p"
    using assms parse_alnum [OF len an] by (auto split: if_splits)
  have l35: "length f = 35" using v1 parse_v1_len by force
  from v1 obtain sid where sid: "seed_id_new (sid_slot f) = Ok sid"
    and p: "p = \<lparr> pf_seed_id = sid, pf_c1 = C1 (drop 24 f), pf_version = V1 \<rparr>"
    by (auto simp: parse_v1_eq [OF l35 an] outcome_simps)
  have wf: "seed_id_wf sid" and str: "sid_as_str sid = sid_slot f"
    using sid by (auto simp: seed_id_new_Ok_iff)
  have "take 16 (drop 8 f) = sid_slot f @ replicate (16 - length (sid_slot f)) 0x30"
    using trim_end_matches_split [of "take 16 (drop 8 f)" "0x30"] l35 by (simp add: sid_slot_def)
  moreover have "f = take 8 f @ take 16 (drop 8 f) @ drop 24 f"
    using append_take_drop_id [of 16 "drop 8 f"] append_take_drop_id [of 8 f] by simp
  ultimately have "f = field_of sid (C1 (drop 24 f))"
    by (simp add: field_of_def pre str)
  with wf p an l35 set_drop_subset [of 24 f] show ?thesis by (auto simp: c1_wf_def)
qed

section \<open>Properties\<close>

text \<open>
  C12. Encoding a valid seed identifier and a valid \<open>C1\<close> succeeds with 35 alphanumeric
  characters that the protocol recognises, and parsing them gives the two back.
\<close>
theorem transport_field_roundtrip:
  assumes "seed_id_wf sid" and "c1_wf c"
  shows "\<exists>f. encode sid c = (Ok f :: bytes mcpix) \<and> length f = 35 \<and> (\<forall>b \<in> set f. is_alnum b) \<and>
    is_protocol_field f \<and>
    parse f = Ok \<lparr> pf_seed_id = sid, pf_c1 = c, pf_version = V1 \<rparr>"
proof (intro exI conjI)
  show "encode sid c = (Ok (field_of sid c) :: bytes mcpix)" using assms by (rule encode_eq)
  show "is_protocol_field (field_of sid c)"
    using length_field_of [OF assms]
    by (simp add: is_protocol_field_def field_len_defs starts_with_def PROTOCOL_PREFIX_def
        field_of_def)
qed (use assms in \<open>simp_all add: length_field_of field_of_alnum parse_field_of\<close>)

theorem transport_field_roundtrip_witness:
  "\<exists>f. encode (SeedId (ascii ''LOJA1'')) (C1 (ascii ''ABCDEFGHJK2'')) = (Ok f :: bytes mcpix) \<and>
    length f = 35 \<and> (\<forall>b \<in> set f. is_alnum b) \<and> is_protocol_field f \<and>
    parse f = Ok \<lparr> pf_seed_id = SeedId (ascii ''LOJA1''), pf_c1 = C1 (ascii ''ABCDEFGHJK2''),
                   pf_version = V1 \<rparr>"
  by (rule transport_field_roundtrip)
    (simp_all add: seed_id_wf_def c1_wf_def ascii_def is_alnum_def is_digit_def)

text \<open>
  The field is canonical: what parses is exactly the encoding of what the parser returns,
  so no two different fields stand for the same identifier and \<open>C1\<close>.
\<close>
theorem transport_field_canonical:
  assumes "parse f = Ok p"
  shows "encode_with_version (pf_seed_id p) (pf_c1 p) (pf_version p) = (Ok f :: bytes mcpix) \<and>
    seed_id_wf (pf_seed_id p) \<and> c1_wf (pf_c1 p)"
proof -
  have p: "seed_id_wf (pf_seed_id p)" "c1_wf (pf_c1 p)" "pf_version p = V1"
    "f = field_of (pf_seed_id p) (pf_c1 p)"
    using parse_Ok_field_of [OF assms] by blast+
  have "encode_with_version (pf_seed_id p) (pf_c1 p) V1 = (Ok f :: bytes mcpix)"
    using encode_eq [OF p(1,2)] p(4) by (simp add: encode_def version_current_def)
  with p show ?thesis by simp
qed

theorem transport_field_canonical_witness:
  "encode_with_version (SeedId (ascii ''LOJA1'')) (C1 (ascii ''ABCDEFGHJK2'')) V1 =
     (Ok (ascii ''PIXOFFv1LOJA100000000000ABCDEFGHJK2'') :: bytes mcpix)"
proof -
  have "parse (ascii ''PIXOFFv1LOJA100000000000ABCDEFGHJK2'') =
    Ok \<lparr> pf_seed_id = SeedId (ascii ''LOJA1''), pf_c1 = C1 (ascii ''ABCDEFGHJK2''),
         pf_version = V1 \<rparr>" by code_simp
  from transport_field_canonical [OF this] show ?thesis by simp
qed

text \<open>
  C27. Parsing never panics, whatever the bytes, and each kind of error has one cause: the
  length outside 26..35, the first byte that is not alphanumeric, a prefix of the family with an
  unknown version, a foreign prefix; after a known prefix, a length other than 35, or a seed
  identifier slot that is all padding.
\<close>
theorem parse_outcomes:
  "parse f =
    (if \<not> (26 \<le> length f \<and> length f \<le> 35) then Err (TransportFieldLength (length f))
     else if \<exists>b \<in> set f. \<not> is_alnum b
       then Err (TransportFieldCharset (length (takeWhile is_alnum f)))
     else if take 8 f \<noteq> ascii ''PIXOFFv1'' then
       (if take 7 f = ascii ''PIXOFFv'' then Err (UnsupportedProtocolVersion (take 8 f))
        else Err TransportFieldPrefix)
     else if length f \<noteq> 35 then Err (TransportFieldLength (length f))
     else if \<forall>b \<in> set (take 16 (drop 8 f)). b = 0x30 then Err (SeedIdLength 16 0)
     else if \<exists>b \<in> set (sid_slot f). b = 0x30 then Err SeedIdCharset
     else Ok \<lparr> pf_seed_id = SeedId (sid_slot f), pf_c1 = C1 (drop 24 f), pf_version = V1 \<rparr>)"
proof (cases "26 \<le> length f \<and> length f \<le> 35 \<and> (\<forall>b \<in> set f. is_alnum b)")
  case False
  then show ?thesis using parse_len [of f] parse_charset [of f] by auto
next
  case True
  then have len: "26 \<le> length f" "length f \<le> 35" and an: "\<forall>b \<in> set f. is_alnum b" by auto
  have fam: "starts_with (take 8 f) PROTOCOL_PREFIX_FAMILY \<longleftrightarrow> take 7 f = ascii ''PIXOFFv''"
    by (simp add: starts_with_def PROTOCOL_PREFIX_FAMILY_def numeral_eq_Suc)
  show ?thesis
  proof (cases "take 8 f = version_prefix V1 \<and> length f = 35")
    case False
    then show ?thesis
      using len an by (auto simp: parse_alnum [OF len an] fam parse_v1_len)
  next
    case v1: True
    have sub: "\<forall>b \<in> set (sid_slot f). is_alnum b"
    proof -
      have "set (sid_slot f) \<subseteq> set f"
        unfolding sid_slot_def using set_trim_end_matches set_take_subset set_drop_subset by fast
      with an show ?thesis by blast
    qed
    have l: "length (sid_slot f) \<le> 16"
      unfolding sid_slot_def using length_trim_end_matches [of "0x30" "take 16 (drop 8 f)"] by simp
    have empty: "sid_slot f = [] \<longleftrightarrow> (\<forall>b \<in> set (take 16 (drop 8 f)). b = 0x30)"
      unfolding sid_slot_def trim_end_matches_def by (auto simp: dropWhile_eq_Nil_conv)
    have "seed_id_new (sid_slot f) =
      (if \<forall>b \<in> set (take 16 (drop 8 f)). b = 0x30 then Err (SeedIdLength 16 0)
       else if \<exists>b \<in> set (sid_slot f). b = 0x30 then Err SeedIdCharset
       else Ok (SeedId (sid_slot f)))"
      using sub l unfolding empty [symmetric] seed_id_new_def len_defs list_all_iff
      by (cases "sid_slot f = []") simp_all
    with v1 an len show ?thesis by (simp add: parse_alnum [OF len an] parse_v1_eq [OF _ an])
  qed
qed

theorem parse_outcomes_witness:
  "parse (ascii ''PIXOFFv2LOJA100000000000ABCDEFGHJK2'') =
     Err (UnsupportedProtocolVersion (ascii ''PIXOFFv2'')) \<and>
   parse (ascii ''PIXOFFv1LO0A100000000000ABCDEFGHJK2'') = Err SeedIdCharset \<and>
   parse (ascii ''PIXOFFv10000000000000000ABCDEFGHJK2'') = Err (SeedIdLength 16 0)"
  unfolding parse_outcomes by code_simp

end
