(* ===== verification/CoreState.thy ===== *)
theory CoreState
  imports Crypto TransportField
begin

text \<open>
  \<^verbatim>\<open>mcpix-core/src/state.rs\<close>: the functional core, from \<open>(seed, counter, amount)\<close> to a public
  charge and a retained receipt, and from a receipt and a presented code to a verdict.
\<close>

record generate_cmd =
  gc_seed_id :: seed_id
  gc_counter :: u64
  gc_amount_cents :: u64

record charge_outcome =
  co_charge :: charge
  co_retained :: receipt

definition apply_generate_charge ::
  "crypto_lib \<Rightarrow> seed \<Rightarrow> generate_cmd \<Rightarrow> ('e, charge_outcome) outcome" where
  "apply_generate_charge L s cmd =
     and_then (derive_pair L s (gc_counter cmd)) (\<lambda>(c1, c2).
     and_then (encode (gc_seed_id cmd) c1) (\<lambda>field.
     let charge = \<lparr> ch_seed_id = gc_seed_id cmd, ch_counter = gc_counter cmd,
                     ch_amount_cents = gc_amount_cents cmd, ch_transport_field = field \<rparr>;
         retained = \<lparr> rr_seed_id = gc_seed_id cmd, rr_counter = gc_counter cmd,
                       rr_amount_cents = gc_amount_cents cmd, rr_expected_c2 = c2,
                       rr_consumed = False \<rparr>
     in Ok \<lparr> co_charge = charge, co_retained = retained \<rparr>))"

datatype validation_outcome = Valid | MismatchOutcome | Replay

definition apply_validate_receipt :: "crypto_lib \<Rightarrow> receipt \<Rightarrow> c2 \<Rightarrow> validation_outcome" where
  "apply_validate_receipt L retained presented =
     (if rr_consumed retained then Replay
      else if verify_c2 L (rr_expected_c2 retained) presented then Valid
      else MismatchOutcome)"

definition apply_recover_c2 :: "crypto_lib \<Rightarrow> seed \<Rightarrow> u64 \<Rightarrow> c1 \<Rightarrow> ('e, c2) outcome" where
  "apply_recover_c2 L s counter c1 = derive_c2_from_c1 L s counter c1"

definition ensure_seed_id_matches :: "seed_id \<Rightarrow> seed_id \<Rightarrow> unit mcpix" where
  "ensure_seed_id_matches field_seed_id lookup_seed_id =
     (if field_seed_id = lookup_seed_id then Ok () else Err UnknownSeed)"

section \<open>Lemmas\<close>

text \<open>What a charge and its receipt hold, written over the specification of the codes.\<close>

definition charge_spec :: "crypto_lib \<Rightarrow> seed \<Rightarrow> seed_id \<Rightarrow> u64 \<Rightarrow> u64 \<Rightarrow> charge" where
  "charge_spec L s sid t amount =
     \<lparr> ch_seed_id = sid, ch_counter = t, ch_amount_cents = amount,
       ch_transport_field = field_of sid (c1_spec L s t) \<rparr>"

definition receipt_spec :: "crypto_lib \<Rightarrow> seed \<Rightarrow> seed_id \<Rightarrow> u64 \<Rightarrow> u64 \<Rightarrow> receipt" where
  "receipt_spec L s sid t amount =
     \<lparr> rr_seed_id = sid, rr_counter = t, rr_amount_cents = amount,
       rr_expected_c2 = c2_spec L s t (c1_spec L s t), rr_consumed = False \<rparr>"

lemma receipt_spec_fields [simp]:
  "rr_seed_id (receipt_spec L s sid t a) = sid"
  "rr_counter (receipt_spec L s sid t a) = t"
  "rr_amount_cents (receipt_spec L s sid t a) = a"
  "rr_expected_c2 (receipt_spec L s sid t a) = c2_spec L s t (c1_spec L s t)"
  "\<not> rr_consumed (receipt_spec L s sid t a)"
  by (simp_all add: receipt_spec_def)

lemma charge_spec_fields [simp]:
  "ch_seed_id (charge_spec L s sid t a) = sid"
  "ch_counter (charge_spec L s sid t a) = t"
  "ch_amount_cents (charge_spec L s sid t a) = a"
  "ch_transport_field (charge_spec L s sid t a) = field_of sid (c1_spec L s t)"
  by (simp_all add: charge_spec_def)

lemma receipt_spec_wf: "seed_id_wf sid \<Longrightarrow> receipt_wf (receipt_spec L s sid t a)"
  by (simp add: receipt_wf_def)

lemma apply_generate_charge_eq:
  "crypto_ok L \<Longrightarrow> seed_id_wf (gc_seed_id cmd) \<Longrightarrow>
   apply_generate_charge L s cmd =
     Ok \<lparr> co_charge = charge_spec L s (gc_seed_id cmd) (gc_counter cmd) (gc_amount_cents cmd),
          co_retained = receipt_spec L s (gc_seed_id cmd) (gc_counter cmd) (gc_amount_cents cmd) \<rparr>"
  by (simp add: apply_generate_charge_def derive_pair_eq encode_eq charge_spec_def receipt_spec_def)

lemma apply_validate_receipt_simps:
  "crypto_ok L \<Longrightarrow> apply_validate_receipt L r c = Valid \<longleftrightarrow> \<not> rr_consumed r \<and> c = rr_expected_c2 r"
  "crypto_ok L \<Longrightarrow>
     apply_validate_receipt L r c = MismatchOutcome \<longleftrightarrow> \<not> rr_consumed r \<and> c \<noteq> rr_expected_c2 r"
  "apply_validate_receipt L r c = Replay \<longleftrightarrow> rr_consumed r"
  by (auto simp: apply_validate_receipt_def verify_c2_iff)

section \<open>Properties\<close>

text \<open>
  A generated charge validates: the public field parses back to the seed identifier and a
  \<open>C1\<close> from which the holder of the seed recomputes, at the same counter, exactly the code the
  retained receipt expects, and that code is accepted while every other code is a mismatch.
\<close>
theorem generated_charge_validates:
  assumes "crypto_ok L" and "seed_id_wf (gc_seed_id cmd)"
  shows "\<exists>out p c2. apply_generate_charge L s cmd = Ok out \<and>
    parse (ch_transport_field (co_charge out)) = Ok p \<and>
    ensure_seed_id_matches (pf_seed_id p) (gc_seed_id cmd) = Ok () \<and>
    apply_recover_c2 L s (gc_counter cmd) (pf_c1 p) = (Ok c2 :: c2 mcpix) \<and>
    rr_counter (co_retained out) = gc_counter cmd \<and>
    apply_validate_receipt L (co_retained out) c2 = Valid \<and>
    (\<forall>c. c \<noteq> c2 \<longrightarrow> apply_validate_receipt L (co_retained out) c = MismatchOutcome)"
  using assms
  by (simp add: apply_generate_charge_eq parse_field_of ensure_seed_id_matches_def
      apply_recover_c2_def derive_c2_from_c1_eq apply_validate_receipt_simps)

theorem generated_charge_validates_witness:
  "\<exists>out p c2.
    apply_generate_charge demo_crypto demo_seed
      \<lparr> gc_seed_id = SeedId (ascii ''LOJA1''), gc_counter = 7, gc_amount_cents = 1990 \<rparr> = Ok out \<and>
    parse (ch_transport_field (co_charge out)) = Ok p \<and>
    ensure_seed_id_matches (pf_seed_id p) (SeedId (ascii ''LOJA1'')) = Ok () \<and>
    apply_recover_c2 demo_crypto demo_seed 7 (pf_c1 p) = (Ok c2 :: c2 mcpix) \<and>
    rr_counter (co_retained out) = 7 \<and>
    apply_validate_receipt demo_crypto (co_retained out) c2 = Valid \<and>
    (\<forall>c. c \<noteq> c2 \<longrightarrow> apply_validate_receipt demo_crypto (co_retained out) c = MismatchOutcome)"
proof -
  let ?cmd = "\<lparr> gc_seed_id = SeedId (ascii ''LOJA1''), gc_counter = 7, gc_amount_cents = 1990 \<rparr>"
  have "seed_id_wf (gc_seed_id ?cmd)"
    by (simp add: seed_id_wf_def ascii_def is_alnum_def is_digit_def)
  from generated_charge_validates [OF demo_crypto_ok this] show ?thesis by simp
qed

end
