(* ===== verification/SeedStores.thy ===== *)
theory SeedStores
  imports CoreState
begin

text \<open>
  The \<^verbatim>\<open>SeedStore\<close> trait (\<^verbatim>\<open>mcpix-core/src/traits.rs\<close>) and the in-memory store of the receiver
  SDK (\<^verbatim>\<open>memory_store.rs\<close>).

  A trait object is a record of functions. Every method takes an environment \<open>'e\<close>, what the
  outside world answers to this one call (a random nonce, a failing disk), and the state \<open>'st\<close>
  of the store; a method with \<^verbatim>\<open>&self\<close> and interior mutability returns the new state. One call
  holds the lock of the store from its first to its last access, so it is one step.
\<close>

record ('e, 'st) seed_store_ops =
  put_seed :: "'e \<Rightarrow> seed_id \<Rightarrow> seed \<Rightarrow> 'st \<Rightarrow> unit mcpix \<times> 'st"
  get_seed :: "'e \<Rightarrow> seed_id \<Rightarrow> 'st \<Rightarrow> seed option mcpix"
  save_receipt :: "'e \<Rightarrow> receipt \<Rightarrow> 'st \<Rightarrow> unit mcpix \<times> 'st"
  get_receipt :: "'e \<Rightarrow> seed_id \<Rightarrow> u64 \<Rightarrow> 'st \<Rightarrow> receipt option mcpix"
  mark_consumed :: "'e \<Rightarrow> seed_id \<Rightarrow> u64 \<Rightarrow> 'st \<Rightarrow> unit mcpix \<times> 'st"

section \<open>The in-memory store\<close>

record mem_store =
  ms_seeds :: "seed_id \<rightharpoonup> seed"
  ms_receipts :: "seed_id \<times> u64 \<rightharpoonup> receipt"

definition mem_store_new :: mem_store where
  "mem_store_new = \<lparr> ms_seeds = Map.empty, ms_receipts = Map.empty \<rparr>"

definition mem_put_seed :: "seed_id \<Rightarrow> seed \<Rightarrow> mem_store \<Rightarrow> unit mcpix \<times> mem_store" where
  "mem_put_seed sid s st = (Ok (), st \<lparr> ms_seeds := (ms_seeds st)(sid \<mapsto> s) \<rparr>)"

definition mem_get_seed :: "seed_id \<Rightarrow> mem_store \<Rightarrow> seed option mcpix" where
  "mem_get_seed sid st = Ok (ms_seeds st sid)"

definition mem_save_receipt :: "receipt \<Rightarrow> mem_store \<Rightarrow> unit mcpix \<times> mem_store" where
  "mem_save_receipt r st =
     (let key = (rr_seed_id r, rr_counter r)
      in (Ok (), st \<lparr> ms_receipts := (ms_receipts st)(key \<mapsto> r) \<rparr>))"

definition mem_get_receipt :: "seed_id \<Rightarrow> u64 \<Rightarrow> mem_store \<Rightarrow> receipt option mcpix" where
  "mem_get_receipt sid counter st = Ok (ms_receipts st (sid, counter))"

definition mem_mark_consumed :: "seed_id \<Rightarrow> u64 \<Rightarrow> mem_store \<Rightarrow> unit mcpix \<times> mem_store" where
  "mem_mark_consumed sid counter st =
     (case ms_receipts st (sid, counter) of
        Some r \<Rightarrow>
          (Ok (), st \<lparr> ms_receipts :=
             (ms_receipts st)((sid, counter) \<mapsto> r \<lparr> rr_consumed := True \<rparr>) \<rparr>)
      | None \<Rightarrow> (Err NoRetainedReceipt, st))"

definition mem_store_ops :: "('e, mem_store) seed_store_ops" where
  "mem_store_ops =
     \<lparr> put_seed = \<lambda>e. mem_put_seed, get_seed = \<lambda>e. mem_get_seed,
       save_receipt = \<lambda>e. mem_save_receipt, get_receipt = \<lambda>e. mem_get_receipt,
       mark_consumed = \<lambda>e. mem_mark_consumed \<rparr>"

section \<open>Sequences of calls\<close>

datatype store_call =
    PutSeed seed_id seed
  | GetSeed seed_id
  | SaveReceipt receipt
  | GetReceipt seed_id u64
  | MarkConsumed seed_id u64

datatype store_reply = Done | SeedReply "seed option" | ReceiptReply "receipt option"

fun call_wf :: "store_call \<Rightarrow> bool" where
  "call_wf (PutSeed sid s) \<longleftrightarrow> seed_id_wf sid \<and> seed_wf s"
| "call_wf (GetSeed sid) \<longleftrightarrow> seed_id_wf sid"
| "call_wf (SaveReceipt r) \<longleftrightarrow> receipt_wf r"
| "call_wf (GetReceipt sid t) \<longleftrightarrow> seed_id_wf sid"
| "call_wf (MarkConsumed sid t) \<longleftrightarrow> seed_id_wf sid"

fun store_step ::
  "('e, 'st) seed_store_ops \<Rightarrow> 'e \<Rightarrow> store_call \<Rightarrow> 'st \<Rightarrow> store_reply mcpix \<times> 'st" where
  "store_step ops e (PutSeed sid s) st = apfst (map_ok (\<lambda>_. Done)) (put_seed ops e sid s st)"
| "store_step ops e (GetSeed sid) st = (map_ok SeedReply (get_seed ops e sid st), st)"
| "store_step ops e (SaveReceipt r) st = apfst (map_ok (\<lambda>_. Done)) (save_receipt ops e r st)"
| "store_step ops e (GetReceipt sid t) st = (map_ok ReceiptReply (get_receipt ops e sid t st), st)"
| "store_step ops e (MarkConsumed sid t) st =
     apfst (map_ok (\<lambda>_. Done)) (mark_consumed ops e sid t st)"

text \<open>A run keeps the calls that succeeded, with their replies.\<close>

fun store_run ::
  "('e, 'st) seed_store_ops \<Rightarrow> ('e \<times> store_call) list \<Rightarrow> 'st \<Rightarrow>
   (store_call \<times> store_reply) list \<times> 'st" where
  "store_run ops [] st = ([], st)"
| "store_run ops ((e, c) # cs) st =
     (let (r, st1) = store_step ops e c st; (log, st2) = store_run ops cs st1
      in (case r of Ok x \<Rightarrow> (c, x) # log | _ \<Rightarrow> log, st2))"

section \<open>The contract of the trait\<close>

text \<open>
  The in-memory store is the specification. An implementation has an invariant and an abstract
  view, and every method either has the effect the in-memory store has on the view, or fails and
  leaves the view as it was.
\<close>

definition store_view_wf :: "mem_store \<Rightarrow> bool" where
  "store_view_wf m \<longleftrightarrow>
     (\<forall>sid s. ms_seeds m sid = Some s \<longrightarrow> seed_wf s) \<and>
     (\<forall>k r. ms_receipts m k = Some r \<longrightarrow> receipt_wf r \<and> k = (rr_seed_id r, rr_counter r))"

lemma receipt_wf_update [simp]: "receipt_wf (r \<lparr> rr_consumed := b \<rparr>) = receipt_wf r"
  by (simp add: receipt_wf_def)

locale seed_store =
  fixes ops :: "('e, 'st) seed_store_ops"
    and view :: "'st \<Rightarrow> mem_store"
    and inv :: "'st \<Rightarrow> bool"
  assumes put_seed_law:
      "inv st \<Longrightarrow> seed_id_wf sid \<Longrightarrow> seed_wf s \<Longrightarrow> put_seed ops e sid s st = (r, st') \<Longrightarrow>
       inv st' \<and> (if r = Ok () then view st' = snd (mem_put_seed sid s (view st))
                  else view st' = view st)"
    and get_seed_law:
      "inv st \<Longrightarrow> seed_id_wf sid \<Longrightarrow> get_seed ops e sid st = Ok x \<Longrightarrow> x = ms_seeds (view st) sid"
    and save_receipt_law:
      "inv st \<Longrightarrow> receipt_wf q \<Longrightarrow> save_receipt ops e q st = (r, st') \<Longrightarrow>
       inv st' \<and> (if r = Ok () then view st' = snd (mem_save_receipt q (view st))
                  else view st' = view st)"
    and get_receipt_law:
      "inv st \<Longrightarrow> seed_id_wf sid \<Longrightarrow> get_receipt ops e sid t st = Ok y \<Longrightarrow>
       y = ms_receipts (view st) (sid, t)"
    and mark_consumed_law:
      "inv st \<Longrightarrow> seed_id_wf sid \<Longrightarrow> mark_consumed ops e sid t st = (r, st') \<Longrightarrow>
       inv st' \<and> (if r = Ok () then ms_receipts (view st) (sid, t) \<noteq> None \<and>
           view st' = snd (mem_mark_consumed sid t (view st))
                  else view st' = view st)"
    and view_wf: "inv st \<Longrightarrow> store_view_wf (view st)"
begin

lemma put_then_get:
  assumes "inv st" "seed_id_wf sid" "seed_wf s" "put_seed ops e sid s st = (Ok (), st')"
    and "get_seed ops e' sid st' = Ok x"
  shows "x = Some s"
  using put_seed_law [OF assms(1-4)] get_seed_law [OF _ assms(2,5)] by (simp add: mem_put_seed_def)

lemma save_then_get:
  assumes "inv st" "receipt_wf q" "save_receipt ops e q st = (Ok (), st')"
    and "get_receipt ops e' (rr_seed_id q) (rr_counter q) st' = Ok y"
  shows "y = Some q"
  using save_receipt_law [OF assms(1-3)] get_receipt_law [OF _ _ assms(4)] assms(2)
  by (simp add: mem_save_receipt_def Let_def receipt_wf_def)

lemma mark_then_get:
  assumes "inv st" "seed_id_wf sid" "mark_consumed ops e sid t st = (Ok (), st')"
    and "get_receipt ops e' sid t st' = Ok y"
  shows "\<exists>q. ms_receipts (view st) (sid, t) = Some q \<and> y = Some (q \<lparr> rr_consumed := True \<rparr>)"
  using mark_consumed_law [OF assms(1-3)] get_receipt_law [OF _ assms(2,4)]
  by (auto simp: mem_mark_consumed_def split: option.splits)

lemma get_receipt_wf:
  assumes "inv st" "seed_id_wf sid" "get_receipt ops e sid t st = Ok (Some q)"
  shows "receipt_wf q \<and> rr_seed_id q = sid \<and> rr_counter q = t"
  using get_receipt_law [OF assms] view_wf [OF assms(1)] by (auto simp: store_view_wf_def)

lemma get_seed_wf:
  assumes "inv st" "seed_id_wf sid" "get_seed ops e sid st = Ok (Some s)"
  shows "seed_wf s"
  using get_seed_law [OF assms] view_wf [OF assms(1)] by (simp add: store_view_wf_def)

text \<open>Refinement: the calls that succeed answer, and act, as the in-memory store does.\<close>

lemma step_refines:
  assumes "inv st" "call_wf c" "store_step ops e c st = (r, st')"
  shows "inv st' \<and> (if is_ok r then store_step mem_store_ops () c (view st) = (r, view st')
    else view st' = view st)"
proof (cases c)
  case (PutSeed sid s)
  obtain r1 where put: "put_seed ops e sid s st = (r1, st')" and r: "r = map_ok (\<lambda>_. Done) r1"
    using assms(3) PutSeed by (cases "put_seed ops e sid s st") auto
  from put_seed_law [OF assms(1) _ _ put] assms(2) PutSeed r show ?thesis
    by (cases r1) (auto simp: mem_store_ops_def mem_put_seed_def)
next
  case (GetSeed sid)
  with assms get_seed_law [OF assms(1), of sid e] show ?thesis
    by (cases "get_seed ops e sid st") (auto simp: mem_store_ops_def mem_get_seed_def)
next
  case (SaveReceipt q)
  obtain r1 where save: "save_receipt ops e q st = (r1, st')" and r: "r = map_ok (\<lambda>_. Done) r1"
    using assms(3) SaveReceipt by (cases "save_receipt ops e q st") auto
  from save_receipt_law [OF assms(1) _ save] assms(2) SaveReceipt r show ?thesis
    by (cases r1) (auto simp: mem_store_ops_def mem_save_receipt_def Let_def)
next
  case (GetReceipt sid t)
  with assms get_receipt_law [OF assms(1), of sid e t] show ?thesis
    by (cases "get_receipt ops e sid t st") (auto simp: mem_store_ops_def mem_get_receipt_def)
next
  case (MarkConsumed sid t)
  obtain r1 where mark: "mark_consumed ops e sid t st = (r1, st')"
    and r: "r = map_ok (\<lambda>_. Done) r1"
    using assms(3) MarkConsumed by (cases "mark_consumed ops e sid t st") auto
  from mark_consumed_law [OF assms(1) _ mark] assms(2) MarkConsumed r show ?thesis
    by (cases r1) (auto simp: mem_store_ops_def mem_mark_consumed_def)
qed

lemma run_refines:
  "inv st \<Longrightarrow> \<forall>(e, c) \<in> set cs. call_wf c \<Longrightarrow> store_run ops cs st = (log, st') \<Longrightarrow>
   inv st' \<and> store_run mem_store_ops (map (\<lambda>(c, x). ((), c)) log) (view st) = (log, view st')"
proof (induction cs arbitrary: st log st')
  case Nil
  then show ?case by simp
next
  case (Cons ec cs)
  obtain e c where ec: "ec = (e, c)" by (cases ec)
  obtain r st1 where s1: "store_step ops e c st = (r, st1)" by force
  obtain log1 st2 where s2: "store_run ops cs st1 = (log1, st2)" by force
  have step: "inv st1 \<and> (if is_ok r then store_step mem_store_ops () c (view st) = (r, view st1)
    else view st1 = view st)"
    using step_refines [OF Cons.prems(1) _ s1] Cons.prems(2) ec by auto
  then have "inv st1" by blast
  from Cons.IH [OF this _ s2] Cons.prems(2) have
    "inv st2 \<and> store_run mem_store_ops (map (\<lambda>(c, x). ((), c)) log1) (view st1) = (log1, view st2)"
    by simp
  with step Cons.prems(3) ec s1 s2 show ?case by (cases r) auto
qed

end

lemmas mem_defs = mem_put_seed_def mem_get_seed_def mem_save_receipt_def mem_get_receipt_def
  mem_mark_consumed_def

lemma mem_view_wf_preserved:
  "store_view_wf m \<Longrightarrow> seed_wf s \<Longrightarrow> store_view_wf (snd (mem_put_seed sid s m))"
  "store_view_wf m \<Longrightarrow> receipt_wf q \<Longrightarrow> store_view_wf (snd (mem_save_receipt q m))"
  "store_view_wf m \<Longrightarrow> store_view_wf (snd (mem_mark_consumed sid t m))"
  by (auto simp: store_view_wf_def mem_defs Let_def split: option.splits if_splits)

lemma mem_store_new_wf [simp]: "store_view_wf mem_store_new"
  by (simp add: store_view_wf_def mem_store_new_def)

interpretation mem: seed_store mem_store_ops "\<lambda>st. st" store_view_wf
proof (unfold_locales, goal_cases)
  case (1 st sid s e r st')
  then show ?case using mem_view_wf_preserved(1) [of st s sid]
    by (auto simp: mem_store_ops_def mem_put_seed_def)
next
  case (2 st sid e x)
  then show ?case by (simp add: mem_store_ops_def mem_get_seed_def)
next
  case (3 st q e r st')
  then show ?case using mem_view_wf_preserved(2) [of st q]
    by (auto simp: mem_store_ops_def mem_save_receipt_def Let_def)
next
  case (4 st sid e t y)
  then show ?case by (simp add: mem_store_ops_def mem_get_receipt_def)
next
  case (5 st sid e t r st')
  then show ?case using mem_view_wf_preserved(3) [of st sid t]
    by (auto simp: mem_store_ops_def mem_mark_consumed_def split: option.splits)
next
  case (6 st)
  then show ?case .
qed

end
