(* ===== verification/Counters.thy ===== *)
theory Counters
  imports CoreTypes
begin

text \<open>
  The \<^verbatim>\<open>Counter\<close> and \<^verbatim>\<open>Clock\<close> traits (\<^verbatim>\<open>mcpix-core/src/traits.rs\<close>) and their implementations in
  the receiver SDK: \<^verbatim>\<open>clock.rs\<close>, \<^verbatim>\<open>monotonic_counter.rs\<close>, \<^verbatim>\<open>timestamp_counter.rs\<close>.

  \<^verbatim>\<open>next\<close> takes the environment of the call (the clock reading, for the timestamp counter) and
  returns the result with the new state.
\<close>

type_synonym ('e, 'ct) counter_next = "'e \<Rightarrow> seed_id \<Rightarrow> 'ct \<Rightarrow> u64 mcpix \<times> 'ct"

section \<open>Clocks\<close>

text \<open>
  The system clock reads 0 when the time is before the epoch (\<open>None\<close>); the test clock is an
  atomic whose \<^verbatim>\<open>fetch_add\<close> wraps around.
\<close>

definition system_now :: "u64 option \<Rightarrow> u64" where
  "system_now since_epoch = (case since_epoch of Some d \<Rightarrow> d | None \<Rightarrow> 0)"

definition test_clock_new :: "u64 \<Rightarrow> u64" where
  "test_clock_new initial = initial"

definition test_clock_set :: "u64 \<Rightarrow> u64 \<Rightarrow> u64" where
  "test_clock_set t clock = t"

definition test_clock_advance :: "u64 \<Rightarrow> u64 \<Rightarrow> u64" where
  "test_clock_advance delta clock = clock + delta"

definition test_clock_now :: "u64 \<Rightarrow> u64" where
  "test_clock_now clock = clock"

section \<open>The sequential counter\<close>

type_synonym mem_counter = "seed_id \<rightharpoonup> u64"

definition counter_new :: mem_counter where
  "counter_new = Map.empty"

text \<open>\<^verbatim>\<open>entry(..).or_insert(0)\<close>: the slot, with 0 put there first when it was vacant.\<close>

definition slot_or_insert :: "seed_id \<Rightarrow> mem_counter \<Rightarrow> u64 \<times> mem_counter" where
  "slot_or_insert sid g =
     (case g sid of Some v \<Rightarrow> (v, g) | None \<Rightarrow> (0, g(sid \<mapsto> 0)))"

definition restore_last_issued :: "seed_id \<Rightarrow> u64 \<Rightarrow> mem_counter \<Rightarrow> mem_counter" where
  "restore_last_issued sid last_t g =
     (let (slot, g) = slot_or_insert sid g
      in if last_t > slot then g(sid \<mapsto> last_t) else g)"

definition counter_next :: "seed_id \<Rightarrow> mem_counter \<Rightarrow> u64 mcpix \<times> mem_counter" where
  "counter_next sid g =
     (let (slot, g) = slot_or_insert sid g
      in case checked_add slot 1 of
           None \<Rightarrow> (Err CounterOverflow, g)
         | Some n \<Rightarrow> (Ok n, g(sid \<mapsto> n)))"

section \<open>The quantised-timestamp counter\<close>

definition DEFAULT_WINDOW_SECONDS :: u64 where
  "DEFAULT_WINDOW_SECONDS = 30"

record ts_counter =
  tc_window_seconds :: u64
  tc_last_issued :: "seed_id \<rightharpoonup> u64"

definition ts_with_window :: "u64 \<Rightarrow> ('e, ts_counter) outcome" where
  "ts_with_window window_seconds =
     (if window_seconds > 0
      then Ok \<lparr> tc_window_seconds = window_seconds, tc_last_issued = Map.empty \<rparr> else Panic)"

definition ts_new :: "('e, ts_counter) outcome" where
  "ts_new = ts_with_window DEFAULT_WINDOW_SECONDS"

text \<open>Division panics on a zero divisor.\<close>

definition div_oc :: "u64 \<Rightarrow> u64 \<Rightarrow> ('e, u64) outcome" where
  "div_oc a b = (if b = 0 then Panic else Ok (a div b))"

definition current_quantum :: "u64 \<Rightarrow> ts_counter \<Rightarrow> ('e, u64) outcome" where
  "current_quantum now_t c = div_oc now_t (tc_window_seconds c)"

definition ts_window_seconds :: "ts_counter \<Rightarrow> u64" where
  "ts_window_seconds c = tc_window_seconds c"

definition ts_next :: "u64 \<Rightarrow> seed_id \<Rightarrow> ts_counter \<Rightarrow> u64 mcpix \<times> ts_counter" where
  "ts_next now_t sid c =
     (case div_oc now_t (tc_window_seconds c) of
        Err e \<Rightarrow> (Err e, c)
      | Panic \<Rightarrow> (Panic, c)
      | Ok t \<Rightarrow>
         (case tc_last_issued c sid of
            None \<Rightarrow> (Ok t, c \<lparr> tc_last_issued := (tc_last_issued c)(sid \<mapsto> t) \<rparr>)
          | Some last_t \<Rightarrow>
              if t > last_t
              then (Ok t, c \<lparr> tc_last_issued := (tc_last_issued c)(sid \<mapsto> t) \<rparr>)
              else if t = last_t then (Err (CounterCollision (tc_window_seconds c)), c)
              else (Err (CounterRollback last_t t), c)))"

section \<open>The contract of the trait\<close>

text \<open>
  A counter remembers the last value it issued per seed identifier; what it issues next is
  larger, and a failing call issues nothing.
\<close>

locale counter_impl =
  fixes next_value :: "('e, 'ct) counter_next"
    and last_issued :: "'ct \<Rightarrow> seed_id \<rightharpoonup> u64"
    and inv :: "'ct \<Rightarrow> bool"
  assumes next_Ok:
      "inv c \<Longrightarrow> next_value e sid c = (Ok n, c') \<Longrightarrow>
       inv c' \<and> (\<forall>m. last_issued c sid = Some m \<longrightarrow> m < n) \<and>
       last_issued c' = (last_issued c)(sid \<mapsto> n)"
    and next_fails:
      "inv c \<Longrightarrow> next_value e sid c = (r, c') \<Longrightarrow> \<not> is_ok r \<Longrightarrow>
       inv c' \<and> last_issued c' = last_issued c"

text \<open>A run of calls, with the values it issues in order.\<close>

fun issued :: "('e, 'ct) counter_next \<Rightarrow> ('e \<times> seed_id) list \<Rightarrow> 'ct \<Rightarrow> (seed_id \<times> u64) list" where
  "issued nxt [] c = []"
| "issued nxt ((e, sid) # calls) c =
     (case nxt e sid c of
        (Ok n, c') \<Rightarrow> (sid, n) # issued nxt calls c'
      | (_, c') \<Rightarrow> issued nxt calls c')"

definition per_seed_increasing :: "(seed_id \<times> u64) list \<Rightarrow> bool" where
  "per_seed_increasing xs \<longleftrightarrow> sorted_wrt (\<lambda>(i, m) (j, n). i = j \<longrightarrow> m < n) xs"

lemma per_seed_increasing_nth:
  "per_seed_increasing xs \<Longrightarrow> i < j \<Longrightarrow> j < length xs \<Longrightarrow> fst (xs ! i) = fst (xs ! j) \<Longrightarrow>
   snd (xs ! i) < snd (xs ! j)"
  using sorted_wrt_nth_less [of "\<lambda>(i, m) (j, n). i = j \<longrightarrow> m < n" xs i j]
  by (simp add: per_seed_increasing_def case_prod_beta)

context counter_impl
begin

lemma issued_increasing:
  "inv c \<Longrightarrow> per_seed_increasing (issued next_value calls c) \<and>
    (\<forall>(sid, n) \<in> set (issued next_value calls c). \<forall>m. last_issued c sid = Some m \<longrightarrow> m < n)"
proof (induction calls arbitrary: c)
  case Nil
  show ?case by (simp add: per_seed_increasing_def)
next
  case (Cons call calls)
  obtain e sid r c' where call: "call = (e, sid)" and nx: "next_value e sid c = (r, c')"
    by (metis surj_pair)
  show ?case
  proof (cases r)
    case (Ok n)
    from next_Ok [OF Cons.prems] nx Ok have c': "inv c'"
      "\<forall>m. last_issued c sid = Some m \<longrightarrow> m < n" "last_issued c' = (last_issued c)(sid \<mapsto> n)"
      by auto
    have "\<forall>(i, k) \<in> set (issued next_value calls c'). i = sid \<longrightarrow> n < k"
      "\<forall>(i, k) \<in> set (issued next_value calls c').
         \<forall>m. i \<noteq> sid \<longrightarrow> last_issued c i = Some m \<longrightarrow> m < k"
      using Cons.IH [OF c'(1)] c'(3) by fastforce+
    with Cons.IH [OF c'(1)] c'(2) Ok call nx show ?thesis
      by (fastforce simp: per_seed_increasing_def)
  next
    case (Err e')
    with next_fails [OF Cons.prems] nx have "inv c'" "last_issued c' = last_issued c" by auto
    with Cons.IH [of c'] Err call nx show ?thesis by simp
  next
    case Panic
    with next_fails [OF Cons.prems] nx have "inv c'" "last_issued c' = last_issued c" by auto
    with Cons.IH [of c'] Panic call nx show ?thesis by simp
  qed
qed

end

section \<open>The two implementations meet the contract\<close>

lemma checked_add_1_gt: "checked_add (a :: u64) 1 = Some b \<Longrightarrow> a < b"
  using checked_add_Some [of a 1 b] by (simp add: word_less_nat_alt)

lemma counter_next_Ok:
  "counter_next sid g = (Ok n, g') \<longleftrightarrow>
   checked_add (case g sid of Some v \<Rightarrow> v | None \<Rightarrow> 0) 1 = Some n \<and> g' = g(sid \<mapsto> n)"
  by (auto simp: counter_next_def slot_or_insert_def split: option.splits)

lemma checked_add_0_1: "checked_add (0 :: u64) 1 = Some 1"
  by (simp add: checked_add_def)

lemma counter_next_fails:
  "counter_next sid g = (r, g') \<Longrightarrow> \<not> is_ok r \<Longrightarrow>
   r = Err CounterOverflow \<and> g' = g \<and> g sid = Some (- 1)"
  by (auto simp: counter_next_def slot_or_insert_def checked_add_0_1 checked_add_1_None_iff
      split: option.splits)

interpretation seq_counter: counter_impl "\<lambda>e::unit. counter_next" "\<lambda>c. c" "\<lambda>c. True"
proof (unfold_locales, goal_cases)
  case (1 c e sid n c')
  then show ?case by (auto simp: counter_next_Ok dest: checked_add_1_gt)
next
  case (2 c e sid r c')
  then show ?case using counter_next_fails by simp
qed

lemma ts_next_cases:
  "tc_window_seconds c \<noteq> 0 \<Longrightarrow> ts_next now_t sid c =
    (let t = now_t div tc_window_seconds c in
     case tc_last_issued c sid of
       None \<Rightarrow> (Ok t, c \<lparr> tc_last_issued := (tc_last_issued c)(sid \<mapsto> t) \<rparr>)
     | Some l \<Rightarrow>
         if l < t then (Ok t, c \<lparr> tc_last_issued := (tc_last_issued c)(sid \<mapsto> t) \<rparr>)
         else if t = l then (Err (CounterCollision (tc_window_seconds c)), c)
         else (Err (CounterRollback l t), c))"
  by (simp add: ts_next_def div_oc_def Let_def)

interpretation ts_counter: counter_impl ts_next tc_last_issued "\<lambda>c. tc_window_seconds c \<noteq> 0"
proof (unfold_locales, goal_cases)
  case (1 c e sid n c')
  then show ?case by (auto simp: ts_next_cases Let_def split: option.splits if_splits)
next
  case (2 c e sid r c')
  then show ?case by (auto simp: ts_next_cases Let_def split: option.splits if_splits)
qed

section \<open>Properties\<close>

text \<open>
  Over any sequence of calls on any seed identifiers, started in any state, the values the
  sequential counter issues for one identifier strictly increase; a call that cannot increase
  fails with \<open>CounterOverflow\<close> and changes nothing.
\<close>
theorem seq_counter_never_repeats:
  "per_seed_increasing (issued (\<lambda>_. counter_next) calls g) \<and>
   (\<forall>(sid, n) \<in> set (issued (\<lambda>_. counter_next) calls g). \<forall>m. g sid = Some m \<longrightarrow> m < n) \<and>
   (g sid = Some (- 1) \<longrightarrow> counter_next sid g = (Err CounterOverflow, g))"
proof -
  have u: "issued (\<lambda>_. counter_next) cs g =
      issued (\<lambda>_. counter_next) (map (\<lambda>(e, sid). ((), sid)) cs) g" for cs :: "('a \<times> seed_id) list" and g
    by (induction cs arbitrary: g) (auto split: prod.splits outcome.splits)
  show ?thesis
    using seq_counter.issued_increasing [where c = g and calls = "map (\<lambda>(e, sid). ((), sid)) calls"] u [of calls g]
    by (simp add: counter_next_def slot_or_insert_def checked_add_1_None_iff [THEN iffD2])
qed

theorem seq_counter_never_repeats_witness:
  "let calls = [((), SeedId [65]), ((), SeedId [66]), ((), SeedId [65])] in
   issued (\<lambda>_. counter_next) calls counter_new = [(SeedId [65], 1), (SeedId [66], 1), (SeedId [65], 2)] \<and>
   per_seed_increasing (issued (\<lambda>_. counter_next) calls counter_new)"
proof -
  let ?calls = "[((), SeedId [65]), ((), SeedId [66]), ((), SeedId [65])]"
  have "per_seed_increasing (issued (\<lambda>_. counter_next) ?calls counter_new)"
    using seq_counter_never_repeats [of ?calls counter_new "SeedId [65]"] by blast
  moreover have "issued (\<lambda>_. counter_next) ?calls counter_new =
      [(SeedId [65], 1), (SeedId [66], 1), (SeedId [65], 2)]"
    by (simp add: counter_next_def slot_or_insert_def counter_new_def checked_add_def)
  ultimately show ?thesis by (simp add: Let_def)
qed

text \<open>
  With a window of \<open>w\<close> seconds, a call succeeds exactly when its window is later than the
  last one charged for this identifier: the same window is a collision, an earlier one a
  rollback, and over any run, whatever the clock does, the issued values strictly increase.
\<close>
theorem ts_counter_one_charge_per_window:
  assumes "tc_window_seconds c = w" and "w > 0" and "ts_next now_t sid c = (Ok t, c')"
  shows "t = now_t div w \<and>
    (case fst (ts_next later sid c') of
       Ok t' \<Rightarrow> t' = later div w \<and> t < t'
     | Err e \<Rightarrow> if later div w = t then e = CounterCollision w
                else later div w < t \<and> e = CounterRollback t (later div w)
     | Panic \<Rightarrow> False) \<and>
    per_seed_increasing (issued ts_next calls c)"
proof -
  have "tc_window_seconds c \<noteq> 0" using assms by auto
  from ts_counter.issued_increasing [OF this]
  have "per_seed_increasing (issued ts_next calls c)" by blast
  with assms show ?thesis
    by (auto simp: ts_next_cases Let_def split: option.splits if_splits)
qed

theorem ts_counter_one_charge_per_window_witness:
  "let c = \<lparr> tc_window_seconds = 30, tc_last_issued = Map.empty \<rparr>;
       c' = \<lparr> tc_window_seconds = 30, tc_last_issued = [SeedId [65] \<mapsto> 3] \<rparr> in
   fst (ts_next 119 (SeedId [65]) c') = Err (CounterCollision 30) \<and>
   per_seed_increasing (issued ts_next [(119, SeedId [65]), (60, SeedId [65])] c)"
proof -
  let ?c = "\<lparr> tc_window_seconds = 30, tc_last_issued = Map.empty \<rparr>"
  let ?c' = "\<lparr> tc_window_seconds = 30, tc_last_issued = [SeedId [65] \<mapsto> 3] \<rparr>"
  have 1: "ts_next 100 (SeedId [65]) ?c = (Ok 3, ?c')" by (simp add: ts_next_def div_oc_def)
  have 2: "fst (ts_next 119 (SeedId [65]) ?c') = Err (CounterCollision 30)"
    by (simp add: ts_next_def div_oc_def)
  from ts_counter_one_charge_per_window [OF _ _ 1, of 30 119 "[(119, SeedId [65]), (60, SeedId [65])]"] 2
  show ?thesis by simp
qed

lemma restore_last_issued_eq:
  "restore_last_issued sid a g = g(sid \<mapsto> max a (case g sid of Some v \<Rightarrow> v | None \<Rightarrow> 0))"
  by (auto simp: restore_last_issued_def slot_or_insert_def max_def fun_upd_idem word_gt_0
      split: option.splits)

lemma counter_next_Some:
  "g sid = Some v \<Longrightarrow>
   counter_next sid g = (if v = - 1 then (Err CounterOverflow, g) else (Ok (v + 1), g(sid \<mapsto> v + 1)))"
  using checked_add_1_None_iff [of v]
  by (auto simp: counter_next_def slot_or_insert_def checked_add_def split: option.splits if_splits)

text \<open>
  Restoring the last issued value never moves a counter back, several restorations keep
  the largest value, and the next charge after a restoration is issued above it.
\<close>
theorem restore_never_goes_back:
  "restore_last_issued sid a (restore_last_issued sid b g) = restore_last_issued sid (max a b) g \<and>
   (\<forall>m. g sid = Some m \<longrightarrow> (\<exists>m'. restore_last_issued sid a g sid = Some m' \<and> m \<le> m')) \<and>
   (\<forall>n. fst (counter_next sid (restore_last_issued sid a g)) = Ok n \<longrightarrow> a < n) \<and>
   (g sid = None \<longrightarrow> a \<noteq> - 1 \<longrightarrow> fst (counter_next sid (restore_last_issued sid a g)) = Ok (a + 1))"
proof (intro conjI allI impI)
  note r = restore_last_issued_eq
  show "restore_last_issued sid a (restore_last_issued sid b g) = restore_last_issued sid (max a b) g"
    by (simp add: r max.assoc)
  show "\<exists>m'. restore_last_issued sid a g sid = Some m' \<and> m \<le> m'" if "g sid = Some m" for m
    using that by (simp add: r)
  show "a < n" if "fst (counter_next sid (restore_last_issued sid a g)) = Ok n" for n
  proof -
    have "checked_add (max a (case g sid of Some v \<Rightarrow> v | None \<Rightarrow> 0)) 1 = Some n"
      using that counter_next_Ok [of sid "restore_last_issued sid a g" n]
      by (cases "counter_next sid (restore_last_issued sid a g)") (auto simp: r)
    then show ?thesis using checked_add_1_gt by fastforce
  qed
  show "fst (counter_next sid (restore_last_issued sid a g)) = Ok (a + 1)"
    if "g sid = None" "a \<noteq> - 1"
  proof -
    have "checked_add a 1 \<noteq> None" using that by (simp add: checked_add_1_None_iff)
    then have "checked_add a 1 = Some (a + 1)" by (auto simp: checked_add_def split: if_splits)
    with that show ?thesis by (simp add: counter_next_def slot_or_insert_def r)
  qed
qed

theorem restore_never_goes_back_witness:
  "let g = [SeedId [65] \<mapsto> 9] in
   restore_last_issued (SeedId [65]) 5 (restore_last_issued (SeedId [65]) 7 g) =
     restore_last_issued (SeedId [65]) 7 g \<and>
   (\<exists>m'. restore_last_issued (SeedId [65]) 5 g (SeedId [65]) = Some m' \<and> 9 \<le> m') \<and>
   fst (counter_next (SeedId [66]) (restore_last_issued (SeedId [66]) 41 g)) = Ok 42"
  using restore_never_goes_back [of "SeedId [65]" 5 7 "[SeedId [65] \<mapsto> 9]"]
    restore_never_goes_back [of "SeedId [66]" 41 0 "[SeedId [65] \<mapsto> 9]"]
  by (simp add: max_def Let_def)

end
