(* ===== verification/ReceiverSdk.thy ===== *)
theory ReceiverSdk
  imports SeedStores Counters
begin

text \<open>
  \<^verbatim>\<open>mcpix-receiver-sdk/src/lib.rs\<close> and \<^verbatim>\<open>system_random.rs\<close>: the facade of the receiver, generic in
  its store, its counter and its source of random bytes, as the trait objects it holds.

  Each operation takes the environments of the trait calls it makes, in their order, and the
  state of the store and of the counter.
\<close>

record ('es, 'st, 'ec, 'ct, 'er) receiver_sdk =
  sdk_store :: "('es, 'st) seed_store_ops"
  sdk_counter :: "('ec, 'ct) counter_next"
  sdk_rng :: "'er \<Rightarrow> nat \<Rightarrow> bytes mcpix"

definition sdk_new ::
  "('es, 'st) seed_store_ops \<Rightarrow> ('ec, 'ct) counter_next \<Rightarrow> ('er \<Rightarrow> nat \<Rightarrow> bytes mcpix) \<Rightarrow>
   ('es, 'st, 'ec, 'ct, 'er) receiver_sdk" where
  "sdk_new store counter rng = \<lparr> sdk_store = store, sdk_counter = counter, sdk_rng = rng \<rparr>"

record ('st, 'ct) sdk_state =
  store_st :: 'st
  counter_st :: 'ct

record registration_proof =
  rp_seed_id :: seed_id

definition on_store ::
  "('st \<Rightarrow> 'a \<times> 'st) \<Rightarrow> ('st, 'ct) sdk_state \<Rightarrow> 'a \<times> ('st, 'ct) sdk_state" where
  "on_store f st = (let (r, s) = f (store_st st) in (r, st \<lparr> store_st := s \<rparr>))"

definition on_counter ::
  "('ct \<Rightarrow> 'a \<times> 'ct) \<Rightarrow> ('st, 'ct) sdk_state \<Rightarrow> 'a \<times> ('st, 'ct) sdk_state" where
  "on_counter f st = (let (r, c) = f (counter_st st) in (r, st \<lparr> counter_st := c \<rparr>))"

section \<open>Operations\<close>

text \<open>
  \<^verbatim>\<open>OsRandom::fill\<close>: the operating system delivers a stream of bytes or an error message.
\<close>

definition os_random_fill :: "bytes + (nat \<Rightarrow> byte) \<Rightarrow> nat \<Rightarrow> bytes mcpix" where
  "os_random_fill os n =
     (case os of
        Inl m \<Rightarrow> Err (Storage (ascii ''rng failure: '' @ m))
      | Inr stream \<Rightarrow> Ok (map stream [0 ..< n]))"

definition register ::
  "('es, 'st, 'ec, 'ct, 'er) receiver_sdk \<Rightarrow> 'er \<times> 'es \<Rightarrow> seed_id \<Rightarrow> ('st, 'ct) sdk_state \<Rightarrow>
   registration_proof mcpix \<times> ('st, 'ct) sdk_state" where
  "register sdk = (\<lambda>(er, es) sid st.
     st_then (sdk_rng sdk er SEED_LEN, st) (\<lambda>bs st.
     st_then (on_store (put_seed (sdk_store sdk) es sid (seed_from_bytes bs)) st) (\<lambda>_ st.
     (Ok \<lparr> rp_seed_id = sid \<rparr>, st))))"

definition generate_charge ::
  "crypto_lib \<Rightarrow> ('es, 'st, 'ec, 'ct, 'er) receiver_sdk \<Rightarrow> 'es \<times> 'ec \<times> 'es \<Rightarrow> seed_id \<Rightarrow> u64 \<Rightarrow>
   ('st, 'ct) sdk_state \<Rightarrow> charge mcpix \<times> ('st, 'ct) sdk_state" where
  "generate_charge L sdk = (\<lambda>(e1, ec, e2) sid amount st.
     st_then (and_then (get_seed (sdk_store sdk) e1 sid (store_st st)) (ok_or UnknownSeed), st)
       (\<lambda>seed st.
     st_then (on_counter (sdk_counter sdk ec sid) st) (\<lambda>counter st.
     st_then (apply_generate_charge L seed
               \<lparr> gc_seed_id = sid, gc_counter = counter, gc_amount_cents = amount \<rparr>, st)
       (\<lambda>out st.
     st_then (on_store (save_receipt (sdk_store sdk) e2 (co_retained out)) st) (\<lambda>_ st.
     (Ok (co_charge out), st))))))"

text \<open>
  Validation reads the receipt, decides, and marks the receipt when the verdict is \<open>Valid\<close>: two
  separate accesses to the store, which \<open>validate_read\<close> and \<open>validate_mark\<close> are.
\<close>

definition validate_read ::
  "crypto_lib \<Rightarrow> ('es, 'st, 'ec, 'ct, 'er) receiver_sdk \<Rightarrow> 'es \<Rightarrow> seed_id \<Rightarrow> u64 \<Rightarrow> bytes \<Rightarrow>
   'st \<Rightarrow> validation_outcome mcpix" where
  "validate_read L sdk e sid counter presented_c2 s =
     and_then (c2_parse presented_c2) (\<lambda>presented.
     and_then (and_then (get_receipt (sdk_store sdk) e sid counter s) (ok_or NoRetainedReceipt))
       (\<lambda>retained.
     Ok (apply_validate_receipt L retained presented)))"

definition validate_mark ::
  "('es, 'st, 'ec, 'ct, 'er) receiver_sdk \<Rightarrow> 'es \<Rightarrow> seed_id \<Rightarrow> u64 \<Rightarrow> validation_outcome \<Rightarrow>
   'st \<Rightarrow> validation_outcome mcpix \<times> 'st" where
  "validate_mark sdk e sid counter out s =
     (if out = Valid
      then st_then (mark_consumed (sdk_store sdk) e sid counter s) (\<lambda>_ s. (Ok out, s))
      else (Ok out, s))"

definition validate_receipt ::
  "crypto_lib \<Rightarrow> ('es, 'st, 'ec, 'ct, 'er) receiver_sdk \<Rightarrow> 'es \<times> 'es \<Rightarrow> seed_id \<Rightarrow> u64 \<Rightarrow> bytes \<Rightarrow>
   ('st, 'ct) sdk_state \<Rightarrow> validation_outcome mcpix \<times> ('st, 'ct) sdk_state" where
  "validate_receipt L sdk = (\<lambda>(e1, e2) sid counter presented_c2 st.
     st_then (validate_read L sdk e1 sid counter presented_c2 (store_st st), st) (\<lambda>out st.
     on_store (validate_mark sdk e2 sid counter out) st))"

definition peek_retained ::
  "('es, 'st, 'ec, 'ct, 'er) receiver_sdk \<Rightarrow> 'es \<Rightarrow> seed_id \<Rightarrow> u64 \<Rightarrow> ('st, 'ct) sdk_state \<Rightarrow>
   receipt option mcpix" where
  "peek_retained sdk e sid counter st = get_receipt (sdk_store sdk) e sid counter (store_st st)"

section \<open>Runs\<close>

text \<open>
  A client makes calls one after the other; a run records the charges it is given and the
  presentations it is told are valid.
\<close>

datatype ('es, 'ec, 'er) sdk_call =
    Register "'er \<times> 'es" seed_id
  | Generate "'es \<times> 'ec \<times> 'es" seed_id u64
  | Validate "'es \<times> 'es" seed_id u64 bytes

datatype sdk_event = Charged seed_id u64 | Accepted seed_id u64

fun call_seed_id :: "('es, 'ec, 'er) sdk_call \<Rightarrow> seed_id" where
  "call_seed_id (Register e sid) = sid"
| "call_seed_id (Generate e sid amount) = sid"
| "call_seed_id (Validate e sid counter code) = sid"

fun sdk_step ::
  "crypto_lib \<Rightarrow> ('es, 'st, 'ec, 'ct, 'er) receiver_sdk \<Rightarrow> ('es, 'ec, 'er) sdk_call \<Rightarrow>
   ('st, 'ct) sdk_state \<Rightarrow> sdk_event list \<times> ('st, 'ct) sdk_state" where
  "sdk_step L sdk (Register e sid) st = ([], snd (register sdk e sid st))"
| "sdk_step L sdk (Generate e sid amount) st =
     (case generate_charge L sdk e sid amount st of
        (Ok c, st') \<Rightarrow> ([Charged (ch_seed_id c) (ch_counter c)], st')
      | (_, st') \<Rightarrow> ([], st'))"
| "sdk_step L sdk (Validate e sid counter code) st =
     (case validate_receipt L sdk e sid counter code st of
        (Ok Valid, st') \<Rightarrow> ([Accepted sid counter], st')
      | (_, st') \<Rightarrow> ([], st'))"

fun sdk_run ::
  "crypto_lib \<Rightarrow> ('es, 'st, 'ec, 'ct, 'er) receiver_sdk \<Rightarrow> ('es, 'ec, 'er) sdk_call list \<Rightarrow>
   ('st, 'ct) sdk_state \<Rightarrow> sdk_event list \<times> ('st, 'ct) sdk_state" where
  "sdk_run L sdk [] st = ([], st)"
| "sdk_run L sdk (call # calls) st =
     (let (ev, st1) = sdk_step L sdk call st; (evs, st2) = sdk_run L sdk calls st1
      in (ev @ evs, st2))"

fun charged :: "sdk_event list \<Rightarrow> (seed_id \<times> u64) list" where
  "charged [] = []"
| "charged (Charged sid t # evs) = (sid, t) # charged evs"
| "charged (Accepted sid t # evs) = charged evs"

fun accepted :: "sdk_event list \<Rightarrow> (seed_id \<times> u64) list" where
  "accepted [] = []"
| "accepted (Charged sid t # evs) = accepted evs"
| "accepted (Accepted sid t # evs) = (sid, t) # accepted evs"

lemma charged_append [simp]: "charged (xs @ ys) = charged xs @ charged ys"
  by (induction xs rule: charged.induct) auto

lemma accepted_append [simp]: "accepted (xs @ ys) = accepted xs @ accepted ys"
  by (induction xs rule: accepted.induct) auto

section \<open>The contract of the random source\<close>

text \<open>\<^verbatim>\<open>fill\<close> writes the buffer it is given, so a success has as many bytes as were asked for.\<close>

locale secure_random =
  fixes fill :: "'er \<Rightarrow> nat \<Rightarrow> bytes mcpix"
  assumes fill_length: "fill e n = Ok bs \<Longrightarrow> length bs = n"
begin

lemma fill_seed_wf: "fill e SEED_LEN = Ok bs \<Longrightarrow> seed_wf (seed_from_bytes bs)"
  using fill_length by (simp add: seed_wf_def seed_from_bytes_def SEED_LEN_def)

end

interpretation os_random: secure_random os_random_fill
  by unfold_locales (auto simp: os_random_fill_def split: sum.splits)

section \<open>The receiver over any store and any counter\<close>

text \<open>
  The invariant that ties the two together: no receipt is retained for a counter above the last
  one issued to its seed identifier.
\<close>

definition receipts_bounded :: "mem_store \<Rightarrow> (seed_id \<rightharpoonup> u64) \<Rightarrow> bool" where
  "receipts_bounded m last_issued \<longleftrightarrow>
     (\<forall>sid t r. ms_receipts m (sid, t) = Some r \<longrightarrow> (\<exists>l. last_issued sid = Some l \<and> t \<le> l))"

definition consumed_keys :: "mem_store \<Rightarrow> (seed_id \<times> u64) set" where
  "consumed_keys m = {k. \<exists>r. ms_receipts m k = Some r \<and> rr_consumed r}"

lemma receipts_bounded_issue:
  "receipts_bounded m l \<Longrightarrow> (\<forall>x. l sid = Some x \<longrightarrow> x < n) \<Longrightarrow> receipts_bounded m (l(sid \<mapsto> n))"
  by (fastforce simp: receipts_bounded_def)

lemma receipts_bounded_fresh:
  "receipts_bounded m l \<Longrightarrow> (\<forall>x. l sid = Some x \<longrightarrow> x < n) \<Longrightarrow> ms_receipts m (sid, n) = None"
  by (cases "ms_receipts m (sid, n)") (fastforce simp: receipts_bounded_def)+

lemma receipts_bounded_save:
  "receipts_bounded m l \<Longrightarrow> l (rr_seed_id q) = Some n \<Longrightarrow> rr_counter q \<le> n \<Longrightarrow>
   receipts_bounded (snd (mem_save_receipt q m)) l"
  by (auto simp: receipts_bounded_def mem_save_receipt_def Let_def)

lemma receipts_bounded_mark:
  "receipts_bounded m l \<Longrightarrow> receipts_bounded (snd (mem_mark_consumed sid t m)) l"
  by (auto simp: receipts_bounded_def mem_mark_consumed_def split: option.splits)

lemma receipts_bounded_put [simp]:
  "receipts_bounded (snd (mem_put_seed sid s m)) l = receipts_bounded m l"
  by (simp add: receipts_bounded_def mem_put_seed_def)

lemma consumed_keys_simps:
  "consumed_keys (snd (mem_put_seed sid s m)) = consumed_keys m"
  "ms_receipts m (rr_seed_id q, rr_counter q) = None \<Longrightarrow> \<not> rr_consumed q \<Longrightarrow>
     consumed_keys (snd (mem_save_receipt q m)) = consumed_keys m"
  "ms_receipts m (sid, t) = Some q \<Longrightarrow>
     consumed_keys (snd (mem_mark_consumed sid t m)) = insert (sid, t) (consumed_keys m)"
  by (auto simp: consumed_keys_def mem_defs Let_def)

text \<open>What a list of events says of the receipts before and after it.\<close>

definition receipts_effect :: "mem_store \<Rightarrow> sdk_event list \<Rightarrow> mem_store \<Rightarrow> bool" where
  "receipts_effect m evs m' \<longleftrightarrow>
     distinct (charged evs) \<and> distinct (accepted evs) \<and>
     set (charged evs) \<inter> dom (ms_receipts m) = {} \<and>
     dom (ms_receipts m') = dom (ms_receipts m) \<union> set (charged evs) \<and>
     set (accepted evs) \<subseteq> dom (ms_receipts m') - consumed_keys m \<and>
     consumed_keys m' = consumed_keys m \<union> set (accepted evs)"

lemma receipts_effect_Nil [simp]: "receipts_effect m [] m"
  by (simp add: receipts_effect_def)

lemma receipts_effect_append:
  assumes 1: "receipts_effect m xs m1" and 2: "receipts_effect m1 ys m2"
  shows "receipts_effect m (xs @ ys) m2"
proof -
  define d d1 d2 where "d = dom (ms_receipts m)" and "d1 = dom (ms_receipts m1)"
    and "d2 = dom (ms_receipts m2)"
  define k k1 k2 where "k = consumed_keys m" and "k1 = consumed_keys m1" and "k2 = consumed_keys m2"
  note defs = d_def d1_def d2_def k_def k1_def k2_def
  have a: "set (charged xs) \<inter> d = {}" "d1 = d \<union> set (charged xs)"
    "set (accepted xs) \<subseteq> d1 - k" "k1 = k \<union> set (accepted xs)"
    using 1 unfolding receipts_effect_def defs by blast+
  have b: "set (charged ys) \<inter> d1 = {}" "d2 = d1 \<union> set (charged ys)"
    "set (accepted ys) \<subseteq> d2 - k1" "k2 = k1 \<union> set (accepted ys)"
    using 2 unfolding receipts_effect_def defs by blast+
  have "set (charged (xs @ ys)) \<inter> d = {}" "d2 = d \<union> set (charged (xs @ ys))"
    "set (accepted (xs @ ys)) \<subseteq> d2 - k" "k2 = k \<union> set (accepted (xs @ ys))"
    using a b by auto
  moreover have "distinct (charged (xs @ ys))" "distinct (accepted (xs @ ys))"
    using assms a b unfolding receipts_effect_def by auto
  ultimately show ?thesis unfolding receipts_effect_def defs by blast
qed

locale receiver =
  store: seed_store "sdk_store sdk" view sinv +
  counter: counter_impl "sdk_counter sdk" last_issued cinv +
  random: secure_random "sdk_rng sdk"
  for sdk :: "('es, 'st, 'ec, 'ct, 'er) receiver_sdk"
    and view :: "'st \<Rightarrow> mem_store" and sinv :: "'st \<Rightarrow> bool"
    and last_issued :: "'ct \<Rightarrow> seed_id \<rightharpoonup> u64" and cinv :: "'ct \<Rightarrow> bool" +
  fixes V :: "('st, 'ct) sdk_state \<Rightarrow> mem_store"
    and I :: "('st, 'ct) sdk_state \<Rightarrow> bool"
  assumes V_def: "V st = view (store_st st)"
    and I_def: "I st \<longleftrightarrow> sinv (store_st st) \<and> cinv (counter_st st) \<and>
      receipts_bounded (view (store_st st)) (last_issued (counter_st st))"
begin

lemma on_counter_issue:
  assumes "I st" and "on_counter (sdk_counter sdk e sid) st = (r, st')"
  shows "I st' \<and> V st' = V st \<and> (case r of
      Ok n \<Rightarrow> ms_receipts (V st) (sid, n) = None \<and>
        last_issued (counter_st st') = (last_issued (counter_st st))(sid \<mapsto> n) \<and>
        (\<forall>m. last_issued (counter_st st) sid = Some m \<longrightarrow> m < n)
    | _ \<Rightarrow> last_issued (counter_st st') = last_issued (counter_st st))"
proof -
  obtain c' where c: "sdk_counter sdk e sid (counter_st st) = (r, c')"
    and st': "st' = st \<lparr> counter_st := c' \<rparr>"
    using assms(2) by (auto simp: on_counter_def split: prod.splits)
  from assms(1) have inv: "cinv (counter_st st)" by (simp add: I_def)
  show ?thesis
  proof (cases "is_ok r")
    case True
    then obtain n where r: "r = Ok n" by (auto simp: is_ok_iff)
    from counter.next_Ok [OF inv c [unfolded r]] assms(1) st' r show ?thesis
      by (auto simp: I_def V_def receipts_bounded_issue intro: receipts_bounded_fresh)
  next
    case False
    from counter.next_fails [OF inv c False] assms(1) st' False show ?thesis
      by (auto simp: I_def V_def split: outcome.splits)
  qed
qed

lemma on_store_counter: "on_store f st = (r, st') \<Longrightarrow> counter_st st' = counter_st st"
  by (auto simp: on_store_def split: prod.splits)

lemma on_store_put:
  assumes "I st" "seed_id_wf sid" "seed_wf s"
    and "on_store (put_seed (sdk_store sdk) e sid s) st = (r, st')"
  shows "I st' \<and> (if r = Ok () then V st' = snd (mem_put_seed sid s (V st)) else V st' = V st)"
  using assms store.put_seed_law [of "store_st st" sid s e r "store_st st'"]
  by (auto simp: on_store_def I_def V_def split: prod.splits if_splits)

lemma on_store_save:
  assumes "I st" "receipt_wf q" "last_issued (counter_st st) (rr_seed_id q) = Some n" "rr_counter q \<le> n"
    and "on_store (save_receipt (sdk_store sdk) e q) st = (r, st')"
  shows "I st' \<and> (if r = Ok () then V st' = snd (mem_save_receipt q (V st)) else V st' = V st)"
  using assms store.save_receipt_law [of "store_st st" q e r "store_st st'"]
  by (auto simp: on_store_def I_def V_def split: prod.splits if_splits intro: receipts_bounded_save)

lemma register_effect:
  assumes "I st" "seed_id_wf sid" "register sdk e sid st = (r, st')"
  shows "I st' \<and> (case r of
      Ok p \<Rightarrow> rp_seed_id p = sid \<and> (\<exists>s. seed_wf s \<and> V st' = snd (mem_put_seed sid s (V st)))
    | _ \<Rightarrow> V st' = V st)"
proof -
  obtain er es where e: "e = (er, es)" by (cases e)
  show ?thesis
  proof (cases "sdk_rng sdk er SEED_LEN")
    case (Ok bs)
    obtain r1 st1 where put: "on_store (put_seed (sdk_store sdk) es sid (seed_from_bytes bs)) st =
        (r1, st1)" by force
    from on_store_put [OF assms(1,2) random.fill_seed_wf [OF Ok] put] random.fill_seed_wf [OF Ok]
    show ?thesis using assms(3) Ok e put
      by (cases r1) (auto simp: register_def)
  qed (use assms(1,3) e in \<open>auto simp: register_def\<close>)
qed

lemma generate_effect:
  assumes L: "crypto_ok L" and I: "I st" and sid: "seed_id_wf sid"
    and g: "generate_charge L sdk e sid amount st = (r, st')"
  shows "I st' \<and> (case r of
      Ok c \<Rightarrow> \<exists>s n. ms_seeds (V st) sid = Some s \<and> c = charge_spec L s sid n amount \<and>
        ms_receipts (V st) (sid, n) = None \<and>
        V st' = snd (mem_save_receipt (receipt_spec L s sid n amount) (V st))
    | _ \<Rightarrow> V st' = V st)"
proof -
  obtain e1 ec e2 where e: "e = (e1, ec, e2)" by (metis surj_pair)
  show ?thesis
  proof (cases "and_then (get_seed (sdk_store sdk) e1 sid (store_st st)) (ok_or UnknownSeed)")
    case (Ok s)
    then have get: "get_seed (sdk_store sdk) e1 sid (store_st st) = Ok (Some s)"
      by (auto simp: outcome_simps)
    then have s: "ms_seeds (V st) sid = Some s"
      using store.get_seed_law [OF _ sid get] I by (simp add: I_def V_def)
    obtain r1 st1 where cnt: "on_counter (sdk_counter sdk ec sid) st = (r1, st1)" by force
    note iss = on_counter_issue [OF I cnt]
    show ?thesis
    proof (cases r1)
      case (Ok n)
      let ?q = "receipt_spec L s sid n amount"
      obtain r2 st2 where save: "on_store (save_receipt (sdk_store sdk) e2 ?q) st1 = (r2, st2)"
        by force
      have "last_issued (counter_st st1) (rr_seed_id ?q) = Some n" "rr_counter ?q \<le> n"
        using iss Ok by simp_all
      from on_store_save [OF _ receipt_spec_wf [OF sid] this save] iss
      have eff: "I st2 \<and> (if r2 = Ok () then V st2 = snd (mem_save_receipt ?q (V st1))
          else V st2 = V st1)" by blast
      have app: "apply_generate_charge L s
          \<lparr> gc_seed_id = sid, gc_counter = n, gc_amount_cents = amount \<rparr> =
          (Ok \<lparr> co_charge = charge_spec L s sid n amount, co_retained = ?q \<rparr> :: charge_outcome mcpix)"
        by (simp add: apply_generate_charge_eq [OF L] sid)
      have "(r, st') = st_then (r2, st2) (\<lambda>_ st. (Ok (charge_spec L s sid n amount), st))"
        using g unfolding e generate_charge_def by (simp add: get cnt Ok app save)
      with eff iss Ok s show ?thesis by (cases r2) auto
    qed (use g get cnt iss e in \<open>auto simp: generate_charge_def\<close>)
  qed (use I g e in \<open>auto simp: generate_charge_def\<close>)
qed

lemma validate_effect:
  assumes L: "crypto_ok L" and I: "I st" and sid: "seed_id_wf sid"
    and v: "validate_receipt L sdk e sid t code st = (r, st')"
  shows "I st' \<and> (case r of
      Ok out \<Rightarrow> \<exists>q. ms_receipts (V st) (sid, t) = Some q \<and> length code = 11 \<and>
        (case out of
           Valid \<Rightarrow> \<not> rr_consumed q \<and> code = c2_chars (rr_expected_c2 q) \<and>
             V st' = snd (mem_mark_consumed sid t (V st))
         | MismatchOutcome \<Rightarrow> \<not> rr_consumed q \<and> code \<noteq> c2_chars (rr_expected_c2 q) \<and> V st' = V st
         | Replay \<Rightarrow> rr_consumed q \<and> V st' = V st)
    | _ \<Rightarrow> V st' = V st)"
proof -
  obtain e1 e2 where e: "e = (e1, e2)" by (cases e)
  show ?thesis
  proof (cases "validate_read L sdk e1 sid t code (store_st st)")
    case (Ok out)
    then obtain q where get: "get_receipt (sdk_store sdk) e1 sid t (store_st st) = Ok (Some q)"
      and c2: "c2_wf (C2 code)" and out: "out = apply_validate_receipt L q (C2 code)"
      by (auto simp: validate_read_def outcome_simps)
    have q: "ms_receipts (V st) (sid, t) = Some q"
      using store.get_receipt_law [OF _ sid get] I by (simp add: I_def V_def)
    have len: "length code = 11" using c2 by (simp add: c2_wf_def)
    have code: "C2 code = rr_expected_c2 q \<longleftrightarrow> code = c2_chars (rr_expected_c2 q)"
      by (cases "rr_expected_c2 q") simp
    show ?thesis
    proof (cases "out = Valid")
      case True
      obtain r1 s1 where mark: "mark_consumed (sdk_store sdk) e2 sid t (store_st st) = (r1, s1)"
        by force
      have m: "sinv s1 \<and> (if r1 = Ok () then view s1 = snd (mem_mark_consumed sid t (V st))
          else view s1 = V st)"
        using store.mark_consumed_law [OF _ sid mark] I by (auto simp: I_def V_def split: if_splits)
      have res: "(r, st') = (let (r, s) = st_then (r1, s1) (\<lambda>_ s. (Ok out, s))
          in (r, st \<lparr> store_st := s \<rparr>))"
        using v e Ok mark True
        by (simp add: validate_receipt_def validate_mark_def on_store_def)
      have "\<not> rr_consumed q \<and> code = c2_chars (rr_expected_c2 q)"
        using True out code apply_validate_receipt_simps(1) [OF L] by metis
      with res m q I len True show ?thesis
        by (cases r1) (auto simp: I_def V_def receipts_bounded_mark)
    next
      case False
      then have "r = Ok out" "st' = st"
        using v e Ok by (auto simp: validate_receipt_def validate_mark_def on_store_def)
      with False out q len I code apply_validate_receipt_simps [of L q "C2 code"] L
      show ?thesis by (cases out) auto
    qed
  next
    case (Err x)
    then have "r = Err x" "st' = st" using v e by (auto simp: validate_receipt_def)
    with I show ?thesis by simp
  next
    case Panic
    then have "r = Panic" "st' = st" using v e by (auto simp: validate_receipt_def)
    with I show ?thesis by simp
  qed
qed

text \<open>What one call, and then a run of calls, does to the receipts.\<close>

lemma step_effect:
  assumes L: "crypto_ok L" and I: "I st" and sid: "seed_id_wf (call_seed_id call)"
    and step: "sdk_step L sdk call st = (ev, st')"
  shows "I st' \<and> receipts_effect (V st) ev (V st')"
proof (cases call)
  case (Register e i)
  obtain r st1 where r: "register sdk e i st = (r, st1)" by force
  from register_effect [OF I _ r] sid Register step r show ?thesis
    by (cases r) (auto simp: receipts_effect_def mem_put_seed_def consumed_keys_def)
next
  case (Generate e i a)
  obtain r st1 where r: "generate_charge L sdk e i a st = (r, st1)" by force
  from sid Generate have wf: "seed_id_wf i" by simp
  note eff = generate_effect [OF L I wf r]
  show ?thesis
  proof (cases r)
    case (Ok c)
    with eff obtain s n where c: "c = charge_spec L s i n a"
      and none: "ms_receipts (V st) (i, n) = None"
      and V: "V st1 = snd (mem_save_receipt (receipt_spec L s i n a) (V st))" and I1: "I st1"
      by auto
    have ev: "ev = [Charged i n]" "st' = st1" using Generate step r Ok c by auto
    have "dom (ms_receipts (V st1)) = insert (i, n) (dom (ms_receipts (V st)))"
      by (simp add: V mem_save_receipt_def Let_def)
    moreover have "consumed_keys (V st1) = consumed_keys (V st)"
      unfolding V by (rule consumed_keys_simps(2)) (simp_all add: none)
    ultimately show ?thesis using ev none I1 by (auto simp: receipts_effect_def)
  qed (use eff Generate step r in auto)
next
  case (Validate e i t code)
  obtain r st1 where r: "validate_receipt L sdk e i t code st = (r, st1)" by force
  from sid Validate have wf: "seed_id_wf i" by simp
  note eff = validate_effect [OF L I wf r]
  show ?thesis
  proof (cases "r = Ok Valid")
    case True
    with eff obtain q where q: "ms_receipts (V st) (i, t) = Some q" "\<not> rr_consumed q"
      and V: "V st1 = snd (mem_mark_consumed i t (V st))" and I1: "I st1"
      by auto
    have ev: "ev = [Accepted i t]" "st' = st1" using Validate step r True by auto
    have "dom (ms_receipts (V st1)) = dom (ms_receipts (V st))"
      using q(1) by (auto simp: V mem_mark_consumed_def)
    moreover have "(i, t) \<notin> consumed_keys (V st)" using q by (simp add: consumed_keys_def)
    ultimately show ?thesis
      using ev q(1) I1 by (auto simp: receipts_effect_def V consumed_keys_simps(3))
  next
    case False
    have "I st1 \<and> V st1 = V st"
    proof (cases r)
      case (Ok out)
      with eff False show ?thesis by (cases out) auto
    qed (use eff in auto)
    moreover have "ev = []" "st' = st1" using Validate step r False
      by (auto split: outcome.splits validation_outcome.splits)
    ultimately show ?thesis by simp
  qed
qed

lemma run_effect:
  assumes L: "crypto_ok L" and I: "I st" and wf: "\<forall>call \<in> set calls. seed_id_wf (call_seed_id call)"
    and run: "sdk_run L sdk calls st = (evs, st')"
  shows "I st' \<and> receipts_effect (V st) evs (V st')"
  using I wf run
proof (induction calls arbitrary: st evs)
  case Nil
  then show ?case by simp
next
  case (Cons call calls)
  obtain ev st1 where s1: "sdk_step L sdk call st = (ev, st1)" by force
  obtain evs2 st2 where s2: "sdk_run L sdk calls st1 = (evs2, st2)" by force
  have wf: "seed_id_wf (call_seed_id call)" "\<forall>c \<in> set calls. seed_id_wf (call_seed_id c)"
    using Cons.prems(2) by auto
  note step = step_effect [OF L Cons.prems(1) wf(1) s1]
  have "evs = ev @ evs2" "st2 = st'" using Cons.prems(3) s1 s2 by auto
  with step Cons.IH [OF _ wf(2)] s2 show ?case using receipts_effect_append by blast
qed

end

section \<open>Two configurations\<close>

text \<open>The in-memory store with the sequential counter, and with the timestamp counter.\<close>

definition default_sdk ::
  "(unit, mem_store, unit, mem_counter, bytes + (nat \<Rightarrow> byte)) receiver_sdk" where
  "default_sdk = sdk_new mem_store_ops (\<lambda>_. counter_next) os_random_fill"

definition quantized_sdk ::
  "(unit, mem_store, u64, ts_counter, bytes + (nat \<Rightarrow> byte)) receiver_sdk" where
  "quantized_sdk = sdk_new mem_store_ops ts_next os_random_fill"

definition default_inv :: "(mem_store, mem_counter) sdk_state \<Rightarrow> bool" where
  "default_inv st \<longleftrightarrow> store_view_wf (store_st st) \<and> True \<and>
     receipts_bounded (store_st st) (counter_st st)"

definition quantized_inv :: "(mem_store, ts_counter) sdk_state \<Rightarrow> bool" where
  "quantized_inv st \<longleftrightarrow> store_view_wf (store_st st) \<and> tc_window_seconds (counter_st st) \<noteq> 0 \<and>
     receipts_bounded (store_st st) (tc_last_issued (counter_st st))"

lemma default_sdk_fields [simp]:
  "sdk_store default_sdk = mem_store_ops"
  "sdk_counter default_sdk = (\<lambda>_. counter_next)"
  "sdk_rng default_sdk = os_random_fill"
  by (simp_all add: default_sdk_def sdk_new_def)

lemma quantized_sdk_fields [simp]:
  "sdk_store quantized_sdk = mem_store_ops"
  "sdk_counter quantized_sdk = ts_next"
  "sdk_rng quantized_sdk = os_random_fill"
  by (simp_all add: quantized_sdk_def sdk_new_def)

interpretation default_rx: receiver default_sdk "\<lambda>s. s" store_view_wf "\<lambda>c. c" "\<lambda>_. True"
  store_st default_inv
proof (intro receiver.intro receiver_axioms.intro)
  show "seed_store (sdk_store default_sdk) (\<lambda>s. s) store_view_wf"
    using mem.seed_store_axioms by simp
  show "counter_impl (sdk_counter default_sdk) (\<lambda>c. c) (\<lambda>_. True)"
    using seq_counter.counter_impl_axioms by simp
  show "secure_random (sdk_rng default_sdk)"
    using os_random.secure_random_axioms by simp
qed (simp_all add: default_inv_def)

interpretation quantized_rx: receiver quantized_sdk "\<lambda>s. s" store_view_wf tc_last_issued
  "\<lambda>c. tc_window_seconds c \<noteq> 0" store_st quantized_inv
proof (intro receiver.intro receiver_axioms.intro)
  show "seed_store (sdk_store quantized_sdk) (\<lambda>s. s) store_view_wf"
    using mem.seed_store_axioms by simp
  show "counter_impl (sdk_counter quantized_sdk) tc_last_issued (\<lambda>c. tc_window_seconds c \<noteq> 0)"
    using ts_counter.counter_impl_axioms by simp
  show "secure_random (sdk_rng quantized_sdk)"
    using os_random.secure_random_axioms by simp
qed (simp_all add: quantized_inv_def)

definition default_init :: "(mem_store, mem_counter) sdk_state" where
  "default_init = \<lparr> store_st = mem_store_new, counter_st = counter_new \<rparr>"

definition quantized_init :: "u64 \<Rightarrow> (mem_store, ts_counter) sdk_state" where
  "quantized_init w = \<lparr> store_st = mem_store_new,
     counter_st = \<lparr> tc_window_seconds = w, tc_last_issued = Map.empty \<rparr> \<rparr>"

lemma default_init_inv: "default_inv default_init"
  by (simp add: default_inv_def default_init_def receipts_bounded_def mem_store_new_def
      store_view_wf_def)

lemma quantized_init_inv: "w \<noteq> 0 \<Longrightarrow> quantized_inv (quantized_init w)"
  by (simp add: quantized_inv_def quantized_init_def receipts_bounded_def mem_store_new_def
      store_view_wf_def)

section \<open>Concurrent validation\<close>

text \<open>
  The receiver is shared between threads, and each access to the store is atomic on its own.
  Thread \<open>i\<close> presents \<open>code i\<close> for one charge; its validation is the two steps
  \<open>validate_read\<close> and \<open>validate_mark\<close>, between which other threads may run.
\<close>

datatype vphase = Idle | Decided validation_outcome | Finished "validation_outcome mcpix"

inductive race_step ::
  "crypto_lib \<Rightarrow> ('es, 'st, 'ec, 'ct, 'er) receiver_sdk \<Rightarrow> seed_id \<Rightarrow> u64 \<Rightarrow> (nat \<Rightarrow> bytes) \<Rightarrow>
   'st \<times> (nat \<Rightarrow> vphase) \<Rightarrow> 'st \<times> (nat \<Rightarrow> vphase) \<Rightarrow> bool"
  for L sdk sid t code where
  read_ok: "ph i = Idle \<Longrightarrow> validate_read L sdk e sid t (code i) s = Ok out \<Longrightarrow>
     race_step L sdk sid t code (s, ph) (s, ph(i := Decided out))"
| read_err: "ph i = Idle \<Longrightarrow> validate_read L sdk e sid t (code i) s = r \<Longrightarrow> \<not> is_ok r \<Longrightarrow>
     race_step L sdk sid t code (s, ph) (s, ph(i := Finished r))"
| mark: "ph i = Decided out \<Longrightarrow> validate_mark sdk e sid t out s = (r, s') \<Longrightarrow>
     race_step L sdk sid t code (s, ph) (s', ph(i := Finished r))"

inductive_cases race_stepE: "race_step L sdk sid t code (s, ph) (s', ph')"

lemma validate_is_read_then_mark:
  "validate_receipt L sdk (e1, e2) sid t code st =
   (case validate_read L sdk e1 sid t code (store_st st) of
      Ok out \<Rightarrow> (let (r, s) = validate_mark sdk e2 sid t out (store_st st)
                 in (r, st \<lparr> store_st := s \<rparr>))
    | Err e \<Rightarrow> (Err e, st)
    | Panic \<Rightarrow> (Panic, st))"
  by (cases "validate_read L sdk e1 sid t code (store_st st)")
    (simp_all add: validate_receipt_def on_store_def)

text \<open>The facts of one thread on the in-memory store.\<close>

lemma mem_validate_read:
  "crypto_ok L \<Longrightarrow> ms_receipts s (sid, t) = Some q \<Longrightarrow> c2_wf (C2 code) \<Longrightarrow>
   validate_read L default_sdk e sid t code s = Ok (apply_validate_receipt L q (C2 code))"
  by (simp add: validate_read_def c2_parse_Ok_iff [THEN iffD2] mem_store_ops_def mem_get_receipt_def)

lemma mem_validate_mark_Valid:
  "ms_receipts s (sid, t) = Some q \<Longrightarrow>
   validate_mark default_sdk e sid t Valid s =
     (Ok Valid, s \<lparr> ms_receipts := (ms_receipts s)((sid, t) \<mapsto> q \<lparr> rr_consumed := True \<rparr>) \<rparr>)"
  by (simp add: validate_mark_def mem_store_ops_def mem_mark_consumed_def)

lemma mem_validate_mark_other:
  "out \<noteq> Valid \<Longrightarrow> validate_mark default_sdk e sid t out s = (Ok out, s)"
  by (simp add: validate_mark_def)

text \<open>The invariant of the threads: what is decided or finished \<open>Valid\<close>, and when.\<close>

definition race_inv ::
  "seed_id \<Rightarrow> u64 \<Rightarrow> (nat \<Rightarrow> bytes) \<Rightarrow> c2 \<Rightarrow> mem_store \<times> (nat \<Rightarrow> vphase) \<Rightarrow> bool" where
  "race_inv sid t code c = (\<lambda>(s, ph).
     \<exists>q. ms_receipts s (sid, t) = Some q \<and> rr_expected_c2 q = c \<and>
       (\<forall>i. ph i = Decided Valid \<or> ph i = Finished (Ok Valid) \<longrightarrow> code i = c2_chars c) \<and>
       (\<forall>i. ph i = Finished (Ok Valid) \<longrightarrow> rr_consumed q))"

lemma mem_validate_read_Ok:
  assumes "crypto_ok L" and "ms_receipts s (sid, t) = Some q"
    and "validate_read L default_sdk e sid t code s = Ok Valid"
  shows "\<not> rr_consumed q \<and> code = c2_chars (rr_expected_c2 q)"
proof -
  from assms have "apply_validate_receipt L q (C2 code) = Valid"
    by (auto simp: validate_read_def mem_store_ops_def mem_get_receipt_def outcome_simps)
  with assms(1) show ?thesis
    by (cases "rr_expected_c2 q") (simp add: apply_validate_receipt_simps)
qed

lemma race_inv_step:
  assumes L: "crypto_ok L" and inv: "race_inv sid t code c x"
    and step: "race_step L default_sdk sid t code x y"
  shows "race_inv sid t code c y"
  using step inv
proof (induction rule: race_step.induct)
  case (read_ok ph i e s out)
  then obtain q where q: "ms_receipts s (sid, t) = Some q" "rr_expected_c2 q = c"
    by (auto simp: race_inv_def)
  have "out = Valid \<Longrightarrow> code i = c2_chars c"
    using mem_validate_read_Ok [OF L q(1)] read_ok(2) q(2) by blast
  with read_ok show ?case by (auto simp: race_inv_def)
next
  case (read_err ph i e s r)
  then show ?case by (auto simp: race_inv_def is_ok_iff)
next
  case (mark ph i out e s r s')
  then obtain q where q: "ms_receipts s (sid, t) = Some q" by (auto simp: race_inv_def)
  show ?case
  proof (cases "out = Valid")
    case True
    with mark(1,2,3) mem_validate_mark_Valid [OF q] q show ?thesis by (auto simp: race_inv_def)
  next
    case False
    with mark(1,2,3) mem_validate_mark_other [OF False] show ?thesis by (auto simp: race_inv_def)
  qed
qed

lemma race_inv_reachable:
  assumes "crypto_ok L" and "race_inv sid t code c x"
    and "(race_step L default_sdk sid t code)\<^sup>*\<^sup>* x y"
  shows "race_inv sid t code c y"
  using assms(3,2) by (induction rule: rtranclp_induct) (auto intro: race_inv_step [OF assms(1)])

section \<open>Properties\<close>

text \<open>
  Over any sequence of registrations, charges and presentations on the in-memory store and
  the sequential counter, no counter is charged twice for a seed identifier, and each charge is
  accepted at most once: a replayed code is never valid again, even after the seed is registered
  anew.
\<close>
theorem each_charge_accepted_at_most_once:
  assumes "crypto_ok L" and "\<forall>call \<in> set calls. seed_id_wf (call_seed_id call)"
    and "sdk_run L default_sdk calls default_init = (evs, st)"
  shows "distinct (charged evs) \<and> distinct (accepted evs) \<and> set (accepted evs) \<subseteq> set (charged evs)"
  using default_rx.run_effect [OF assms(1) default_init_inv assms(2,3)]
  by (auto simp: receipts_effect_def default_init_def mem_store_new_def)

text \<open>
  The same for the timestamp counter with any window, whatever the clock returns at each
  call.
\<close>
theorem each_quantized_charge_accepted_at_most_once:
  assumes "crypto_ok L" and "w \<noteq> 0" and "\<forall>call \<in> set calls. seed_id_wf (call_seed_id call)"
    and "sdk_run L quantized_sdk calls (quantized_init w) = (evs, st)"
  shows "distinct (charged evs) \<and> distinct (accepted evs) \<and> set (accepted evs) \<subseteq> set (charged evs)"
  using quantized_rx.run_effect [OF assms(1) quantized_init_inv [OF assms(2)] assms(3,4)]
  by (auto simp: receipts_effect_def quantized_init_def mem_store_new_def)

text \<open>
  A charge the receiver generates is accepted once: from the public field and the seed the
  code is recomputed, its first presentation is valid, its second is a replay, and every other
  well-formed code is a mismatch that leaves the receipt open.
\<close>
theorem charge_then_validate:
  assumes L: "crypto_ok L" and inv: "default_inv st" and sid: "seed_id_wf sid"
    and g: "generate_charge L default_sdk e sid amount st = (Ok c, st1)"
  shows "\<exists>s p k st2. ms_seeds (store_st st) sid = Some s \<and>
    parse (ch_transport_field c) = Ok p \<and> pf_seed_id p = sid \<and>
    apply_recover_c2 L s (ch_counter c) (pf_c1 p) = (Ok k :: c2 mcpix) \<and>
    validate_receipt L default_sdk e2 sid (ch_counter c) (c2_chars k) st1 = (Ok Valid, st2) \<and>
    validate_receipt L default_sdk e3 sid (ch_counter c) (c2_chars k) st2 = (Ok Replay, st2) \<and>
    (\<forall>b. c2_wf (C2 b) \<longrightarrow> b \<noteq> c2_chars k \<longrightarrow>
       validate_receipt L default_sdk e2 sid (ch_counter c) b st1 = (Ok MismatchOutcome, st1))"
proof -
  from default_rx.generate_effect [OF L inv sid g] obtain s n where
    s: "ms_seeds (store_st st) sid = Some s" and c: "c = charge_spec L s sid n amount"
    and st1: "store_st st1 = snd (mem_save_receipt (receipt_spec L s sid n amount) (store_st st))"
    by auto
  let ?q = "receipt_spec L s sid n amount" and ?k = "c2_spec L s n (c1_spec L s n)"
  let ?st2 = "st1 \<lparr> store_st := (store_st st1) \<lparr> ms_receipts :=
    (ms_receipts (store_st st1))((sid, n) \<mapsto> ?q \<lparr> rr_consumed := True \<rparr>) \<rparr> \<rparr>"
  have q: "ms_receipts (store_st st1) (sid, n) = Some ?q"
    by (simp add: st1 mem_save_receipt_def Let_def)
  have q2: "ms_receipts (store_st ?st2) (sid, n) = Some (?q \<lparr> rr_consumed := True \<rparr>)" by simp
  have wf: "c2_wf (C2 (c2_chars ?k))" by simp
  obtain a b where e2: "e2 = (a, b)" by (cases e2)
  obtain a' b' where e3: "e3 = (a', b')" by (cases e3)
  have "validate_receipt L default_sdk e2 sid n (c2_chars ?k) st1 = (Ok Valid, ?st2)"
    unfolding e2 validate_is_read_then_mark mem_validate_read [OF L q wf]
    using L mem_validate_mark_Valid [OF q] by (simp add: apply_validate_receipt_simps [THEN iffD2])
  moreover have "validate_receipt L default_sdk e3 sid n (c2_chars ?k) ?st2 = (Ok Replay, ?st2)"
    unfolding e3 validate_is_read_then_mark mem_validate_read [OF L q2 wf]
    by (simp add: apply_validate_receipt_def mem_validate_mark_other)
  moreover have "validate_receipt L default_sdk e2 sid n b st1 = (Ok MismatchOutcome, st1)"
    if "c2_wf (C2 b)" "b \<noteq> c2_chars ?k" for b
  proof -
    have "C2 b \<noteq> ?k" using that(2) by (metis c2.sel)
    then show ?thesis
      unfolding e2 validate_is_read_then_mark mem_validate_read [OF L q that(1)]
      using L mem_validate_mark_other
      by (simp add: apply_validate_receipt_simps(2) [THEN iffD2])
  qed
  ultimately show ?thesis
    using s c sid by (simp add: parse_field_of apply_recover_c2_def derive_c2_from_c1_eq [OF L])
qed

text \<open>
  C28. Two threads that present the code of the same open charge can both be told it is valid:
  each reads the receipt before the other marks it, and marking does not look whether the
  receipt is consumed.
\<close>
theorem concurrent_presentations_both_accepted:
  assumes L: "crypto_ok L" and q: "ms_receipts s (sid, t) = Some q" and wf: "receipt_wf q"
    and "\<not> rr_consumed q" and "code i = c2_chars (rr_expected_c2 q)" and "code j = code i" and "i \<noteq> j"
  shows "\<exists>s' ph. (race_step L default_sdk sid t code)\<^sup>*\<^sup>* (s, \<lambda>_. Idle) (s', ph) \<and>
    ph i = Finished (Ok Valid) \<and> ph j = Finished (Ok Valid)"
proof -
  let ?R = "race_step L default_sdk sid t code"
  let ?p1 = "(\<lambda>_. Idle)(i := Decided Valid)"
  let ?p2 = "?p1(j := Decided Valid)"
  have C: "C2 (code i) = rr_expected_c2 q" "C2 (code j) = rr_expected_c2 q"
    using assms(5,6) by simp_all
  with wf have wfC: "c2_wf (C2 (code i))" "c2_wf (C2 (code j))" by (simp_all add: receipt_wf_def)
  have "validate_read L default_sdk () sid t (code k) s = Ok Valid" if "k = i \<or> k = j" for k
    using that C wfC L assms(4) mem_validate_read [OF L q, of "code k" "()"]
    by (auto simp: apply_validate_receipt_simps)
  then have 1: "?R (s, \<lambda>_. Idle) (s, ?p1)" "?R (s, ?p1) (s, ?p2)"
    using assms(7) by (auto intro!: race_step.read_ok)
  define q1 s1 where "q1 = q \<lparr> rr_consumed := True \<rparr>"
    and "s1 = s \<lparr> ms_receipts := (ms_receipts s)((sid, t) \<mapsto> q1) \<rparr>"
  have m1: "validate_mark default_sdk () sid t Valid s = (Ok Valid, s1)"
    using mem_validate_mark_Valid [OF q] by (simp add: s1_def q1_def)
  have "ms_receipts s1 (sid, t) = Some q1" by (simp add: s1_def)
  from mem_validate_mark_Valid [OF this, of "()"] obtain s2 where
    m2: "validate_mark default_sdk () sid t Valid s1 = (Ok Valid, s2)" by blast
  have 2: "?R (s, ?p2) (s1, ?p2(i := Finished (Ok Valid)))"
    using assms(7) by (intro race_step.mark [OF _ m1]) simp
  have 3: "?R (s1, ?p2(i := Finished (Ok Valid)))
      (s2, ?p2(i := Finished (Ok Valid), j := Finished (Ok Valid)))"
    using assms(7) by (intro race_step.mark [OF _ m2]) simp
  from 1 2 3 have "?R\<^sup>*\<^sup>* (s, \<lambda>_. Idle) (s2, ?p2(i := Finished (Ok Valid), j := Finished (Ok Valid)))"
    by (meson converse_rtranclp_into_rtranclp rtranclp.rtrancl_refl)
  with assms(7) show ?thesis by (intro exI conjI) (assumption, simp_all)
qed

text \<open>
  What concurrency cannot break: whatever the interleaving, a presentation that is told
  valid carried the expected code and leaves the receipt consumed, so a thread that reads after
  one has finished is told it is a replay.
\<close>
theorem presentation_after_acceptance_is_replay:
  assumes "crypto_ok L" and "ms_receipts s (sid, t) = Some q"
    and "(race_step L default_sdk sid t code)\<^sup>*\<^sup>* (s, \<lambda>_. Idle) (s', ph)"
    and "ph i = Finished (Ok Valid)"
  shows "code i = c2_chars (rr_expected_c2 q) \<and>
    (\<forall>b. c2_wf (C2 b) \<longrightarrow> validate_read L default_sdk e sid t b s' = Ok Replay)"
proof -
  have "race_inv sid t code (rr_expected_c2 q) (s, \<lambda>_. Idle)"
    using assms(2) by (simp add: race_inv_def)
  from race_inv_reachable [OF assms(1) this assms(3)] assms(4) obtain q' where
    q': "ms_receipts s' (sid, t) = Some q'" "rr_consumed q'" "code i = c2_chars (rr_expected_c2 q)"
    by (auto simp: race_inv_def)
  then show ?thesis
    using mem_validate_read [OF assms(1) q'(1)] by (simp add: apply_validate_receipt_def)
qed

section \<open>Witnesses\<close>

text \<open>A device that registers, charges once and is shown the code, twice.\<close>

definition demo_sid :: seed_id where
  "demo_sid = SeedId (ascii ''LOJA1'')"

lemma demo_sid_wf [simp]: "seed_id_wf demo_sid"
  by (simp add: demo_sid_def seed_id_wf_def ascii_def is_alnum_def is_digit_def)

definition demo_code :: bytes where
  "demo_code = c2_chars (c2_spec demo_crypto demo_seed 1 (c1_spec demo_crypto demo_seed 1))"

definition demo_calls :: "(unit, unit, bytes + (nat \<Rightarrow> byte)) sdk_call list" where
  "demo_calls = [Register (Inr (\<lambda>_. 0xA5), ()) demo_sid, Generate ((), (), ()) demo_sid 1990,
     Validate ((), ()) demo_sid 1 demo_code, Validate ((), ()) demo_sid 1 demo_code]"

lemma demo_register:
  "snd (register default_sdk (Inr (\<lambda>_. 0xA5), ()) demo_sid default_init) =
   \<lparr> store_st = \<lparr> ms_seeds = [demo_sid \<mapsto> demo_seed], ms_receipts = Map.empty \<rparr>,
     counter_st = Map.empty \<rparr>"
  by (simp add: register_def os_random_fill_def on_store_def mem_store_ops_def mem_put_seed_def
      default_init_def mem_store_new_def counter_new_def demo_seed_def seed_from_bytes_def
      SEED_LEN_def map_replicate_const)

definition demo_charged :: "(mem_store, mem_counter) sdk_state" where
  "demo_charged = \<lparr> store_st = \<lparr> ms_seeds = [demo_sid \<mapsto> demo_seed],
       ms_receipts = [(demo_sid, 1) \<mapsto> receipt_spec demo_crypto demo_seed demo_sid 1 1990] \<rparr>,
     counter_st = [demo_sid \<mapsto> 1] \<rparr>"

lemma demo_generate:
  "generate_charge demo_crypto default_sdk ((), (), ()) demo_sid 1990
     \<lparr> store_st = \<lparr> ms_seeds = [demo_sid \<mapsto> demo_seed], ms_receipts = Map.empty \<rparr>,
       counter_st = Map.empty \<rparr> =
   (Ok (charge_spec demo_crypto demo_seed demo_sid 1 1990), demo_charged)"
  by (simp add: generate_charge_def on_counter_def on_store_def mem_store_ops_def mem_get_seed_def
      counter_next_def slot_or_insert_def checked_add_0_1 apply_generate_charge_eq
      mem_save_receipt_def demo_charged_def)

lemma demo_registered_inv:
  "default_inv \<lparr> store_st = \<lparr> ms_seeds = [demo_sid \<mapsto> demo_seed], ms_receipts = Map.empty \<rparr>,
     counter_st = Map.empty \<rparr>"
  by (simp add: default_inv_def store_view_wf_def receipts_bounded_def)

lemma demo_calls_run: "fst (sdk_run demo_crypto default_sdk demo_calls default_init) =
    [Charged demo_sid 1, Accepted demo_sid 1]"
proof -
  have v: "validate_receipt demo_crypto default_sdk ((), ()) demo_sid 1 demo_code demo_charged =
      (Ok Valid, demo_charged \<lparr> store_st := (store_st demo_charged) \<lparr> ms_receipts :=
        [(demo_sid, 1) \<mapsto> receipt_spec demo_crypto demo_seed demo_sid 1 1990
           \<lparr> rr_consumed := True \<rparr>] \<rparr> \<rparr>)" (is "_ = (_, ?st)")
    by (simp add: validate_is_read_then_mark mem_validate_read mem_validate_mark_Valid
        demo_charged_def demo_code_def apply_validate_receipt_simps(1) [THEN iffD2])
  have w: "validate_receipt demo_crypto default_sdk ((), ()) demo_sid 1 demo_code ?st =
      (Ok Replay, ?st)"
    by (simp add: validate_is_read_then_mark mem_validate_read mem_validate_mark_other
        demo_code_def apply_validate_receipt_def)
  show ?thesis
    by (simp add: demo_calls_def demo_register demo_generate v w)
qed

theorem each_charge_accepted_at_most_once_witness:
  "accepted (fst (sdk_run demo_crypto default_sdk demo_calls default_init)) = [(demo_sid, 1)] \<and>
   distinct (accepted (fst (sdk_run demo_crypto default_sdk demo_calls default_init)))"
proof -
  have wf: "\<forall>call \<in> set demo_calls. seed_id_wf (call_seed_id call)" by (simp add: demo_calls_def)
  from each_charge_accepted_at_most_once [OF demo_crypto_ok wf prod.collapse [symmetric]]
  show ?thesis by (simp add: demo_calls_run)
qed

theorem each_quantized_charge_accepted_at_most_once_witness:
  "let calls = [Register (Inr (\<lambda>_. 1), ()) demo_sid, Generate ((), 100, ()) demo_sid 5,
                Generate ((), 119, ()) demo_sid 6, Generate ((), 50, ()) demo_sid 7] in
   distinct (charged (fst (sdk_run demo_crypto quantized_sdk calls (quantized_init 30))))"
  (is "let calls = ?calls in _")
proof -
  have wf: "\<forall>call \<in> set ?calls. seed_id_wf (call_seed_id call)" by simp
  from each_quantized_charge_accepted_at_most_once
    [OF demo_crypto_ok _ wf prod.collapse [symmetric], of 30]
  show ?thesis by (simp add: Let_def)
qed

theorem charge_then_validate_witness:
  "\<exists>p k st2. parse (ch_transport_field (charge_spec demo_crypto demo_seed demo_sid 1 1990)) = Ok p \<and>
    validate_receipt demo_crypto default_sdk ((), ()) demo_sid 1 (c2_chars k) demo_charged =
      (Ok Valid, st2) \<and>
    validate_receipt demo_crypto default_sdk ((), ()) demo_sid 1 (c2_chars k) st2 = (Ok Replay, st2)"
  using charge_then_validate [OF demo_crypto_ok demo_registered_inv demo_sid_wf demo_generate,
      of "((), ())" "((), ())"]
  by auto

lemma demo_receipt:
  "ms_receipts (store_st demo_charged) (demo_sid, 1) =
     Some (receipt_spec demo_crypto demo_seed demo_sid 1 1990)"
  by (simp add: demo_charged_def)

theorem concurrent_presentations_both_accepted_witness:
  "\<exists>s' ph. (race_step demo_crypto default_sdk demo_sid 1 (\<lambda>_. demo_code))\<^sup>*\<^sup>*
      (store_st demo_charged, \<lambda>_. Idle) (s', ph) \<and>
    ph 0 = Finished (Ok Valid) \<and> ph 1 = Finished (Ok Valid)"
  by (rule concurrent_presentations_both_accepted [OF demo_crypto_ok demo_receipt])
    (simp_all add: demo_code_def receipt_spec_wf)

theorem presentation_after_acceptance_is_replay_witness:
  "\<exists>s' ph. (race_step demo_crypto default_sdk demo_sid 1 (\<lambda>_. demo_code))\<^sup>*\<^sup>*
      (store_st demo_charged, \<lambda>_. Idle) (s', ph) \<and> ph 0 = Finished (Ok Valid) \<and>
    validate_read demo_crypto default_sdk () demo_sid 1 (ascii ''ABCDEFGHJK2'') s' = Ok Replay"
proof -
  let ?s = "store_st demo_charged" and ?R = "race_step demo_crypto default_sdk demo_sid 1 (\<lambda>_. demo_code)"
  have r: "validate_read demo_crypto default_sdk () demo_sid 1 demo_code ?s = Ok Valid"
    by (simp add: mem_validate_read [OF _ demo_receipt] demo_code_def apply_validate_receipt_simps(1) [THEN iffD2])
  obtain s' where m: "validate_mark default_sdk () demo_sid 1 Valid ?s = (Ok Valid, s')"
    using mem_validate_mark_Valid [OF demo_receipt, of "()"] by blast
  let ?ph = "((\<lambda>_. Idle)(0 := Decided Valid))(0 := Finished (Ok Valid))"
  have "?R (?s, \<lambda>_. Idle) (?s, (\<lambda>_. Idle)(0 := Decided Valid))"
    by (rule race_step.read_ok [OF _ r]) simp
  moreover have "?R (?s, (\<lambda>_. Idle)(0 := Decided Valid)) (s', ?ph)"
    by (rule race_step.mark [OF _ m]) simp
  ultimately have run: "?R\<^sup>*\<^sup>* (?s, \<lambda>_. Idle) (s', ?ph)" by simp
  have "?ph 0 = Finished (Ok Valid)" by simp
  from presentation_after_acceptance_is_replay [OF demo_crypto_ok demo_receipt run this, of "()"]
  have "validate_read demo_crypto default_sdk () demo_sid 1 (ascii ''ABCDEFGHJK2'') s' = Ok Replay"
    by (simp add: c2_wf_def ascii_def is_alnum_def is_digit_def)
  with run show ?thesis by (intro exI [of _ s'] exI [of _ ?ph]) simp
qed

end
