(* ===== verification/Concurrent.thy ===== *)
theory Concurrent
  imports ReceiverSdk
begin

text \<open>
  The receiver shared between threads. \<^verbatim>\<open>ReceiverSdk\<close> holds its store and its counter behind
  \<^verbatim>\<open>Arc\<close> and locks each of them for one access at a time, so a call of
  \<^verbatim>\<open>register\<close>, \<^verbatim>\<open>generate_charge\<close> or \<^verbatim>\<open>validate_receipt\<close>
  (\<^verbatim>\<open>mcpix-receiver-sdk/src/lib.rs\<close>) is a sequence of atomic accesses, between which other
  threads run. The relation below interleaves any number of threads, each making any calls.
\<close>

section \<open>Threads\<close>

text \<open>Where a thread is in its call, with the local variables it holds there.\<close>

datatype phase =
    CIdle
  | CFilled seed_id seed
  | CSeeded seed_id u64 seed
  | CCounted seed_id u64 seed u64
  | CDecided seed_id u64 validation_outcome

type_synonym ('st, 'ct) conc = "('st, 'ct) sdk_state \<times> (nat \<Rightarrow> phase) \<times> sdk_event list"

inductive conc_step ::
  "crypto_lib \<Rightarrow> ('es, 'st, 'ec, 'ct, 'er) receiver_sdk \<Rightarrow> ('st, 'ct) conc \<Rightarrow> ('st, 'ct) conc \<Rightarrow> bool"
  for L sdk where
  reg_fill: "ph i = CIdle \<Longrightarrow> seed_id_wf sid \<Longrightarrow> sdk_rng sdk er SEED_LEN = Ok bs \<Longrightarrow>
     conc_step L sdk (st, ph, evs) (st, ph(i := CFilled sid (seed_from_bytes bs)), evs)"
| reg_put: "ph i = CFilled sid s \<Longrightarrow> on_store (put_seed (sdk_store sdk) es sid s) st = (r, st') \<Longrightarrow>
     conc_step L sdk (st, ph, evs) (st', ph(i := CIdle), evs)"
| gen_seed: "ph i = CIdle \<Longrightarrow> seed_id_wf sid \<Longrightarrow>
     and_then (get_seed (sdk_store sdk) es sid (store_st st)) (ok_or UnknownSeed) = Ok s \<Longrightarrow>
     conc_step L sdk (st, ph, evs) (st, ph(i := CSeeded sid amount s), evs)"
| gen_count: "ph i = CSeeded sid amount s \<Longrightarrow> on_counter (sdk_counter sdk ec sid) st = (Ok n, st') \<Longrightarrow>
     conc_step L sdk (st, ph, evs) (st', ph(i := CCounted sid amount s n), evs)"
| gen_no_count: "ph i = CSeeded sid amount s \<Longrightarrow> on_counter (sdk_counter sdk ec sid) st = (r, st') \<Longrightarrow>
     \<not> is_ok r \<Longrightarrow> conc_step L sdk (st, ph, evs) (st', ph(i := CIdle), evs)"
| gen_save: "ph i = CCounted sid amount s n \<Longrightarrow>
     apply_generate_charge L s
       \<lparr> gc_seed_id = sid, gc_counter = n, gc_amount_cents = amount \<rparr> = (Ok out :: charge_outcome mcpix) \<Longrightarrow>
     on_store (save_receipt (sdk_store sdk) es (co_retained out)) st = (r, st') \<Longrightarrow>
     conc_step L sdk (st, ph, evs)
       (st', ph(i := CIdle), evs @ (if r = Ok () then [Charged sid n] else []))"
| val_read: "ph i = CIdle \<Longrightarrow> seed_id_wf sid \<Longrightarrow>
     validate_read L sdk es sid t code (store_st st) = Ok out \<Longrightarrow>
     conc_step L sdk (st, ph, evs) (st, ph(i := CDecided sid t out), evs)"
| val_mark: "ph i = CDecided sid t out \<Longrightarrow>
     on_store (validate_mark sdk es sid t out) st = (r, st') \<Longrightarrow>
     conc_step L sdk (st, ph, evs)
       (st', ph(i := CIdle), evs @ (if r = Ok Valid then [Accepted sid t] else []))"

text \<open>A call that fails before its first write leaves everything as it was, and is no step.\<close>

abbreviation conc_reaches ::
  "crypto_lib \<Rightarrow> ('es, 'st, 'ec, 'ct, 'er) receiver_sdk \<Rightarrow> ('st, 'ct) conc \<Rightarrow> ('st, 'ct) conc \<Rightarrow> bool" where
  "conc_reaches L sdk \<equiv> (conc_step L sdk)\<^sup>*\<^sup>*"

text \<open>
  What a lock held over the whole of a validation would give: no two threads have decided on the
  same receipt.
\<close>

definition one_decides :: "('st, 'ct) conc \<Rightarrow> bool" where
  "one_decides x \<longleftrightarrow> (case x of (st, ph, evs) \<Rightarrow>
     \<forall>i j sid t out out'. ph i = CDecided sid t out \<longrightarrow> ph j = CDecided sid t out' \<longrightarrow> i = j)"

abbreviation serial_reaches ::
  "crypto_lib \<Rightarrow> ('es, 'st, 'ec, 'ct, 'er) receiver_sdk \<Rightarrow> ('st, 'ct) conc \<Rightarrow> ('st, 'ct) conc \<Rightarrow> bool" where
  "serial_reaches L sdk \<equiv> (\<lambda>x y. conc_step L sdk x y \<and> one_decides y)\<^sup>*\<^sup>*"

definition conc_start :: "('st, 'ct) sdk_state \<Rightarrow> ('st, 'ct) conc" where
  "conc_start st = (st, \<lambda>_. CIdle, [])"

section \<open>The invariant\<close>

lemma consumed_dom: "consumed_keys m \<subseteq> dom (ms_receipts m)"
  by (auto simp: consumed_keys_def)

context receiver
begin

definition phase_ok :: "('st, 'ct) sdk_state \<Rightarrow> phase \<Rightarrow> bool" where
  "phase_ok st p \<longleftrightarrow> (case p of
       CIdle \<Rightarrow> True
     | CFilled sid s \<Rightarrow> seed_id_wf sid \<and> seed_wf s
     | CSeeded sid amount s \<Rightarrow> seed_id_wf sid
     | CCounted sid amount s n \<Rightarrow> seed_id_wf sid \<and> ms_receipts (V st) (sid, n) = None \<and>
         (\<exists>l. last_issued (counter_st st) sid = Some l \<and> n \<le> l)
     | CDecided sid t out \<Rightarrow> seed_id_wf sid)"

text \<open>\<open>D\<close> are the receipts that were there before the threads started.\<close>

definition conc_inv :: "(seed_id \<times> u64) set \<Rightarrow> ('st, 'ct) conc \<Rightarrow> bool" where
  "conc_inv D x \<longleftrightarrow> (case x of (st, ph, evs) \<Rightarrow>
     I st \<and> (\<forall>i. phase_ok st (ph i)) \<and>
     (\<forall>i j sid a b s s' n. ph i = CCounted sid a s n \<longrightarrow> ph j = CCounted sid b s' n \<longrightarrow> i = j) \<and>
     distinct (charged evs) \<and> D \<inter> set (charged evs) = {} \<and>
     dom (ms_receipts (V st)) = D \<union> set (charged evs) \<and>
     set (accepted evs) \<subseteq> consumed_keys (V st))"

lemma phase_ok_simps [simp]:
  "phase_ok st CIdle"
  "phase_ok st (CFilled sid s) \<longleftrightarrow> seed_id_wf sid \<and> seed_wf s"
  "phase_ok st (CSeeded sid a s) \<longleftrightarrow> seed_id_wf sid"
  "phase_ok st (CCounted sid a s n) \<longleftrightarrow> seed_id_wf sid \<and> ms_receipts (V st) (sid, n) = None \<and>
     (\<exists>l. last_issued (counter_st st) sid = Some l \<and> n \<le> l)"
  "phase_ok st (CDecided sid t out) \<longleftrightarrow> seed_id_wf sid"
  by (simp_all add: phase_ok_def)

lemma conc_invD:
  assumes "conc_inv D (st, ph, evs)"
  shows "I st" "phase_ok st (ph i)" "distinct (charged evs)" "D \<inter> set (charged evs) = {}"
    "dom (ms_receipts (V st)) = D \<union> set (charged evs)" "set (accepted evs) \<subseteq> consumed_keys (V st)"
    "ph i = CCounted sid a s n \<Longrightarrow> ph j = CCounted sid b s' n \<Longrightarrow> i = j"
  using assms unfolding conc_inv_def prod.case by blast+

text \<open>One thread moves: what has to be shown of the state after it.\<close>

lemma conc_inv_move:
  assumes "conc_inv D (st, ph, evs)" and "I st'"
    and "\<And>j. j \<noteq> i \<Longrightarrow> phase_ok st (ph j) \<Longrightarrow> phase_ok st' (ph j)" and "phase_ok st' p"
    and "\<And>sid a s n j b s'. p = CCounted sid a s n \<Longrightarrow> j \<noteq> i \<Longrightarrow> ph j \<noteq> CCounted sid b s' n"
    and "distinct (charged e)" and "set (charged e) \<inter> dom (ms_receipts (V st)) = {}"
    and "dom (ms_receipts (V st')) = dom (ms_receipts (V st)) \<union> set (charged e)"
    and "consumed_keys (V st') = consumed_keys (V st) \<union> set (accepted e)"
  shows "conc_inv D (st', ph(i := p), evs @ e)"
proof -
  note inv = conc_invD [OF assms(1)]
  have "phase_ok st' ((ph(i := p)) j)" for j
    using assms(3,4) inv(2) by simp
  moreover have "j = k" if "(ph(i := p)) j = CCounted sid a s n" "(ph(i := p)) k = CCounted sid b s' n"
    for j k sid a b s s' n
    using that assms(5) inv(7) by (auto split: if_splits)
  moreover have "distinct (charged (evs @ e))" "D \<inter> set (charged (evs @ e)) = {}"
    "dom (ms_receipts (V st')) = D \<union> set (charged (evs @ e))"
    using assms(6-8) inv(3-5) by auto
  moreover have "set (accepted (evs @ e)) \<subseteq> consumed_keys (V st')"
    using assms(9) inv(6) by auto
  ultimately show ?thesis
    using assms(2) unfolding conc_inv_def prod.case by blast
qed

lemmas conc_inv_local = conc_inv_move [where e = "[]", simplified]

lemma phase_ok_mono:
  assumes "phase_ok st p"
    and "\<And>sid a s n. p = CCounted sid a s n \<Longrightarrow> ms_receipts (V st) (sid, n) = None \<Longrightarrow>
      ms_receipts (V st') (sid, n) = None"
    and "\<And>sid l. last_issued (counter_st st) sid = Some l \<Longrightarrow>
      \<exists>l'. last_issued (counter_st st') sid = Some l' \<and> l \<le> l'"
  shows "phase_ok st' p"
  using assms by (cases p) (fastforce simp: phase_ok_def intro: order_trans)+

lemma validate_mark_effect:
  assumes "I st" "seed_id_wf sid" "on_store (validate_mark sdk e sid t out) st = (r, st')"
  shows "I st' \<and> counter_st st' = counter_st st \<and>
    (if r = Ok Valid then ms_receipts (V st) (sid, t) \<noteq> None \<and> V st' = snd (mem_mark_consumed sid t (V st))
     else V st' = V st)"
proof (cases "out = Valid")
  case True
  obtain r1 s1 where mark: "mark_consumed (sdk_store sdk) e sid t (store_st st) = (r1, s1)" by force
  have m: "sinv s1 \<and> (if r1 = Ok () then ms_receipts (V st) (sid, t) \<noteq> None \<and>
      view s1 = snd (mem_mark_consumed sid t (V st)) else view s1 = V st)"
    using store.mark_consumed_law [OF _ assms(2) mark] assms(1) by (simp add: I_def V_def)
  have "(r, st') = (let (r, s) = st_then (r1, s1) (\<lambda>_ s. (Ok out, s)) in (r, st \<lparr> store_st := s \<rparr>))"
    using assms(3) mark True by (simp add: validate_mark_def on_store_def)
  with m True assms(1) show ?thesis
    by (cases r1) (auto simp: I_def V_def receipts_bounded_mark)
next
  case False
  with assms show ?thesis by (auto simp: validate_mark_def on_store_def)
qed

text \<open>The accesses that issue a counter, keep a receipt and mark one.\<close>

lemma conc_inv_count:
  assumes inv: "conc_inv D (st, ph, evs)" and i: "ph i = CSeeded sid amount s"
    and cnt: "on_counter (sdk_counter sdk ec sid) st = (Ok n, st')"
  shows "conc_inv D (st', ph(i := CCounted sid amount s n), evs)"
proof -
  have wf: "seed_id_wf sid" "I st" using conc_invD(1) [OF inv] conc_invD(2) [OF inv, of i] i by auto
  note iss = on_counter_issue [OF wf(2) cnt, simplified]
  have ok: "phase_ok st' p" if "phase_ok st p" for p
    using that by (rule phase_ok_mono) (use iss in \<open>auto simp: less_imp_le\<close>)
  have "ph j \<noteq> CCounted sid b s' n" for j b s'
    using conc_invD(2) [OF inv, of j] iss by auto
  with ok iss wf(1) show ?thesis by (intro conc_inv_local [OF inv]) auto
qed

lemma conc_inv_save:
  assumes inv: "conc_inv D (st, ph, evs)" and i: "ph i = CCounted sid amount s n"
    and save: "on_store (save_receipt (sdk_store sdk) es (receipt_spec L s sid n amount)) st = (r, st')"
  shows "conc_inv D (st', ph(i := CIdle), evs @ (if r = Ok () then [Charged sid n] else []))"
proof -
  let ?q = "receipt_spec L s sid n amount"
  have wf: "seed_id_wf sid" "I st" and none: "ms_receipts (V st) (sid, n) = None"
    using conc_invD(1) [OF inv] conc_invD(2) [OF inv, of i] i by auto
  obtain l where l: "last_issued (counter_st st) sid = Some l" "n \<le> l"
    using conc_invD(2) [OF inv, of i] i by auto
  have eff: "I st' \<and> (if r = Ok () then V st' = snd (mem_save_receipt ?q (V st)) else V st' = V st)"
    using on_store_save [OF wf(2) receipt_spec_wf [OF wf(1)] _ _ save, of l] l by simp
  have cnt: "counter_st st' = counter_st st" by (rule on_store_counter [OF save])
  have dom: "dom (ms_receipts (V st')) = dom (ms_receipts (V st)) \<union> (if r = Ok () then {(sid, n)} else {})"
    and keys: "consumed_keys (V st') = consumed_keys (V st)"
    using eff consumed_keys_simps(2) [of "V st" ?q] none
    by (auto simp: mem_save_receipt_def Let_def split: if_splits)
  have ok: "phase_ok st' (ph j)" if "j \<noteq> i" and p: "phase_ok st (ph j)" for j
  proof (rule phase_ok_mono [OF p])
    fix sid' a s' n'
    assume j: "ph j = CCounted sid' a s' n'" and none': "ms_receipts (V st) (sid', n') = None"
    have "(sid', n') \<noteq> (sid, n)" using conc_invD(7) [OF inv] j i that(1) by blast
    with none' dom show "ms_receipts (V st') (sid', n') = None" by (auto split: if_splits)
  qed (simp add: cnt)
  show ?thesis by (rule conc_inv_move [OF inv]) (use eff ok dom keys none in auto)
qed

lemma conc_inv_mark:
  assumes inv: "conc_inv D (st, ph, evs)" and i: "ph i = CDecided sid t out"
    and mark: "on_store (validate_mark sdk es sid t out) st = (r, st')"
  shows "conc_inv D (st', ph(i := CIdle), evs @ (if r = Ok Valid then [Accepted sid t] else []))"
proof -
  have "I st" "seed_id_wf sid" using conc_invD(1) [OF inv] conc_invD(2) [OF inv, of i] i by auto
  note mark = validate_mark_effect [OF this mark]
  have dom: "dom (ms_receipts (V st')) = dom (ms_receipts (V st))"
    using mark by (auto simp: mem_mark_consumed_def split: option.splits if_splits)
  have keys: "consumed_keys (V st') = consumed_keys (V st) \<union> (if r = Ok Valid then {(sid, t)} else {})"
    using mark consumed_keys_simps(3) [of "V st" sid t] by (auto split: if_splits)
  have "phase_ok st' p" if "phase_ok st p" for p
    using that by (rule phase_ok_mono) (use mark dom in auto)
  then show ?thesis by (intro conc_inv_move [OF inv]) (use mark dom keys in auto)
qed

lemma conc_inv_step:
  assumes L: "crypto_ok L" and step: "conc_step L sdk x y" and inv: "conc_inv D x"
  shows "conc_inv D y"
  using step inv
proof (induction rule: conc_step.induct)
  case (reg_fill ph i sid er bs st evs)
  then show ?case
    by (intro conc_inv_local [OF reg_fill(4)]) (auto simp: random.fill_seed_wf conc_invD(1))
next
  case (reg_put ph i sid s es st r st' evs)
  have "seed_id_wf sid" "seed_wf s" "I st"
    using conc_invD(1) [OF reg_put(3)] conc_invD(2) [OF reg_put(3), of i] reg_put(1) by auto
  note put = on_store_put [OF this(3,1,2) reg_put(2)] on_store_counter [OF reg_put(2)]
  have V: "ms_receipts (V st') = ms_receipts (V st)" "consumed_keys (V st') = consumed_keys (V st)"
    using put(1) by (auto simp: mem_put_seed_def consumed_keys_def split: if_splits)
  have "phase_ok st' p" if "phase_ok st p" for p
    using that by (rule phase_ok_mono) (simp_all add: V put(2))
  with put(1) show ?case by (intro conc_inv_local [OF reg_put(3)]) (auto simp: V)
next
  case (gen_seed ph i sid es st s amount evs)
  then show ?case
    by (intro conc_inv_local [OF gen_seed(4)]) (auto simp: conc_invD(1))
next
  case (gen_count ph i sid amount s ec st n st' evs)
  show ?case by (rule conc_inv_count [OF gen_count(3,1,2)])
next
  case (gen_no_count ph i sid amount s ec st r st' evs)
  note iss = on_counter_issue [OF conc_invD(1) [OF gen_no_count(4)] gen_no_count(2)]
  have fails: "I st' \<and> V st' = V st \<and> last_issued (counter_st st') = last_issued (counter_st st)"
    using iss gen_no_count(3) by (cases r) auto
  have "phase_ok st' p" if "phase_ok st p" for p
    using that by (rule phase_ok_mono) (simp_all add: fails)
  then show ?case by (intro conc_inv_local [OF gen_no_count(4)]) (auto simp: fails)
next
  case (gen_save ph i sid amount s n out es st r st' evs)
  have "seed_id_wf sid" using conc_invD(2) [OF gen_save(4), of i] gen_save(1) by auto
  then have q: "co_retained out = receipt_spec L s sid n amount"
    using gen_save(2) by (auto simp: apply_generate_charge_eq [OF L])
  show ?case by (rule conc_inv_save [OF gen_save(4,1) gen_save(3) [unfolded q]])
next
  case (val_read ph i sid es t code st out evs)
  then show ?case by (intro conc_inv_local [OF val_read(4)]) (auto simp: conc_invD(1))
next
  case (val_mark ph i sid t out es st r st' evs)
  show ?case by (rule conc_inv_mark [OF val_mark(3,1,2)])
qed

lemma conc_inv_reaches:
  assumes "crypto_ok L" and "conc_reaches L sdk x y" and "conc_inv D x"
  shows "conc_inv D y"
  using assms(2,3) by (induction rule: rtranclp_induct) (auto intro: conc_inv_step [OF assms(1)])

lemma conc_inv_start:
  "I st \<Longrightarrow> conc_inv (dom (ms_receipts (V st))) (conc_start st)"
  by (auto simp: conc_inv_def conc_start_def)

section \<open>One decision at a time\<close>

text \<open>What a step does to the consumed receipts and to the decisions that are pending.\<close>

definition decides :: "(nat \<Rightarrow> phase) \<Rightarrow> (seed_id \<times> u64) set" where
  "decides ph = {(sid, t). \<exists>i. ph i = CDecided sid t Valid}"

lemma validate_read_Valid:
  assumes "crypto_ok L" "I st" "seed_id_wf sid"
    and "validate_read L sdk es sid t code (store_st st) = Ok Valid"
  shows "(sid, t) \<notin> consumed_keys (V st)"
proof -
  obtain q where g: "get_receipt (sdk_store sdk) es sid t (store_st st) = Ok (Some q)"
    and v: "apply_validate_receipt L q (C2 code) = Valid"
    using assms(4) by (auto simp: validate_read_def outcome_simps)
  have "ms_receipts (V st) (sid, t) = Some q"
    using store.get_receipt_law [OF _ assms(3) g] assms(2) by (simp add: I_def V_def)
  with v assms(1) show ?thesis by (auto simp: consumed_keys_def apply_validate_receipt_simps)
qed

lemma conc_step_decides:
  assumes L: "crypto_ok L" and step: "conc_step L sdk (st, ph, evs) (st', ph', evs')"
    and inv: "conc_inv D (st, ph, evs)"
  shows "(consumed_keys (V st') = consumed_keys (V st) \<and> accepted evs' = accepted evs \<and>
      decides ph' \<subseteq> decides ph \<union> - consumed_keys (V st)) \<or>
    (\<exists>i sid t. ph i = CDecided sid t Valid \<and> ph' = ph(i := CIdle) \<and>
      consumed_keys (V st') = insert (sid, t) (consumed_keys (V st)) \<and>
      accepted evs' = accepted evs @ [(sid, t)])"
  using step
proof (cases rule: conc_step.cases)
  case (reg_put i sid s es r)
  have "seed_id_wf sid" "seed_wf s" "I st"
    using conc_invD(1) [OF inv] conc_invD(2) [OF inv, of i] reg_put(3) by auto
  from on_store_put [OF this(3,1,2) reg_put(4)] have "consumed_keys (V st') = consumed_keys (V st)"
    by (auto simp: mem_put_seed_def consumed_keys_def split: if_splits)
  with reg_put show ?thesis by (auto simp: decides_def)
next
  case (gen_save i sid amount s n out es r)
  let ?q = "receipt_spec L s sid n amount"
  have wf: "seed_id_wf sid" "I st" and none: "ms_receipts (V st) (sid, n) = None"
    using conc_invD(1) [OF inv] conc_invD(2) [OF inv, of i] gen_save(3) by auto
  obtain l where l: "last_issued (counter_st st) sid = Some l" "n \<le> l"
    using conc_invD(2) [OF inv, of i] gen_save(3) by auto
  have q: "co_retained out = ?q"
    using gen_save(4) wf(1) by (auto simp: apply_generate_charge_eq [OF L])
  have "consumed_keys (V st') = consumed_keys (V st)"
    using on_store_save [OF wf(2) receipt_spec_wf [OF wf(1)] _ _ gen_save(5) [unfolded q], of l] l
      consumed_keys_simps(2) [of "V st" ?q] none
    by (auto split: if_splits)
  with gen_save show ?thesis by (auto simp: decides_def)
next
  case (val_mark i sid t out es r)
  have "I st" "seed_id_wf sid" using conc_invD(1) [OF inv] conc_invD(2) [OF inv, of i] val_mark(3) by auto
  note mark = validate_mark_effect [OF this val_mark(4)]
  show ?thesis
  proof (cases "r = Ok Valid")
    case True
    have "out = Valid" using val_mark(4) True
      by (auto simp: validate_mark_def on_store_def split: if_splits prod.splits)
    with True mark consumed_keys_simps(3) [of "V st" sid t] val_mark show ?thesis by auto
  next
    case False
    with mark val_mark show ?thesis by (auto simp: decides_def)
  qed
qed (use conc_invD [OF inv] on_counter_issue validate_read_Valid [OF L] in
    \<open>auto simp: decides_def split: outcome.splits if_splits\<close>)

definition serial_inv :: "(seed_id \<times> u64) set \<Rightarrow> ('st, 'ct) conc \<Rightarrow> bool" where
  "serial_inv K x \<longleftrightarrow> (case x of (st, ph, evs) \<Rightarrow>
     decides ph \<inter> consumed_keys (V st) = {} \<and> distinct (accepted evs) \<and>
     K \<union> set (accepted evs) \<subseteq> consumed_keys (V st) \<and> K \<inter> set (accepted evs) = {})"

lemma decides_move:
  assumes one: "one_decides (st, ph, evs)" and i: "ph i = CDecided sid t Valid"
  shows "decides (ph(i := CIdle)) = decides ph - {(sid, t)}"
proof (rule set_eqI)
  fix k :: "seed_id \<times> u64"
  obtain a b where k: "k = (a, b)" by (cases k)
  have self: "j = i" if "ph j = CDecided sid t out" for j out
    using one i that unfolding one_decides_def prod.case by blast
  show "k \<in> decides (ph(i := CIdle)) \<longleftrightarrow> k \<in> decides ph - {(sid, t)}"
  proof (cases "(a, b) = (sid, t)")
    case True
    have "(ph(i := CIdle)) j \<noteq> CDecided sid t Valid" for j
      using self [of j Valid] by (cases "j = i") auto
    with True show ?thesis by (simp add: k decides_def)
  next
    case False
    have "(ph(i := CIdle)) j = CDecided a b Valid \<longleftrightarrow> ph j = CDecided a b Valid" for j
      using False i by (cases "j = i") auto
    with False show ?thesis by (simp add: k decides_def)
  qed
qed

lemma serial_inv_step:
  assumes L: "crypto_ok L" and step: "conc_step L sdk x y" and one: "one_decides x"
    and inv: "conc_inv D x" "serial_inv K x"
  shows "serial_inv K y"
proof -
  obtain st ph evs st' ph' evs' where xy: "x = (st, ph, evs)" "y = (st', ph', evs')"
    by (metis prod_cases3)
  note s = inv(2) [unfolded xy serial_inv_def prod.case]
  from conc_step_decides [OF L step [unfolded xy] inv(1) [unfolded xy]] show ?thesis
  proof (elim disjE exE conjE)
    fix i sid t
    assume d: "ph i = CDecided sid t Valid" and "ph' = ph(i := CIdle)"
      and "consumed_keys (V st') = insert (sid, t) (consumed_keys (V st))"
      and "accepted evs' = accepted evs @ [(sid, t)]"
    moreover have "(sid, t) \<in> decides ph" using d by (auto simp: decides_def)
    ultimately show ?thesis
      using s decides_move [OF one [unfolded xy(1)] d] by (auto simp: xy(2) serial_inv_def)
  qed (use s in \<open>auto simp: xy(2) serial_inv_def\<close>)
qed

lemma serial_inv_reaches:
  assumes "crypto_ok L" and "serial_reaches L sdk x y" and "conc_inv D x" and "serial_inv K x"
    and "one_decides x"
  shows "conc_inv D y \<and> serial_inv K y \<and> one_decides y"
  using assms(2)
proof (induction rule: rtranclp_induct)
  case base
  show ?case using assms(3-5) by simp
next
  case (step y z)
  from step.hyps(2) have "conc_step L sdk y z" "one_decides z" by simp_all
  moreover from step.IH have "conc_inv D y" "serial_inv K y" "one_decides y" by simp_all
  ultimately show ?case using conc_inv_step [OF assms(1)] serial_inv_step [OF assms(1)] by blast
qed

lemma serial_inv_start:
  "serial_inv (consumed_keys (V st)) (conc_start st)" "one_decides (conc_start st)"
  by (auto simp: serial_inv_def conc_start_def decides_def one_decides_def)

lemma conc_safe:
  assumes "crypto_ok L" "I st" "conc_reaches L sdk (conc_start st) (st', ph, evs)"
  shows "distinct (charged evs) \<and> dom (ms_receipts (V st)) \<inter> set (charged evs) = {} \<and>
    dom (ms_receipts (V st')) = dom (ms_receipts (V st)) \<union> set (charged evs) \<and>
    set (accepted evs) \<subseteq> dom (ms_receipts (V st'))"
  using conc_invD [OF conc_inv_reaches [OF assms(1,3) conc_inv_start [OF assms(2)]]] consumed_dom
  by blast

lemma serial_safe:
  assumes "crypto_ok L" "I st" "serial_reaches L sdk (conc_start st) (st', ph, evs)"
  shows "distinct (accepted evs) \<and> consumed_keys (V st) \<inter> set (accepted evs) = {}"
  using serial_inv_reaches [OF assms(1,3) conc_inv_start [OF assms(2)] serial_inv_start]
  by (simp add: serial_inv_def)

end

section \<open>Calls one after the other\<close>

text \<open>A thread that runs alone makes a call in its steps: the runs of a single client are interleavings.\<close>

lemma alone_simps [simp]:
  "(\<lambda>_. CIdle)(i := CIdle) = (\<lambda>_. CIdle)"
  "one_decides (st, (\<lambda>_. CIdle)(i := p), evs)"
  "one_decides (st, \<lambda>_. CIdle, evs)"
  by (auto simp: one_decides_def split: if_splits)

lemma two_steps:
  assumes "conc_step L sdk (st, \<lambda>_. CIdle, evs) (st1, (\<lambda>_. CIdle)(i := p), evs1)"
    and "serial_reaches L sdk (st1, (\<lambda>_. CIdle)(i := p), evs1) y"
  shows "serial_reaches L sdk (st, \<lambda>_. CIdle, evs) y"
  using assms by (intro converse_rtranclp_into_rtranclp [OF _ assms(2)]) simp

lemma step_on:
  assumes "conc_step L sdk (st, (\<lambda>_. CIdle)(i := p), evs) (st1, (\<lambda>_. CIdle)(i := p'), evs1)"
    and "serial_reaches L sdk (st1, (\<lambda>_. CIdle)(i := p'), evs1) y"
  shows "serial_reaches L sdk (st, (\<lambda>_. CIdle)(i := p), evs) y"
  using assms by (intro converse_rtranclp_into_rtranclp [OF _ assms(2)]) simp

lemma last_step:
  assumes "conc_step L sdk (st1, (\<lambda>_. CIdle)(i := p), evs) (st2, ((\<lambda>_. CIdle)(i := p))(i := CIdle), evs2)"
  shows "serial_reaches L sdk (st1, (\<lambda>_. CIdle)(i := p), evs) (st2, \<lambda>_. CIdle, evs2)"
  using assms by (intro r_into_rtranclp) simp

lemma register_interleaves:
  assumes "seed_id_wf sid" and "sdk_step L sdk (Register e sid) st = (ev, st')"
  shows "serial_reaches L sdk (st, \<lambda>_. CIdle, evs) (st', \<lambda>_. CIdle, evs @ ev)"
proof -
  obtain er es where e: "e = (er, es)" by (cases e)
  show ?thesis
  proof (cases "sdk_rng sdk er SEED_LEN")
    case (Ok bs)
    obtain r st1 where put: "on_store (put_seed (sdk_store sdk) es sid (seed_from_bytes bs)) st = (r, st1)"
      by force
    have "st' = st1" "ev = []"
      using assms(2) put Ok by (cases r; auto simp: e register_def)+
    moreover have "conc_step L sdk (st, \<lambda>_. CIdle, evs)
        (st, (\<lambda>_. CIdle)(0 := CFilled sid (seed_from_bytes bs)), evs)"
      by (rule conc_step.reg_fill [OF _ assms(1) Ok]) simp
    moreover have "conc_step L sdk (st, (\<lambda>_. CIdle)(0 := CFilled sid (seed_from_bytes bs)), evs)
        (st1, ((\<lambda>_. CIdle)(0 := CFilled sid (seed_from_bytes bs)))(0 := CIdle), evs)"
      by (rule conc_step.reg_put [OF _ put]) simp
    ultimately show ?thesis using two_steps [OF _ last_step] by simp
  qed (use assms(2) in \<open>auto simp: e register_def\<close>)
qed

lemma generate_interleaves:
  assumes L: "crypto_ok L" and sid: "seed_id_wf sid"
    and step: "sdk_step L sdk (Generate e sid amount) st = (ev, st')"
  shows "serial_reaches L sdk (st, \<lambda>_. CIdle, evs) (st', \<lambda>_. CIdle, evs @ ev)"
proof -
  obtain e1 ec e2 where e: "e = (e1, ec, e2)" by (metis surj_pair)
  show ?thesis
  proof (cases "and_then (get_seed (sdk_store sdk) e1 sid (store_st st)) (ok_or UnknownSeed)")
    case (Ok s)
    let ?ph = "(\<lambda>_. CIdle)(0 := CSeeded sid amount s)"
    have seeded: "conc_step L sdk (st, \<lambda>_. CIdle, evs) (st, ?ph, evs)"
      by (rule conc_step.gen_seed [OF _ sid Ok]) simp
    obtain r1 st1 where cnt: "on_counter (sdk_counter sdk ec sid) st = (r1, st1)" by force
    show ?thesis
    proof (cases "is_ok r1")
      case True
      then obtain n where r1: "r1 = Ok n" by (auto simp: is_ok_iff)
      let ?ph' = "(\<lambda>_. CIdle)(0 := CCounted sid amount s n)"
      have counted: "conc_step L sdk (st, ?ph, evs) (st1, ?ph', evs)"
        using conc_step.gen_count [OF _ cnt [unfolded r1], of ?ph 0 amount s L evs] by simp
      obtain r2 st2 where
        save: "on_store (save_receipt (sdk_store sdk) e2 (receipt_spec L s sid n amount)) st1 = (r2, st2)"
        by force
      have app: "apply_generate_charge L s
          \<lparr> gc_seed_id = sid, gc_counter = n, gc_amount_cents = amount \<rparr> =
          (Ok \<lparr> co_charge = charge_spec L s sid n amount, co_retained = receipt_spec L s sid n amount \<rparr> ::
            charge_outcome mcpix)"
        by (simp add: apply_generate_charge_eq [OF L] sid)
      have saved: "conc_step L sdk (st1, ?ph', evs)
          (st2, ?ph'(0 := CIdle), evs @ (if r2 = Ok () then [Charged sid n] else []))"
        by (rule conc_step.gen_save [OF _ app, where es = e2]) (simp_all add: save)
      have eq: "st' = st2" "ev = (if r2 = Ok () then [Charged sid n] else [])"
        using step unfolding e by (cases r2; auto simp: generate_charge_def Ok cnt r1 app save)+
      show ?thesis
        unfolding eq by (rule two_steps [OF seeded step_on [OF counted last_step [OF saved]]])
    next
      case False
      have "conc_step L sdk (st, ?ph, evs) (st1, ?ph(0 := CIdle), evs)"
        by (rule conc_step.gen_no_count [OF _ cnt False]) simp
      moreover have "st' = st1" "ev = []"
        using step False unfolding e by (cases r1; auto simp: generate_charge_def Ok cnt)+
      ultimately show ?thesis using two_steps [OF seeded last_step] by simp
    qed
  qed (use step in \<open>auto simp: e generate_charge_def\<close>)
qed

lemma validate_interleaves:
  assumes sid: "seed_id_wf sid" and step: "sdk_step L sdk (Validate e sid t code) st = (ev, st')"
  shows "serial_reaches L sdk (st, \<lambda>_. CIdle, evs) (st', \<lambda>_. CIdle, evs @ ev)"
proof -
  obtain e1 e2 where e: "e = (e1, e2)" by (cases e)
  show ?thesis
  proof (cases "validate_read L sdk e1 sid t code (store_st st)")
    case (Ok out)
    let ?ph = "(\<lambda>_. CIdle)(0 := CDecided sid t out)"
    obtain r st1 where mark: "on_store (validate_mark sdk e2 sid t out) st = (r, st1)" by force
    have decided: "conc_step L sdk (st, \<lambda>_. CIdle, evs) (st, ?ph, evs)"
      by (rule conc_step.val_read [OF _ sid Ok]) simp
    have marked: "conc_step L sdk (st, ?ph, evs)
        (st1, ?ph(0 := CIdle), evs @ (if r = Ok Valid then [Accepted sid t] else []))"
      by (rule conc_step.val_mark [OF _ mark]) simp
    have eq: "st' = st1" "ev = (if r = Ok Valid then [Accepted sid t] else [])"
      using step mark
      by (auto simp: e validate_receipt_def Ok split: outcome.splits validation_outcome.splits)
    show ?thesis unfolding eq by (rule two_steps [OF decided last_step [OF marked]])
  qed (use step in \<open>auto simp: e validate_receipt_def\<close>)
qed

lemma sdk_run_interleaves:
  assumes "crypto_ok L"
  shows "\<forall>call \<in> set calls. seed_id_wf (call_seed_id call) \<Longrightarrow> sdk_run L sdk calls st = (ev, st') \<Longrightarrow>
    serial_reaches L sdk (st, \<lambda>_. CIdle, evs) (st', \<lambda>_. CIdle, evs @ ev)"
proof (induction calls arbitrary: st ev st' evs)
  case (Cons call calls)
  obtain ev1 st1 where s1: "sdk_step L sdk call st = (ev1, st1)" by force
  obtain ev2 st2 where s2: "sdk_run L sdk calls st1 = (ev2, st2)" by force
  have one: "serial_reaches L sdk (st, \<lambda>_. CIdle, evs) (st1, \<lambda>_. CIdle, evs @ ev1)"
    by (cases call) (use Cons.prems(1) s1 in \<open>auto simp del: sdk_step.simps
      intro: register_interleaves generate_interleaves [OF assms] validate_interleaves\<close>)
  have rest: "serial_reaches L sdk (st1, \<lambda>_. CIdle, evs @ ev1) (st2, \<lambda>_. CIdle, (evs @ ev1) @ ev2)"
    by (rule Cons.IH [OF _ s2]) (use Cons.prems(1) in simp)
  have eq: "ev = ev1 @ ev2" "st' = st2" using Cons.prems(2) s1 s2 by auto
  show ?case unfolding eq append_assoc [symmetric] by (rule rtranclp_trans [OF one rest])
qed simp

lemma serial_conc: "serial_reaches L sdk x y \<Longrightarrow> conc_reaches L sdk x y"
  by (induction rule: rtranclp_induct) (auto intro: rtranclp.rtrancl_into_rtrancl)

lemma demo_interleaving:
  "\<exists>st. serial_reaches demo_crypto default_sdk (conc_start default_init)
     (st, \<lambda>_. CIdle, [Charged demo_sid 1, Accepted demo_sid 1])"
proof -
  have "sdk_run demo_crypto default_sdk demo_calls default_init =
      ([Charged demo_sid 1, Accepted demo_sid 1], snd (sdk_run demo_crypto default_sdk demo_calls default_init))"
    by (simp add: demo_calls_run [symmetric])
  moreover have "\<forall>call \<in> set demo_calls. seed_id_wf (call_seed_id call)" by (simp add: demo_calls_def)
  ultimately show ?thesis
    using sdk_run_interleaves [OF demo_crypto_ok, where evs = "[]"] by (fastforce simp: conc_start_def)
qed

section \<open>Properties\<close>

text \<open>
  C7. However any number of threads interleave their registrations, charges and presentations on
  one receiver, no counter is charged twice, every charge that was handed out still has its
  receipt (none was overwritten by another thread's), and only charged codes are accepted.
\<close>
theorem concurrent_charges_never_collide:
  assumes "crypto_ok L"
    and "conc_reaches L default_sdk (conc_start default_init) (st, ph, evs)"
  shows "distinct (charged evs) \<and> dom (ms_receipts (store_st st)) = set (charged evs) \<and>
    set (accepted evs) \<subseteq> set (charged evs)"
  using default_rx.conc_safe [OF assms(1) default_init_inv assms(2)]
  by (auto simp: default_init_def mem_store_new_def)

theorem concurrent_charges_never_collide_witness:
  "\<exists>st :: (mem_store, mem_counter) sdk_state. distinct (charged [Charged demo_sid 1, Accepted demo_sid 1]) \<and>
    dom (ms_receipts (store_st st)) = {(demo_sid, 1)} \<and>
    set (accepted [Charged demo_sid 1, Accepted demo_sid 1]) = {(demo_sid, 1)}"
proof -
  from demo_interleaving obtain st where
    "serial_reaches demo_crypto default_sdk (conc_start default_init)
       (st, \<lambda>_. CIdle, [Charged demo_sid 1, Accepted demo_sid 1])" by blast
  from concurrent_charges_never_collide [OF demo_crypto_ok serial_conc [OF this]]
  show ?thesis by (intro exI [of _ st]) simp
qed

text \<open>
  One lock over a whole validation would be enough: if no two threads ever hold a decision on
  the same receipt, each charge is accepted at most once under any interleaving of everything
  else, also of the threads that charge and register.
\<close>
theorem serialised_validation_accepts_once:
  assumes "crypto_ok L"
    and "serial_reaches L default_sdk (conc_start default_init) (st, ph, evs)"
  shows "distinct (accepted evs)"
  using default_rx.serial_safe [OF assms(1) default_init_inv assms(2)] by blast

theorem serialised_validation_accepts_once_witness:
  "distinct (accepted [Charged demo_sid 1, Accepted demo_sid 1])"
proof -
  from demo_interleaving obtain st where
    "serial_reaches demo_crypto default_sdk (conc_start default_init)
       (st, \<lambda>_. CIdle, [Charged demo_sid 1, Accepted demo_sid 1])" by blast
  from serialised_validation_accepts_once [OF demo_crypto_ok this] show ?thesis .
qed

end
