(* ===== verification/SqliteStore.thy ===== *)
theory SqliteStore
  imports SeedStores
begin

text \<open>
  \<^verbatim>\<open>mcpix-receiver-sdk/src/sqlite_store.rs\<close>: the store over SQLite.

  The two tables are maps from their primary keys, with the columns the schema gives them; the
  statements the source sends are modelled as what SQL makes of them on these tables
  (\<^verbatim>\<open>INSERT OR REPLACE\<close> replaces the row of the key, \<^verbatim>\<open>UPDATE .. WHERE\<close> reports the number of
  rows it changed). An \<^verbatim>\<open>INTEGER\<close> column holds a signed 64-bit value, and the casts
  \<^verbatim>\<open>as i64\<close> and \<^verbatim>\<open>as u64\<close> are explicit. The environment of a call says whether the engine fails
  in it, and with which message; a failed statement changes no row.
\<close>

record receipt_row =
  row_amount_cents :: int
  row_expected_c2 :: bytes
  row_consumed :: int

record sqlite_db =
  db_seeds :: "bytes \<rightharpoonup> bytes"
  db_receipts :: "bytes \<times> int \<rightharpoonup> receipt_row"

record sqlite_env =
  sql_fault :: "bytes option"
  utf8_error_text :: bytes

definition as_i64 :: "u64 \<Rightarrow> int" where
  "as_i64 w = sint w"

definition i64_as_u64 :: "int \<Rightarrow> u64" where
  "i64_as_u64 i = word_of_int i"

text \<open>\<^verbatim>\<open>map_err\<close> on the result of a statement.\<close>

definition sql :: "sqlite_env \<Rightarrow> 'a \<Rightarrow> 'a mcpix" where
  "sql e v = (case sql_fault e of Some m \<Rightarrow> Err (Storage m) | None \<Rightarrow> Ok v)"

text \<open>\<^verbatim>\<open>CREATE TABLE IF NOT EXISTS\<close>, so the schema step keeps what a file already holds.\<close>

definition sqlite_init_schema :: "sqlite_env \<Rightarrow> sqlite_db \<Rightarrow> unit mcpix \<times> sqlite_db" where
  "sqlite_init_schema e db = (sql e (), db)"

definition sqlite_open_in_memory :: "sqlite_env \<Rightarrow> sqlite_env \<Rightarrow> sqlite_db mcpix" where
  "sqlite_open_in_memory e1 e2 =
     and_then (sql e1 \<lparr> db_seeds = Map.empty, db_receipts = Map.empty \<rparr>) (\<lambda>conn.
     let (r, db) = sqlite_init_schema e2 conn in map_ok (\<lambda>_. db) r)"

definition sqlite_open :: "sqlite_env \<Rightarrow> sqlite_env \<Rightarrow> sqlite_db \<Rightarrow> sqlite_db mcpix" where
  "sqlite_open e1 e2 file =
     and_then (sql e1 file) (\<lambda>conn.
     let (r, db) = sqlite_init_schema e2 conn in map_ok (\<lambda>_. db) r)"

definition sqlite_put_seed ::
  "sqlite_env \<Rightarrow> seed_id \<Rightarrow> seed \<Rightarrow> sqlite_db \<Rightarrow> unit mcpix \<times> sqlite_db" where
  "sqlite_put_seed e sid s db =
     st_then (sql e (), db) (\<lambda>_ db.
       (Ok (), db \<lparr> db_seeds := (db_seeds db)(sid_as_str sid \<mapsto> seed_as_bytes s) \<rparr>))"

definition sqlite_get_seed :: "sqlite_env \<Rightarrow> seed_id \<Rightarrow> sqlite_db \<Rightarrow> seed option mcpix" where
  "sqlite_get_seed e sid db =
     and_then (sql e (db_seeds db (sid_as_str sid))) (\<lambda>row.
     case row of
       Some material \<Rightarrow> map_ok Some (seed_try_from_slice material)
     | None \<Rightarrow> Ok None)"

definition sqlite_save_receipt ::
  "sqlite_env \<Rightarrow> receipt \<Rightarrow> sqlite_db \<Rightarrow> unit mcpix \<times> sqlite_db" where
  "sqlite_save_receipt e r db =
     st_then (c2_as_str (rr_expected_c2 r), db) (\<lambda>c2_bytes db.
     st_then (sql e (), db) (\<lambda>_ db.
     (Ok (), db \<lparr> db_receipts := (db_receipts db)
        ((sid_as_str (rr_seed_id r), as_i64 (rr_counter r)) \<mapsto>
           \<lparr> row_amount_cents = as_i64 (rr_amount_cents r), row_expected_c2 = c2_bytes,
             row_consumed = (if rr_consumed r then 1 else 0) \<rparr>) \<rparr>)))"

definition sqlite_get_receipt ::
  "sqlite_env \<Rightarrow> seed_id \<Rightarrow> u64 \<Rightarrow> sqlite_db \<Rightarrow> receipt option mcpix" where
  "sqlite_get_receipt e sid counter db =
     and_then (sql e (db_receipts db (sid_as_str sid, as_i64 counter))) (\<lambda>row.
     case row of
       Some row \<Rightarrow>
         if length (row_expected_c2 row) \<noteq> C2_TRANSPORT_LEN
         then Err (Storage (ascii ''malformed C2 in row''))
         else if \<not> utf8_valid (row_expected_c2 row) then Err (Storage (utf8_error_text e))
         else and_then (c2_parse (row_expected_c2 row)) (\<lambda>c2.
           Ok (Some \<lparr> rr_seed_id = sid, rr_counter = counter,
                      rr_amount_cents = i64_as_u64 (row_amount_cents row), rr_expected_c2 = c2,
                      rr_consumed = (row_consumed row \<noteq> 0) \<rparr>))
     | None \<Rightarrow> Ok None)"

definition sqlite_mark_consumed ::
  "sqlite_env \<Rightarrow> seed_id \<Rightarrow> u64 \<Rightarrow> sqlite_db \<Rightarrow> unit mcpix \<times> sqlite_db" where
  "sqlite_mark_consumed e sid counter db =
     (let key = (sid_as_str sid, as_i64 counter);
          n = (case db_receipts db key of Some _ \<Rightarrow> 1 | None \<Rightarrow> (0 :: nat))
      in st_then (sql e n, db) (\<lambda>n db.
         let db' = (case db_receipts db key of
             Some row \<Rightarrow>
               db \<lparr> db_receipts := (db_receipts db)(key \<mapsto> row \<lparr> row_consumed := 1 \<rparr>) \<rparr>
           | None \<Rightarrow> db)
         in if n = 0 then (Err NoRetainedReceipt, db') else (Ok (), db')))"

definition sqlite_store_ops :: "(sqlite_env, sqlite_db) seed_store_ops" where
  "sqlite_store_ops =
     \<lparr> put_seed = sqlite_put_seed, get_seed = sqlite_get_seed,
       save_receipt = sqlite_save_receipt, get_receipt = sqlite_get_receipt,
       mark_consumed = sqlite_mark_consumed \<rparr>"

section \<open>The store meets the contract\<close>

lemma i64_casts [simp]: "i64_as_u64 (as_i64 w) = w"
  by (simp add: i64_as_u64_def as_i64_def)

lemma as_i64_inject [simp]: "as_i64 a = as_i64 b \<longleftrightarrow> a = b"
  by (metis i64_casts)

lemma sid_as_str_inject [simp]: "sid_as_str a = sid_as_str b \<longleftrightarrow> a = b"
  by (auto intro: seed_id.expand)

definition row_receipt :: "seed_id \<Rightarrow> u64 \<Rightarrow> receipt_row \<Rightarrow> receipt" where
  "row_receipt sid t row =
     \<lparr> rr_seed_id = sid, rr_counter = t, rr_amount_cents = i64_as_u64 (row_amount_cents row),
       rr_expected_c2 = C2 (row_expected_c2 row), rr_consumed = (row_consumed row \<noteq> 0) \<rparr>"

definition sqlite_view :: "sqlite_db \<Rightarrow> mem_store" where
  "sqlite_view db =
     \<lparr> ms_seeds = (\<lambda>sid. map_option Seed (db_seeds db (sid_as_str sid))),
       ms_receipts = (\<lambda>(sid, t).
         map_option (row_receipt sid t) (db_receipts db (sid_as_str sid, as_i64 t))) \<rparr>"

definition sqlite_inv :: "sqlite_db \<Rightarrow> bool" where
  "sqlite_inv db \<longleftrightarrow> store_view_wf (sqlite_view db)"

lemma sql_Ok_iff: "sql e v = Ok w \<longleftrightarrow> sql_fault e = None \<and> w = v"
  by (auto simp: sql_def split: option.splits)

lemma sql_None [simp]: "sql_fault e = None \<Longrightarrow> sql e v = Ok v"
  by (simp add: sql_def)

lemma sql_Some [simp]: "sql_fault e = Some m \<Longrightarrow> sql e v = Err (Storage m)"
  by (simp add: sql_def)

lemma sqlite_view_put:
  "sqlite_view (db \<lparr> db_seeds := (db_seeds db)(sid_as_str sid \<mapsto> seed_as_bytes s) \<rparr>) =
   snd (mem_put_seed sid s (sqlite_view db))"
  by (auto simp: sqlite_view_def mem_put_seed_def fun_eq_iff)

lemma row_receipt_saved:
  "rr_consumed q = (k \<noteq> 0) \<Longrightarrow> row_receipt (rr_seed_id q) (rr_counter q)
     \<lparr> row_amount_cents = as_i64 (rr_amount_cents q), row_expected_c2 = c2_chars (rr_expected_c2 q),
       row_consumed = k \<rparr> = q"
  by (rule receipt.equality) (simp_all add: row_receipt_def)

lemma sqlite_view_save:
  "sqlite_view (db \<lparr> db_receipts := (db_receipts db)
     ((sid_as_str (rr_seed_id q), as_i64 (rr_counter q)) \<mapsto>
        \<lparr> row_amount_cents = as_i64 (rr_amount_cents q), row_expected_c2 = c2_chars (rr_expected_c2 q),
          row_consumed = (if rr_consumed q then 1 else 0) \<rparr>) \<rparr>) =
   snd (mem_save_receipt q (sqlite_view db))"
  by (auto simp: sqlite_view_def mem_save_receipt_def Let_def fun_eq_iff row_receipt_saved)

lemma sqlite_view_mark:
  "db_receipts db (sid_as_str sid, as_i64 t) = Some row \<Longrightarrow>
   sqlite_view (db \<lparr> db_receipts := (db_receipts db)
     ((sid_as_str sid, as_i64 t) \<mapsto> row \<lparr> row_consumed := 1 \<rparr>) \<rparr>) =
   snd (mem_mark_consumed sid t (sqlite_view db))"
  by (auto simp: sqlite_view_def mem_mark_consumed_def fun_eq_iff row_receipt_def)

lemma sqlite_get_receipt_eq:
  assumes "sqlite_inv db" and "sql_fault e = None"
  shows "sqlite_get_receipt e sid t db = Ok (ms_receipts (sqlite_view db) (sid, t))"
proof (cases "db_receipts db (sid_as_str sid, as_i64 t)")
  case None
  with assms show ?thesis by (simp add: sqlite_get_receipt_def sqlite_view_def)
next
  case (Some row)
  then have "ms_receipts (sqlite_view db) (sid, t) = Some (row_receipt sid t row)"
    by (simp add: sqlite_view_def)
  then have "receipt_wf (row_receipt sid t row)"
    using assms(1) by (auto simp: sqlite_inv_def store_view_wf_def)
  then have "c2_wf (C2 (row_expected_c2 row))" by (simp add: receipt_wf_def row_receipt_def)
  moreover from this have "utf8_valid (row_expected_c2 row)" "length (row_expected_c2 row) = 11"
    by (auto simp: c2_wf_def utf8_valid_alnum)
  ultimately show ?thesis
    using Some assms(2)
    by (simp add: sqlite_get_receipt_def sqlite_view_def C2_TRANSPORT_LEN_def
        c2_parse_Ok_iff [THEN iffD2] row_receipt_def)
qed

interpretation sqlite: seed_store sqlite_store_ops sqlite_view sqlite_inv
proof (unfold_locales, goal_cases)
  case (1 st sid s e r st')
  show ?case
  proof (cases "sql_fault e")
    case None
    with 1 mem_view_wf_preserved(1) [of "sqlite_view st" s sid] sqlite_view_put [of st sid s]
    show ?thesis by (auto simp: sqlite_store_ops_def sqlite_put_seed_def sqlite_inv_def)
  qed (use 1 in \<open>auto simp: sqlite_store_ops_def sqlite_put_seed_def\<close>)
next
  case (2 st sid e x)
  then show ?case
    by (auto simp: sqlite_store_ops_def sqlite_get_seed_def sqlite_view_def outcome_simps
        sql_Ok_iff split: option.splits)
next
  case (3 st q e r st')
  then have c2: "c2_as_str (rr_expected_c2 q) = (Ok (c2_chars (rr_expected_c2 q)) :: bytes mcpix)"
    by (simp add: receipt_wf_def)
  show ?case
  proof (cases "sql_fault e")
    case None
    with 3 c2 mem_view_wf_preserved(2) [of "sqlite_view st" q] sqlite_view_save [of st q]
    show ?thesis by (auto simp: sqlite_store_ops_def sqlite_save_receipt_def sqlite_inv_def)
  qed (use 3 c2 in \<open>auto simp: sqlite_store_ops_def sqlite_save_receipt_def\<close>)
next
  case (4 st sid e t y)
  then have "sql_fault e = None"
    by (auto simp: sqlite_store_ops_def sqlite_get_receipt_def outcome_simps sql_Ok_iff)
  with 4 sqlite_get_receipt_eq [of st e sid t] show ?case by (simp add: sqlite_store_ops_def)
next
  case (5 st sid e t r st')
  show ?case
  proof (cases "sql_fault e")
    case (Some m)
    with 5 show ?thesis by (auto simp: sqlite_store_ops_def sqlite_mark_consumed_def Let_def)
  next
    case None
    note fault = this
    show ?thesis
    proof (cases "db_receipts st (sid_as_str sid, as_i64 t)")
      case None
      with 5 fault show ?thesis
        by (auto simp: sqlite_store_ops_def sqlite_mark_consumed_def Let_def)
    next
      case (Some row)
      with 5 fault mem_view_wf_preserved(3) [of "sqlite_view st" sid t] sqlite_view_mark [OF Some]
      show ?thesis
        by (auto simp: sqlite_store_ops_def sqlite_mark_consumed_def Let_def sqlite_inv_def
            sqlite_view_def)
    qed
  qed
next
  case (6 st)
  then show ?case by (simp add: sqlite_inv_def)
qed

section \<open>Properties\<close>

lemma sqlite_empty:
  "sqlite_open_in_memory e1 e2 = Ok db \<Longrightarrow> sqlite_inv db \<and> sqlite_view db = mem_store_new"
  by (auto simp: sqlite_open_in_memory_def sqlite_init_schema_def outcome_simps sql_Ok_iff
      sqlite_inv_def sqlite_view_def store_view_wf_def mem_store_new_def fun_eq_iff)

text \<open>
  C17. Over any sequence of calls and any faults of the engine, a fresh SQLite store behaves as
  the in-memory store on the calls that succeed, for every counter and amount of 64 bits: the
  casts through the signed column lose nothing and identify no two counters.
\<close>
theorem sqlite_store_refines_memory:
  assumes "sqlite_open_in_memory e1 e2 = Ok db" and "\<forall>(e, c) \<in> set calls. call_wf c"
    and "store_run sqlite_store_ops calls db = (log, db')"
  shows "store_run mem_store_ops (map (\<lambda>(c, x). ((), c)) log) mem_store_new =
    (log, sqlite_view db')"
  using sqlite.run_refines [of db calls log db'] sqlite_empty [OF assms(1)] assms(2,3) by simp

theorem sqlite_store_refines_memory_witness:
  "let ok = \<lparr> sql_fault = None, utf8_error_text = [] \<rparr>;
       bad = \<lparr> sql_fault = Some [88], utf8_error_text = [] \<rparr>;
       q = \<lparr> rr_seed_id = SeedId [65], rr_counter = - 1, rr_amount_cents = - 1,
             rr_expected_c2 = C2 (replicate 11 65), rr_consumed = False \<rparr>;
       calls = [(ok, SaveReceipt q), (bad, MarkConsumed (SeedId [65]) (- 1)),
                (ok, GetReceipt (SeedId [65]) (- 1))];
       db = \<lparr> db_seeds = Map.empty, db_receipts = Map.empty \<rparr>;
       (log, db') = store_run sqlite_store_ops calls db in
   log = [(SaveReceipt q, Done), (GetReceipt (SeedId [65]) (- 1), ReceiptReply (Some q))] \<and>
   store_run mem_store_ops (map (\<lambda>(c, x). ((), c)) log) mem_store_new = (log, sqlite_view db')"
proof -
  let ?ok = "\<lparr> sql_fault = None, utf8_error_text = [] \<rparr> :: sqlite_env"
  let ?bad = "\<lparr> sql_fault = Some [88], utf8_error_text = [] \<rparr> :: sqlite_env"
  let ?q = "\<lparr> rr_seed_id = SeedId [65], rr_counter = - 1, rr_amount_cents = - 1,
             rr_expected_c2 = C2 (replicate 11 65), rr_consumed = False \<rparr>"
  let ?calls = "[(?ok, SaveReceipt ?q), (?bad, MarkConsumed (SeedId [65]) (- 1)),
                (?ok, GetReceipt (SeedId [65]) (- 1))]"
  let ?db = "\<lparr> db_seeds = Map.empty, db_receipts = Map.empty \<rparr> :: sqlite_db"
  obtain log db' where run: "store_run sqlite_store_ops ?calls ?db = (log, db')" by force
  have o: "sqlite_open_in_memory ?ok ?ok = Ok ?db"
    by (simp add: sqlite_open_in_memory_def sqlite_init_schema_def)
  have wf: "\<forall>(e, c) \<in> set ?calls. call_wf c"
    by (simp add: receipt_wf_def c2_wf_def seed_id_wf_def is_alnum_def is_digit_def)
  have c2: "utf8_valid (replicate 11 65)" "c2_parse (replicate 11 65) = Ok (C2 (replicate 11 65))"
    by (simp_all add: c2_parse_Ok_iff c2_wf_def is_alnum_def is_digit_def utf8_valid_ascii)
  then have "log = [(SaveReceipt ?q, Done), (GetReceipt (SeedId [65]) (- 1), ReceiptReply (Some ?q))]"
    using run
    by (simp add: sqlite_store_ops_def sqlite_save_receipt_def sqlite_mark_consumed_def Let_def
        sqlite_get_receipt_def c2_as_str_def C2_TRANSPORT_LEN_def)
  with sqlite_store_refines_memory [OF o wf run] run show ?thesis by (simp only: Let_def prod.case)
qed

end
