(* ===== verification/SealedStore.thy ===== *)
theory SealedStore
  imports SeedStores
begin

text \<open>
  \<^verbatim>\<open>mcpix-receiver-sdk/src/sealed_store.rs\<close>: the \<^verbatim>\<open>SeedSealer\<close> trait, the ChaCha20-Poly1305
  sealer and the store that keeps seeds only in sealed form.

  The AEAD is a third-party crate: the parameter \<open>aead\<close> of \<open>Crypto\<close>.
\<close>

section \<open>The sealers\<close>

record 'e seed_sealer =
  seal :: "'e \<Rightarrow> seed \<Rightarrow> bytes mcpix"
  unseal :: "bytes \<Rightarrow> seed mcpix"

text \<open>\<^verbatim>\<open>attestation\<close> has a default: no attestation.\<close>

definition attestation_default :: "bytes option mcpix" where
  "attestation_default = Ok None"

definition NONCE_LEN :: nat where "NONCE_LEN = 12"
definition TAG_LEN :: nat where "TAG_LEN = 16"
definition SEALED_BLOB_LEN :: nat where "SEALED_BLOB_LEN = NONCE_LEN + SEED_LEN + TAG_LEN"

text \<open>
  The environment of one \<^verbatim>\<open>seal\<close> is what the operating system's generator delivers: an error
  message or a stream of bytes.
\<close>

definition chacha_seal :: "aead \<Rightarrow> bytes \<Rightarrow> bytes + (nat \<Rightarrow> byte) \<Rightarrow> seed \<Rightarrow> bytes mcpix" where
  "chacha_seal A key os plain =
     and_then (case os of
         Inl m \<Rightarrow> Err (Storage (ascii ''seal: rng: '' @ m))
       | Inr stream \<Rightarrow> Ok (map stream [0 ..< NONCE_LEN])) (\<lambda>nonce.
     and_then (ok_or (Storage (ascii ''seal: aead encrypt failed''))
                 (aead_encrypt A key nonce (seed_as_bytes plain) [])) (\<lambda>ct_and_tag.
     if length ct_and_tag = SEED_LEN + TAG_LEN then Ok (nonce @ ct_and_tag) else Panic))"

definition chacha_unseal :: "aead \<Rightarrow> bytes \<Rightarrow> bytes \<Rightarrow> seed mcpix" where
  "chacha_unseal A key blob =
     (if length blob \<noteq> SEALED_BLOB_LEN
      then Err (Storage (ascii ''unseal: bad blob length '' @ show_nat (length blob)
             @ ascii '' (expected '' @ show_nat SEALED_BLOB_LEN @ ascii '')''))
      else
        let nonce = take NONCE_LEN blob in
        and_then (ok_or (Storage (ascii ''unseal: aead decrypt failed (tampered or wrong key)''))
                    (aead_decrypt A key nonce (drop NONCE_LEN blob) [])) (\<lambda>pt.
        if length pt \<noteq> SEED_LEN
        then Err (Storage (ascii ''unseal: bad plaintext length '' @ show_nat (length pt)))
        else map_ok seed_from_bytes (copy_from_slice_oc SEED_LEN pt)))"

definition chacha_sealer :: "aead \<Rightarrow> bytes \<Rightarrow> (bytes + (nat \<Rightarrow> byte)) seed_sealer" where
  "chacha_sealer A key = \<lparr> seal = chacha_seal A key, unseal = chacha_unseal A key \<rparr>"

text \<open>What the store relies on: a sealed seed unseals to itself.\<close>

definition sealer_ok :: "'e seed_sealer \<Rightarrow> bool" where
  "sealer_ok W \<longleftrightarrow> (\<forall>e s b. seed_wf s \<longrightarrow> seal W e s = Ok b \<longrightarrow> unseal W b = Ok s)"

section \<open>The store\<close>

record sealed_store =
  sl_seeds :: "seed_id \<rightharpoonup> bytes"
  sl_receipts :: "seed_id \<times> u64 \<rightharpoonup> receipt"

definition sealed_store_new :: sealed_store where
  "sealed_store_new = \<lparr> sl_seeds = Map.empty, sl_receipts = Map.empty \<rparr>"

definition peek_sealed_blob :: "seed_id \<Rightarrow> sealed_store \<Rightarrow> bytes option" where
  "peek_sealed_blob sid st = sl_seeds st sid"

definition sealed_put_seed ::
  "'e seed_sealer \<Rightarrow> 'e \<Rightarrow> seed_id \<Rightarrow> seed \<Rightarrow> sealed_store \<Rightarrow> unit mcpix \<times> sealed_store" where
  "sealed_put_seed W e sid s st =
     st_then (seal W e s, st) (\<lambda>blob st.
       (Ok (), st \<lparr> sl_seeds := (sl_seeds st)(sid \<mapsto> blob) \<rparr>))"

definition sealed_get_seed ::
  "'e seed_sealer \<Rightarrow> seed_id \<Rightarrow> sealed_store \<Rightarrow> seed option mcpix" where
  "sealed_get_seed W sid st =
     (case sl_seeds st sid of
        None \<Rightarrow> Ok None
      | Some blob \<Rightarrow> map_ok Some (unseal W blob))"

definition sealed_save_receipt :: "receipt \<Rightarrow> sealed_store \<Rightarrow> unit mcpix \<times> sealed_store" where
  "sealed_save_receipt r st =
     (Ok (), st \<lparr> sl_receipts := (sl_receipts st)((rr_seed_id r, rr_counter r) \<mapsto> r) \<rparr>)"

definition sealed_get_receipt :: "seed_id \<Rightarrow> u64 \<Rightarrow> sealed_store \<Rightarrow> receipt option mcpix" where
  "sealed_get_receipt sid counter st = Ok (sl_receipts st (sid, counter))"

definition sealed_mark_consumed ::
  "seed_id \<Rightarrow> u64 \<Rightarrow> sealed_store \<Rightarrow> unit mcpix \<times> sealed_store" where
  "sealed_mark_consumed sid counter st =
     (case sl_receipts st (sid, counter) of
        Some r \<Rightarrow>
          (Ok (), st \<lparr> sl_receipts :=
             (sl_receipts st)((sid, counter) \<mapsto> r \<lparr> rr_consumed := True \<rparr>) \<rparr>)
      | None \<Rightarrow> (Err NoRetainedReceipt, st))"

definition sealed_store_ops :: "'e seed_sealer \<Rightarrow> ('e, sealed_store) seed_store_ops" where
  "sealed_store_ops W =
     \<lparr> put_seed = sealed_put_seed W, get_seed = \<lambda>e. sealed_get_seed W,
       save_receipt = \<lambda>e. sealed_save_receipt, get_receipt = \<lambda>e. sealed_get_receipt,
       mark_consumed = \<lambda>e. sealed_mark_consumed \<rparr>"

section \<open>Sealing is invertible\<close>

lemma chacha_seal_Ok:
  "chacha_seal A key os s = Ok b \<Longrightarrow>
   \<exists>stream ct. os = Inr stream \<and> b = map stream [0 ..< 12] @ ct \<and> length ct = 48 \<and>
     aead_encrypt A key (map stream [0 ..< 12]) (seed_as_bytes s) [] = Some ct"
  by (auto simp: chacha_seal_def outcome_simps NONCE_LEN_def SEED_LEN_def TAG_LEN_def
      split: sum.splits if_splits)

lemma chacha_sealer_ok:
  assumes "aead_ok A"
  shows "sealer_ok (chacha_sealer A key)"
  unfolding sealer_ok_def
proof (intro allI impI)
  fix e s b
  assume "seed_wf s" and "seal (chacha_sealer A key) e s = Ok b"
  then obtain stream ct where b: "b = map stream [0 ..< 12] @ ct" "length ct = 48"
    "aead_encrypt A key (map stream [0 ..< 12]) (seed_as_bytes s) [] = Some ct"
    using chacha_seal_Ok by (force simp: chacha_sealer_def)
  with assms have "aead_decrypt A key (map stream [0 ..< 12]) ct [] = Some (seed_as_bytes s)"
    by (auto simp: aead_ok_def)
  with b \<open>seed_wf s\<close> show "unseal (chacha_sealer A key) b = Ok s"
    by (simp add: chacha_sealer_def chacha_unseal_def SEALED_BLOB_LEN_def NONCE_LEN_def
        SEED_LEN_def TAG_LEN_def seed_wf_def copy_from_slice_oc_def seed_from_bytes_def)
qed

section \<open>The store meets the contract\<close>

definition sealed_view :: "'e seed_sealer \<Rightarrow> sealed_store \<Rightarrow> mem_store" where
  "sealed_view W st =
     \<lparr> ms_seeds = (\<lambda>sid. case sl_seeds st sid of
         None \<Rightarrow> None
       | Some blob \<Rightarrow> (case unseal W blob of Ok s \<Rightarrow> Some s | _ \<Rightarrow> None)),
       ms_receipts = sl_receipts st \<rparr>"

definition sealed_inv :: "'e seed_sealer \<Rightarrow> sealed_store \<Rightarrow> bool" where
  "sealed_inv W st \<longleftrightarrow> sealer_ok W \<and> store_view_wf (sealed_view W st) \<and>
     (\<forall>sid blob. sl_seeds st sid = Some blob \<longrightarrow> (\<exists>s. unseal W blob = Ok s))"

lemma sealed_view_put:
  "unseal W blob = Ok s \<Longrightarrow>
   sealed_view W (st \<lparr> sl_seeds := (sl_seeds st)(sid \<mapsto> blob) \<rparr>) =
   snd (mem_put_seed sid s (sealed_view W st))"
  by (auto simp: sealed_view_def mem_put_seed_def)

lemma sealed_view_save:
  "sealed_view W (snd (sealed_save_receipt q st)) = snd (mem_save_receipt q (sealed_view W st))"
  by (simp add: sealed_view_def sealed_save_receipt_def mem_save_receipt_def Let_def)

lemma sealed_view_mark:
  "sealed_view W (snd (sealed_mark_consumed sid t st)) =
   snd (mem_mark_consumed sid t (sealed_view W st))"
  by (simp add: sealed_view_def sealed_mark_consumed_def mem_mark_consumed_def split: option.splits)

interpretation sealed: seed_store "sealed_store_ops W" "sealed_view W" "sealed_inv W"
  for W :: "'e seed_sealer"
proof (unfold_locales, goal_cases)
  case (1 st sid s e r st')
  show ?case
  proof (cases "seal W e s")
    case (Ok blob)
    with 1 have "unseal W blob = Ok s" by (auto simp: sealed_inv_def sealer_ok_def)
    with 1 Ok mem_view_wf_preserved(1) [of "sealed_view W st" s sid] sealed_view_put [of W blob s st sid]
    show ?thesis by (auto simp: sealed_store_ops_def sealed_put_seed_def sealed_inv_def split: if_splits)
  qed (use 1 in \<open>auto simp: sealed_store_ops_def sealed_put_seed_def\<close>)
next
  case (2 st sid e x)
  then show ?case
    by (auto simp: sealed_store_ops_def sealed_get_seed_def sealed_view_def outcome_simps
        split: option.splits)
next
  case (3 st q e r st')
  then have "st' = snd (sealed_save_receipt q st)" "r = Ok ()" "sl_seeds st' = sl_seeds st"
    by (auto simp: sealed_store_ops_def sealed_save_receipt_def)
  with 3 mem_view_wf_preserved(2) [of "sealed_view W st" q] sealed_view_save [of W q st]
  show ?case by (simp add: sealed_inv_def)
next
  case (4 st sid e t y)
  then show ?case by (simp add: sealed_store_ops_def sealed_get_receipt_def sealed_view_def)
next
  case (5 st sid e t r st')
  then have "st' = snd (sealed_mark_consumed sid t st)" "sl_seeds st' = sl_seeds st"
    "r = Ok () \<longrightarrow> sl_receipts st (sid, t) \<noteq> None" "r \<noteq> Ok () \<longrightarrow> st' = st"
    by (auto simp: sealed_store_ops_def sealed_mark_consumed_def split: option.splits)
  with 5 mem_view_wf_preserved(3) [of "sealed_view W st" sid t] sealed_view_mark [of W sid t st]
  show ?case by (auto simp: sealed_inv_def sealed_view_def)
next
  case (6 st)
  then show ?case by (simp add: sealed_inv_def)
qed

lemma sealed_new_inv: "sealer_ok W \<Longrightarrow> sealed_inv W sealed_store_new"
  by (simp add: sealed_inv_def sealed_view_def sealed_store_new_def store_view_wf_def)

lemma sealed_new_view: "sealed_view W sealed_store_new = mem_store_new"
  by (simp add: sealed_view_def sealed_store_new_def mem_store_new_def)

section \<open>Properties\<close>

text \<open>
  Over any sequence of calls, with any random bytes and any failures of the generator, the
  sealing store behaves as the in-memory store on the calls that succeed, failed calls change
  nothing, and what it keeps for a seed is the 60-byte sealed blob.
\<close>
theorem sealed_store_refines_memory:
  assumes A: "aead_ok A" and wf: "\<forall>(e, c) \<in> set calls. call_wf c"
    and run: "store_run (sealed_store_ops (chacha_sealer A key)) calls sealed_store_new = (log, st)"
  shows "store_run mem_store_ops (map (\<lambda>(c, x). ((), c)) log) mem_store_new =
      (log, sealed_view (chacha_sealer A key) st) \<and>
    (\<forall>sid blob. peek_sealed_blob sid st = Some blob \<longrightarrow> length blob = 60)"
proof
  let ?W = "chacha_sealer A key"
  from sealed.run_refines [OF sealed_new_inv [OF chacha_sealer_ok [OF A]] wf run]
  have "sealed_inv ?W st" and
    r: "store_run mem_store_ops (map (\<lambda>(c, x). ((), c)) log) mem_store_new = (log, sealed_view ?W st)"
    by (simp_all add: sealed_new_view)
  show "store_run mem_store_ops (map (\<lambda>(c, x). ((), c)) log) mem_store_new =
      (log, sealed_view ?W st)" by (rule r)
  have "length blob = 60" if "sl_seeds st sid = Some blob" for sid blob
    using \<open>sealed_inv ?W st\<close> that
    by (fastforce simp: sealed_inv_def chacha_sealer_def chacha_unseal_def SEALED_BLOB_LEN_def
        NONCE_LEN_def SEED_LEN_def TAG_LEN_def split: if_splits)
  then show "\<forall>sid blob. peek_sealed_blob sid st = Some blob \<longrightarrow> length blob = 60"
    by (simp add: peek_sealed_blob_def)
qed

theorem sealed_store_refines_memory_witness:
  "let W = chacha_sealer demo_aead (replicate 32 9); sid = SeedId [65];
       calls = [(Inl [], PutSeed sid demo_seed), (Inr (\<lambda>_. 3), PutSeed sid demo_seed),
                (Inl [], GetSeed sid)];
       (log, st) = store_run (sealed_store_ops W) calls sealed_store_new in
   log = [(PutSeed sid demo_seed, Done), (GetSeed sid, SeedReply (Some demo_seed))] \<and>
   store_run mem_store_ops (map (\<lambda>(c, x). ((), c)) log) mem_store_new = (log, sealed_view W st)"
proof -
  let ?W = "chacha_sealer demo_aead (replicate 32 9)" and ?sid = "SeedId [65]"
  let ?calls = "[(Inl [], PutSeed ?sid demo_seed), (Inr (\<lambda>_. 3), PutSeed ?sid demo_seed),
    (Inl [], GetSeed ?sid)]"
  obtain log st where run: "store_run (sealed_store_ops ?W) ?calls sealed_store_new = (log, st)"
    by force
  obtain b where b: "seal ?W (Inr (\<lambda>_. 3)) demo_seed = Ok b"
    by (simp add: chacha_sealer_def chacha_seal_def demo_aead_def demo_tag_def demo_seed_def
        SEED_LEN_def TAG_LEN_def)
  have u: "unseal ?W b = Ok demo_seed"
    using chacha_sealer_ok [OF demo_aead_ok, of "replicate 32 9"] b by (auto simp: sealer_ok_def)
  have e: "seal ?W (Inl []) demo_seed = Err (Storage (ascii ''seal: rng: ''))"
    by (simp add: chacha_sealer_def chacha_seal_def)
  have "log = [(PutSeed ?sid demo_seed, Done), (GetSeed ?sid, SeedReply (Some demo_seed))]"
    using run b u e
    by (simp add: sealed_store_ops_def sealed_put_seed_def sealed_get_seed_def sealed_store_new_def)
  moreover have "\<forall>(e, c) \<in> set ?calls. call_wf c"
    by (simp add: seed_id_wf_def is_alnum_def is_digit_def)
  ultimately show ?thesis
    using sealed_store_refines_memory [OF demo_aead_ok _ run] run by (simp add: Let_def)
qed

text \<open>
  A sealed seed is 60 bytes, nonce first, and unseals to the seed; a blob of any other
  length is refused, and unsealing never panics.
\<close>
theorem chacha_seal_unseal:
  assumes "aead_ok A" and "seed_wf s" and "chacha_seal A key os s = Ok b"
  shows "length b = 60 \<and> chacha_unseal A key b = Ok s \<and>
    (\<exists>stream. os = Inr stream \<and> take 12 b = map stream [0 ..< 12]) \<and>
    (\<forall>b'. length b' \<noteq> 60 \<longrightarrow> (\<exists>m. chacha_unseal A key b' = Err (Storage m))) \<and>
    (\<forall>b'. chacha_unseal A key b' \<noteq> Panic)"
proof -
  have u: "chacha_unseal A key b = Ok s"
    using chacha_sealer_ok [OF assms(1), of key] assms(2,3)
    by (auto simp: sealer_ok_def chacha_sealer_def)
  have "chacha_unseal A key b' \<noteq> Panic" for b'
    by (auto simp: chacha_unseal_def outcome_simps copy_from_slice_oc_def Let_def split: if_splits)
  moreover have "\<exists>m. chacha_unseal A key b' = Err (Storage m)" if "length b' \<noteq> 60" for b'
    using that by (simp add: chacha_unseal_def SEALED_BLOB_LEN_def NONCE_LEN_def SEED_LEN_def
        TAG_LEN_def)
  ultimately show ?thesis using chacha_seal_Ok [OF assms(3)] u by auto
qed

theorem chacha_seal_unseal_witness:
  "length (map (\<lambda>_. 3) [0 ..< 12] @ seed_as_bytes demo_seed @
      demo_tag [9] (map (\<lambda>_. 3) [0 ..< 12]) (seed_as_bytes demo_seed) []) = 60 \<and>
   chacha_unseal demo_aead [9] (map (\<lambda>_. 3) [0 ..< 12] @ seed_as_bytes demo_seed @
      demo_tag [9] (map (\<lambda>_. 3) [0 ..< 12]) (seed_as_bytes demo_seed) []) = Ok demo_seed"
proof -
  have "chacha_seal demo_aead [9] (Inr (\<lambda>_. 3)) demo_seed =
    Ok (map (\<lambda>_. 3) [0 ..< 12] @ seed_as_bytes demo_seed @
      demo_tag [9] (map (\<lambda>_. 3) [0 ..< 12]) (seed_as_bytes demo_seed) [])"
    by (simp add: chacha_seal_def demo_aead_def demo_tag_def demo_seed_def NONCE_LEN_def
        SEED_LEN_def TAG_LEN_def)
  from chacha_seal_unseal [OF demo_aead_ok demo_seed_wf this] show ?thesis by blast
qed

end
