(* ===== verification/Restarts.thy ===== *)
theory Restarts
  imports Concurrent SqliteStore SealedStore
begin

text \<open>
  The receiver over the stores that keep more than a map: \<^verbatim>\<open>SealedInMemorySeedStore\<close> and
  \<^verbatim>\<open>SqliteSeedStore\<close>, each with the sequential counter \<^verbatim>\<open>InMemoryCounter\<close>
  (\<^verbatim>\<open>mcpix-receiver-sdk\<close>).

  The tables of SQLite survive the process and the counter does not. A restart opens the file again
  with a new counter, into which the operator may put last values with
  \<^verbatim>\<open>restore_last_issued\<close>; it can happen between any two accesses of the threads that run.
\<close>

section \<open>The two configurations\<close>

definition sqlite_sdk ::
  "(sqlite_env, sqlite_db, unit, mem_counter, bytes + (nat \<Rightarrow> byte)) receiver_sdk" where
  "sqlite_sdk = sdk_new sqlite_store_ops (\<lambda>_. counter_next) os_random_fill"

definition sealed_sdk ::
  "'e seed_sealer \<Rightarrow> ('e, sealed_store, unit, mem_counter, bytes + (nat \<Rightarrow> byte)) receiver_sdk" where
  "sealed_sdk W = sdk_new (sealed_store_ops W) (\<lambda>_. counter_next) os_random_fill"

definition sqlite_rx_inv :: "(sqlite_db, mem_counter) sdk_state \<Rightarrow> bool" where
  "sqlite_rx_inv st \<longleftrightarrow> sqlite_inv (store_st st) \<and> True \<and>
     receipts_bounded (sqlite_view (store_st st)) (counter_st st)"

definition sealed_rx_inv :: "'e seed_sealer \<Rightarrow> (sealed_store, mem_counter) sdk_state \<Rightarrow> bool" where
  "sealed_rx_inv W st \<longleftrightarrow> sealed_inv W (store_st st) \<and> True \<and>
     receipts_bounded (sealed_view W (store_st st)) (counter_st st)"

lemma sqlite_sdk_fields [simp]:
  "sdk_store sqlite_sdk = sqlite_store_ops"
  "sdk_counter sqlite_sdk = (\<lambda>_. counter_next)"
  "sdk_rng sqlite_sdk = os_random_fill"
  by (simp_all add: sqlite_sdk_def sdk_new_def)

lemma sealed_sdk_fields [simp]:
  "sdk_store (sealed_sdk W) = sealed_store_ops W"
  "sdk_counter (sealed_sdk W) = (\<lambda>_. counter_next)"
  "sdk_rng (sealed_sdk W) = os_random_fill"
  by (simp_all add: sealed_sdk_def sdk_new_def)

interpretation sqlite_rx: receiver sqlite_sdk sqlite_view sqlite_inv "\<lambda>c. c" "\<lambda>_. True"
  "\<lambda>st. sqlite_view (store_st st)" sqlite_rx_inv
proof (intro receiver.intro receiver_axioms.intro)
  show "seed_store (sdk_store sqlite_sdk) sqlite_view sqlite_inv"
    using sqlite.seed_store_axioms by simp
  show "counter_impl (sdk_counter sqlite_sdk) (\<lambda>c. c) (\<lambda>_. True)"
    using seq_counter.counter_impl_axioms by simp
  show "secure_random (sdk_rng sqlite_sdk)"
    using os_random.secure_random_axioms by simp
qed (simp_all add: sqlite_rx_inv_def)

interpretation sealed_rx: receiver "sealed_sdk W" "sealed_view W" "sealed_inv W" "\<lambda>c. c" "\<lambda>_. True"
  "\<lambda>st. sealed_view W (store_st st)" "sealed_rx_inv W"
  for W :: "'e seed_sealer"
proof (intro receiver.intro receiver_axioms.intro)
  show "seed_store (sdk_store (sealed_sdk W)) (sealed_view W) (sealed_inv W)"
    using sealed.seed_store_axioms by simp
  show "counter_impl (sdk_counter (sealed_sdk W)) (\<lambda>c. c) (\<lambda>_. True)"
    using seq_counter.counter_impl_axioms by simp
  show "secure_random (sdk_rng (sealed_sdk W))"
    using os_random.secure_random_axioms by simp
qed (simp_all add: sealed_rx_inv_def)

definition sealed_init :: "(sealed_store, mem_counter) sdk_state" where
  "sealed_init = \<lparr> store_st = sealed_store_new, counter_st = counter_new \<rparr>"

lemma sealed_init_inv: "sealer_ok W \<Longrightarrow> sealed_rx_inv W sealed_init"
  by (simp add: sealed_rx_inv_def sealed_init_def sealed_new_inv sealed_new_view receipts_bounded_def
      mem_store_new_def)

section \<open>Restarts\<close>

definition restore_all :: "(seed_id \<times> u64) list \<Rightarrow> mem_counter \<Rightarrow> mem_counter" where
  "restore_all rs c = fold (\<lambda>(sid, t). restore_last_issued sid t) rs c"

text \<open>The operator restores, for each seed identifier, at least the largest counter in the file.\<close>

definition covers_receipts :: "(seed_id \<times> u64) list \<Rightarrow> sqlite_db \<Rightarrow> bool" where
  "covers_receipts rs db \<longleftrightarrow>
     (\<forall>sid t row. db_receipts db (sid_as_str sid, as_i64 t) = Some row \<longrightarrow> (\<exists>l. (sid, l) \<in> set rs \<and> t \<le> l))"

definition reopened :: "sqlite_db \<Rightarrow> (seed_id \<times> u64) list \<Rightarrow> (sqlite_db, mem_counter) sdk_state" where
  "reopened db rs = \<lparr> store_st = db, counter_st = restore_all rs counter_new \<rparr>"

inductive restart_step ::
  "crypto_lib \<Rightarrow> ((seed_id \<times> u64) list \<Rightarrow> sqlite_db \<Rightarrow> bool) \<Rightarrow>
   (sqlite_db, mem_counter) conc \<Rightarrow> (sqlite_db, mem_counter) conc \<Rightarrow> bool"
  for L allowed where
  access: "conc_step L sqlite_sdk x y \<Longrightarrow> one_decides y \<Longrightarrow> restart_step L allowed x y"
| restart: "sqlite_open e1 e2 (store_st st) = Ok db \<Longrightarrow> allowed rs db \<Longrightarrow>
     restart_step L allowed (st, ph, evs) (reopened db rs, \<lambda>_. CIdle, evs)"

lemma restore_last_issued_grows:
  "\<exists>l. restore_last_issued sid t c sid = Some l \<and> t \<le> l"
  "c i = Some n \<Longrightarrow> \<exists>l. restore_last_issued sid t c i = Some l \<and> n \<le> l"
  by (auto simp: restore_last_issued_def slot_or_insert_def not_less split: option.splits)

lemma restore_all_keeps: "c i = Some n \<Longrightarrow> \<exists>l. restore_all rs c i = Some l \<and> n \<le> l"
proof (induction rs arbitrary: c n)
  case (Cons r rs)
  obtain sid t where r: "r = (sid, t)" by (cases r)
  obtain m where "restore_last_issued sid t c i = Some m" "n \<le> m"
    using restore_last_issued_grows(2) [where c = c, OF Cons.prems] by blast
  with Cons.IH show ?case by (fastforce simp: r restore_all_def intro: order_trans)
qed (simp add: restore_all_def)

lemma restore_all_reaches: "(i, n) \<in> set rs \<Longrightarrow> \<exists>l. restore_all rs c i = Some l \<and> n \<le> l"
proof (induction rs arbitrary: c)
  case (Cons r rs)
  show ?case
  proof (cases "r = (i, n)")
    case True
    obtain m where "restore_last_issued i n c i = Some m" "n \<le> m"
      using restore_last_issued_grows(1) by blast
    with restore_all_keeps [where c = "restore_last_issued i n c", OF this(1), of rs] True show ?thesis
      by (fastforce simp: restore_all_def intro: order_trans)
  next
    case False
    with Cons show ?thesis by (auto simp: restore_all_def)
  qed
qed simp

lemma reopened_inv:
  assumes "sqlite_inv db" and "covers_receipts rs db"
  shows "sqlite_rx_inv (reopened db rs)"
proof -
  have "receipts_bounded (sqlite_view db) (restore_all rs counter_new)"
    unfolding receipts_bounded_def
  proof (intro allI impI)
    fix sid t r
    assume "ms_receipts (sqlite_view db) (sid, t) = Some r"
    then obtain row where "db_receipts db (sid_as_str sid, as_i64 t) = Some row"
      by (auto simp: sqlite_view_def)
    then obtain l where "(sid, l) \<in> set rs" "t \<le> l"
      using assms(2) unfolding covers_receipts_def by blast
    with restore_all_reaches [OF this(1), of counter_new]
    show "\<exists>l. restore_all rs counter_new sid = Some l \<and> t \<le> l" by (blast intro: order_trans)
  qed
  with assms(1) show ?thesis by (simp add: sqlite_rx_inv_def reopened_def)
qed

lemma sqlite_open_Ok: "sqlite_open e1 e2 file = Ok db \<Longrightarrow> db = file"
  by (auto simp: sqlite_open_def sqlite_init_schema_def outcome_simps sql_Ok_iff)

context receiver
begin

text \<open>A restart takes the phases of all threads and keeps what the store holds.\<close>

lemma restart_inv:
  assumes "conc_inv D (st, ph, evs)" "serial_inv K (st, ph, evs)" and "I st'" "V st' = V st"
  shows "conc_inv D (st', \<lambda>_. CIdle, evs) \<and> serial_inv K (st', \<lambda>_. CIdle, evs) \<and>
    one_decides (st', \<lambda>_. CIdle, evs)"
  using assms by (simp add: conc_inv_def serial_inv_def decides_def one_decides_def)

end

definition restart_inv ::
  "(seed_id \<times> u64) set \<Rightarrow> (seed_id \<times> u64) set \<Rightarrow> (sqlite_db, mem_counter) conc \<Rightarrow> bool" where
  "restart_inv D K x \<longleftrightarrow> sqlite_rx.conc_inv D x \<and> sqlite_rx.serial_inv K x \<and> one_decides x"

lemma restart_inv_step:
  assumes L: "crypto_ok L" and step: "restart_step L covers_receipts x y" and inv: "restart_inv D K x"
  shows "restart_inv D K y"
  using step inv
proof (induction rule: restart_step.induct)
  case (access x y)
  then show ?case
    using sqlite_rx.conc_inv_step [OF L] sqlite_rx.serial_inv_step [OF L] unfolding restart_inv_def by blast
next
  case (restart e1 e2 st db rs ph evs)
  from restart(3) have inv: "sqlite_rx.conc_inv D (st, ph, evs)" "sqlite_rx.serial_inv K (st, ph, evs)"
    by (simp_all add: restart_inv_def)
  have db: "db = store_st st" using sqlite_open_Ok [OF restart(1)] .
  have "sqlite_inv db" using sqlite_rx.conc_invD(1) [OF inv(1)] by (simp add: sqlite_rx_inv_def db)
  from reopened_inv [OF this restart(2)] sqlite_rx.restart_inv [OF inv, of "reopened db rs"]
  show ?case by (simp add: restart_inv_def reopened_def db)
qed

lemma restart_inv_reaches:
  assumes "crypto_ok L" and "(restart_step L covers_receipts)\<^sup>*\<^sup>* x y" and "restart_inv D K x"
  shows "restart_inv D K y"
  using assms(2,3) by (induction rule: rtranclp_induct) (auto intro: restart_inv_step [OF assms(1)])

lemma serial_restart:
  "serial_reaches L sqlite_sdk x y \<Longrightarrow> (restart_step L allowed)\<^sup>*\<^sup>* x y"
  by (induction rule: rtranclp_induct) (auto intro: rtranclp.rtrancl_into_rtrancl restart_step.access)

section \<open>A charge and its payment\<close>

definition sqlite_init :: "(sqlite_db, mem_counter) sdk_state" where
  "sqlite_init = reopened \<lparr> db_seeds = Map.empty, db_receipts = Map.empty \<rparr> []"

lemma sqlite_init_view: "sqlite_view (store_st sqlite_init) = mem_store_new"
  by (simp add: sqlite_init_def reopened_def sqlite_view_def mem_store_new_def fun_eq_iff)

lemma sqlite_init_inv: "sqlite_rx_inv sqlite_init"
  using sqlite_init_view by (simp add: sqlite_rx_inv_def sqlite_inv_def store_view_wf_def
      mem_store_new_def receipts_bounded_def)

definition pay_code :: "crypto_lib \<Rightarrow> seed \<Rightarrow> u64 \<Rightarrow> bytes" where
  "pay_code L s n = c2_chars (c2_spec L s n (c1_spec L s n))"

lemma sqlite_register_run:
  assumes "sdk_store sdk = sqlite_store_ops" and "sdk_rng sdk = os_random_fill" and "sql_fault e = None"
  shows "sdk_step L sdk (Register (Inr stream, e) sid) st =
    ([], st \<lparr> store_st := (store_st st) \<lparr> db_seeds := (db_seeds (store_st st))
       (sid_as_str sid \<mapsto> map stream [0 ..< SEED_LEN]) \<rparr> \<rparr>)"
  using assms by (simp add: register_def os_random_fill_def on_store_def sqlite_store_ops_def
      sqlite_put_seed_def seed_from_bytes_def)

lemma sqlite_generate_run:
  assumes store: "sdk_store sdk = sqlite_store_ops"
    and L: "crypto_ok L" and sid: "seed_id_wf sid" and fault: "sql_fault e = None"
    and seed: "db_seeds (store_st st) (sid_as_str sid) = Some (seed_as_bytes s)" "seed_wf s"
    and cnt: "sdk_counter sdk ec sid (counter_st st) = (Ok n, c')"
  shows "sdk_step L sdk (Generate (e, ec, e) sid a) st =
    ([Charged sid n], \<lparr> store_st = (store_st st) \<lparr> db_receipts := (db_receipts (store_st st))
       ((sid_as_str sid, as_i64 n) \<mapsto> \<lparr> row_amount_cents = as_i64 a, row_expected_c2 = pay_code L s n,
          row_consumed = 0 \<rparr>) \<rparr>, counter_st = c' \<rparr>)"
proof -
  have "seed_try_from_slice (seed_as_bytes s) = (Ok s :: seed mcpix)"
    by (rule seed_try_from_slice_as_bytes [OF seed(2)])
  then show ?thesis
    using assms by (simp add: generate_charge_def on_store_def on_counter_def sqlite_store_ops_def
        sqlite_get_seed_def sqlite_save_receipt_def apply_generate_charge_eq pay_code_def)
qed

lemma sqlite_get_charge:
  assumes "sql_fault e = None" and "db_receipts db (sid_as_str sid, as_i64 n) =
      Some \<lparr> row_amount_cents = a, row_expected_c2 = pay_code L s n, row_consumed = k \<rparr>"
  shows "sqlite_get_receipt e sid n db = Ok (Some \<lparr> rr_seed_id = sid, rr_counter = n,
    rr_amount_cents = i64_as_u64 a, rr_expected_c2 = C2 (pay_code L s n), rr_consumed = (k \<noteq> 0) \<rparr>)"
    "c2_wf (C2 (pay_code L s n))"
proof -
  show c2: "c2_wf (C2 (pay_code L s n))" by (simp add: pay_code_def)
  then have "length (pay_code L s n) = 11" "utf8_valid (pay_code L s n)"
    by (auto simp: c2_wf_def utf8_valid_alnum)
  with assms c2 show "sqlite_get_receipt e sid n db = Ok (Some \<lparr> rr_seed_id = sid, rr_counter = n,
    rr_amount_cents = i64_as_u64 a, rr_expected_c2 = C2 (pay_code L s n), rr_consumed = (k \<noteq> 0) \<rparr>)"
    by (simp add: sqlite_get_receipt_def C2_TRANSPORT_LEN_def c2_parse_Ok_iff [THEN iffD2])
qed

lemma sqlite_accept_run:
  assumes store: "sdk_store sdk = sqlite_store_ops"
    and L: "crypto_ok L" and sid: "seed_id_wf sid" and fault: "sql_fault e = None"
    and row: "db_receipts (store_st st) (sid_as_str sid, as_i64 n) =
      Some \<lparr> row_amount_cents = a, row_expected_c2 = pay_code L s n, row_consumed = 0 \<rparr>"
  shows "sdk_step L sdk (Validate (e, e) sid n (pay_code L s n)) st =
    ([Accepted sid n], st \<lparr> store_st := (store_st st) \<lparr> db_receipts := (db_receipts (store_st st))
       ((sid_as_str sid, as_i64 n) \<mapsto> \<lparr> row_amount_cents = a, row_expected_c2 = pay_code L s n,
          row_consumed = 1 \<rparr>) \<rparr> \<rparr>)"
proof -
  note got = sqlite_get_charge [OF fault row]
  have "validate_read L sdk e sid n (pay_code L s n) (store_st st) = Ok Valid"
    using got L by (simp add: store validate_read_def sqlite_store_ops_def c2_parse_Ok_iff [THEN iffD2]
        apply_validate_receipt_simps)
  then show ?thesis
    using row fault by (simp add: store validate_receipt_def validate_mark_def on_store_def
        sqlite_store_ops_def sqlite_mark_consumed_def Let_def)
qed

lemma sqlite_replay:
  assumes store: "sdk_store sdk = sqlite_store_ops"
    and L: "crypto_ok L" and fault: "sql_fault e = None"
    and row: "db_receipts (store_st st) (sid_as_str sid, as_i64 n) =
      Some \<lparr> row_amount_cents = a, row_expected_c2 = pay_code L s n, row_consumed = 1 \<rparr>"
  shows "validate_receipt L sdk (e, e) sid n (pay_code L s n) st = (Ok Replay, st)"
proof -
  note got = sqlite_get_charge [OF fault row]
  have "validate_read L sdk e sid n (pay_code L s n) (store_st st) = Ok Replay"
    using got L by (simp add: store validate_read_def sqlite_store_ops_def c2_parse_Ok_iff [THEN iffD2]
        apply_validate_receipt_simps)
  then show ?thesis by (simp add: validate_receipt_def validate_mark_def on_store_def)
qed

lemma sqlite_charge_and_accept:
  assumes "sdk_store sdk = sqlite_store_ops"
    and "crypto_ok L" and "seed_id_wf sid" and "sql_fault e = None"
    and "db_seeds (store_st st) (sid_as_str sid) = Some (seed_as_bytes s)" "seed_wf s"
    and "sdk_counter sdk ec sid (counter_st st) = (Ok n, c')"
  shows "sdk_run L sdk [Generate (e, ec, e) sid a, Validate (e, e) sid n (pay_code L s n)] st =
    ([Charged sid n, Accepted sid n], \<lparr> store_st = (store_st st) \<lparr> db_receipts := (db_receipts (store_st st))
       ((sid_as_str sid, as_i64 n) \<mapsto> \<lparr> row_amount_cents = as_i64 a, row_expected_c2 = pay_code L s n,
          row_consumed = 1 \<rparr>) \<rparr>, counter_st = c' \<rparr>)"
  by (simp del: sdk_step.simps add: sqlite_generate_run [OF assms] sqlite_accept_run [OF assms(1-4)])

definition demo_env :: sqlite_env where
  "demo_env = \<lparr> sql_fault = None, utf8_error_text = [] \<rparr>"

lemma demo_env_fault [simp]: "sql_fault demo_env = None"
  by (simp add: demo_env_def)

definition demo_stream :: "nat \<Rightarrow> byte" where
  "demo_stream = (\<lambda>_. 0xA5)"

text \<open>A file with one seed and one charge, which was paid.\<close>

lemma sqlite_first_session:
  assumes "crypto_ok L" and "seed_id_wf sid" and "sql_fault e = None"
  shows "\<exists>st. sdk_run L sqlite_sdk [Register (Inr stream, e) sid, Generate (e, (), e) sid a,
      Validate (e, e) sid 1 (pay_code L (seed_from_bytes (map stream [0 ..< SEED_LEN])) 1)] sqlite_init =
      ([Charged sid 1, Accepted sid 1], st) \<and>
    db_seeds (store_st st) (sid_as_str sid) = Some (map stream [0 ..< SEED_LEN]) \<and>
    (\<forall>i t row. db_receipts (store_st st) (sid_as_str i, as_i64 t) = Some row \<longrightarrow> i = sid \<and> t = 1)"
proof -
  let ?s = "seed_from_bytes (map stream [0 ..< SEED_LEN])"
  let ?st = "sqlite_init \<lparr> store_st := (store_st sqlite_init) \<lparr> db_seeds :=
    (db_seeds (store_st sqlite_init))(sid_as_str sid \<mapsto> map stream [0 ..< SEED_LEN]) \<rparr> \<rparr>"
  have "counter_next sid (counter_st ?st) = (Ok 1, [sid \<mapsto> 1])"
    by (simp add: sqlite_init_def reopened_def restore_all_def counter_new_def counter_next_def
        slot_or_insert_def checked_add_def)
  moreover have "db_seeds (store_st ?st) (sid_as_str sid) = Some (seed_as_bytes ?s)"
    by (simp add: seed_from_bytes_def)
  moreover have "seed_wf ?s" by (simp add: seed_wf_def seed_from_bytes_def SEED_LEN_def)
  ultimately show ?thesis
    using sqlite_register_run [OF _ _ assms(3), of sqlite_sdk L stream sid sqlite_init]
      sqlite_charge_and_accept [where sdk = sqlite_sdk, OF _ assms, of ?st ?s "()" 1 "[sid \<mapsto> 1]" a]
    by (auto simp del: sdk_step.simps simp: sqlite_init_def reopened_def split: prod.splits if_splits)
qed

section \<open>Properties\<close>

text \<open>
  C5. Over a SQLite file and the sequential counter, threads run any calls, the engine fails in any
  call, and the process is stopped and started again between any two accesses. When every start
  restores the counter to cover the receipts in the file, and no two threads decide on one
  receipt, no counter is ever charged twice and no charge is accepted twice, over all sessions.
\<close>
theorem covered_restarts_keep_codes_single_use:
  assumes "crypto_ok L"
    and "(restart_step L covers_receipts)\<^sup>*\<^sup>* (conc_start sqlite_init) (st, ph, evs)"
  shows "distinct (charged evs) \<and> distinct (accepted evs) \<and> set (accepted evs) \<subseteq> set (charged evs)"
proof -
  have "restart_inv {} {} (conc_start sqlite_init)"
    using sqlite_rx.conc_inv_start [OF sqlite_init_inv] sqlite_rx.serial_inv_start [of sqlite_init]
    by (simp add: restart_inv_def sqlite_init_view mem_store_new_def consumed_keys_def)
  from restart_inv_reaches [OF assms this]
  have inv: "sqlite_rx.conc_inv {} (st, ph, evs)" "sqlite_rx.serial_inv {} (st, ph, evs)"
    by (simp_all add: restart_inv_def)
  have "set (accepted evs) \<subseteq> set (charged evs)"
    using sqlite_rx.conc_invD(5) [OF inv(1)] sqlite_rx.conc_invD(6) [OF inv(1)]
      consumed_dom [of "sqlite_view (store_st st)"] by simp
  moreover have "distinct (accepted evs)" using inv(2) by (simp add: sqlite_rx.serial_inv_def)
  ultimately show ?thesis using sqlite_rx.conc_invD(3) [OF inv(1)] by simp
qed

theorem covered_restarts_keep_codes_single_use_witness:
  "\<exists>evs. evs = [Charged demo_sid 1, Accepted demo_sid 1, Charged demo_sid 2, Accepted demo_sid 2] \<and>
    distinct (charged evs) \<and> distinct (accepted evs)"
proof -
  let ?evs = "[Charged demo_sid 1, Accepted demo_sid 1]"
  let ?s = "seed_from_bytes (map demo_stream [0 ..< SEED_LEN])"
  obtain st where
    run: "sdk_run demo_crypto sqlite_sdk [Register (Inr demo_stream, demo_env) demo_sid,
      Generate (demo_env, (), demo_env) demo_sid 5,
      Validate (demo_env, demo_env) demo_sid 1 (pay_code demo_crypto ?s 1)] sqlite_init = (?evs, st)"
    and seeds: "db_seeds (store_st st) (sid_as_str demo_sid) = Some (map demo_stream [0 ..< SEED_LEN])"
    and only: "\<forall>i t row. db_receipts (store_st st) (sid_as_str i, as_i64 t) = Some row \<longrightarrow>
      i = demo_sid \<and> t = 1"
    using sqlite_first_session [OF demo_crypto_ok demo_sid_wf demo_env_fault] by blast
  let ?st = "reopened (store_st st) [(demo_sid, 1)]"
  have "counter_next demo_sid (counter_st ?st) = (Ok 2, [demo_sid \<mapsto> 2])"
    by (simp add: reopened_def restore_all_def restore_last_issued_def counter_new_def counter_next_def
        slot_or_insert_def checked_add_def)
  moreover have "db_seeds (store_st ?st) (sid_as_str demo_sid) = Some (seed_as_bytes ?s)" "seed_wf ?s"
    using seeds by (simp_all add: reopened_def seed_from_bytes_def seed_wf_def SEED_LEN_def)
  ultimately obtain st2 where run2: "sdk_run demo_crypto sqlite_sdk
      [Generate (demo_env, (), demo_env) demo_sid 7,
       Validate (demo_env, demo_env) demo_sid 2 (pay_code demo_crypto ?s 2)] ?st =
      ([Charged demo_sid 2, Accepted demo_sid 2], st2)"
    using sqlite_charge_and_accept [where sdk = sqlite_sdk, OF _ demo_crypto_ok demo_sid_wf demo_env_fault]
    by fastforce
  have "(restart_step demo_crypto covers_receipts)\<^sup>*\<^sup>* (conc_start sqlite_init) (st, \<lambda>_. CIdle, ?evs)"
    using sdk_run_interleaves [OF demo_crypto_ok _ run, of "[]"] by (auto simp: conc_start_def intro: serial_restart)
  moreover have "restart_step demo_crypto covers_receipts (st, \<lambda>_. CIdle, ?evs) (?st, \<lambda>_. CIdle, ?evs)"
    by (rule restart_step.restart [where ?e1.0 = demo_env and ?e2.0 = demo_env])
      (use only in \<open>auto simp: sqlite_open_def sqlite_init_schema_def covers_receipts_def\<close>)
  moreover have "(restart_step demo_crypto covers_receipts)\<^sup>*\<^sup>* (?st, \<lambda>_. CIdle, ?evs)
      (st2, \<lambda>_. CIdle, ?evs @ [Charged demo_sid 2, Accepted demo_sid 2])"
    by (rule serial_restart [OF sdk_run_interleaves [OF demo_crypto_ok _ run2]]) simp
  ultimately have "(restart_step demo_crypto covers_receipts)\<^sup>*\<^sup>* (conc_start sqlite_init)
      (st2, \<lambda>_. CIdle, ?evs @ [Charged demo_sid 2, Accepted demo_sid 2])"
    by (meson rtranclp.rtrancl_into_rtrancl rtranclp_trans)
  from covered_restarts_keep_codes_single_use [OF demo_crypto_ok this] show ?thesis by simp
qed

text \<open>
  C29. A restart without that restoration starts the counter at 1 again, and \<^verbatim>\<open>INSERT OR REPLACE\<close>
  opens the receipt of the first charge anew: a code that was accepted before the restart, for a
  charge of \<open>a\<close> cents, is accepted again for the new charge of \<open>b\<close> cents, whatever the two are.
\<close>
theorem restart_reopens_accepted_charge:
  assumes L: "crypto_ok L" and sid: "seed_id_wf sid" and fault: "sql_fault e = None"
    and first: "sdk_run L sqlite_sdk [Register (Inr stream, e) sid, Generate (e, (), e) sid a,
      Validate (e, e) sid 1 code] sqlite_init = ([Charged sid 1, Accepted sid 1], st)"
    and code: "code = pay_code L (seed_from_bytes (map stream [0 ..< SEED_LEN])) 1"
    and again: "sqlite_open e e (store_st st) = Ok db"
  shows "fst (sdk_run L sqlite_sdk [Generate (e, (), e) sid b, Validate (e, e) sid 1 code]
    (reopened db [])) = [Charged sid 1, Accepted sid 1]"
proof -
  let ?s = "seed_from_bytes (map stream [0 ..< SEED_LEN])"
  from sqlite_first_session [OF L sid fault, of stream a] first code
  have "db_seeds db (sid_as_str sid) = Some (map stream [0 ..< SEED_LEN])"
    using sqlite_open_Ok [OF again] by auto
  then have "db_seeds (store_st (reopened db [])) (sid_as_str sid) = Some (seed_as_bytes ?s)"
    by (simp add: reopened_def seed_from_bytes_def)
  moreover have "seed_wf ?s" by (simp add: seed_wf_def seed_from_bytes_def SEED_LEN_def)
  moreover have "counter_next sid (counter_st (reopened db [])) = (Ok 1, [sid \<mapsto> 1])"
    by (simp add: reopened_def restore_all_def counter_new_def counter_next_def slot_or_insert_def
        checked_add_def)
  ultimately show ?thesis
    using sqlite_charge_and_accept [where sdk = sqlite_sdk, OF _ L sid fault] code by simp
qed

theorem restart_reopens_accepted_charge_witness:
  "\<exists>db. fst (sdk_run demo_crypto sqlite_sdk [Generate (demo_env, (), demo_env) demo_sid 100000,
      Validate (demo_env, demo_env) demo_sid 1
        (pay_code demo_crypto (seed_from_bytes (map demo_stream [0 ..< SEED_LEN])) 1)]
    (reopened db [])) = [Charged demo_sid 1, Accepted demo_sid 1]"
proof -
  obtain st where run: "sdk_run demo_crypto sqlite_sdk [Register (Inr demo_stream, demo_env) demo_sid,
      Generate (demo_env, (), demo_env) demo_sid 1,
      Validate (demo_env, demo_env) demo_sid 1
        (pay_code demo_crypto (seed_from_bytes (map demo_stream [0 ..< SEED_LEN])) 1)] sqlite_init =
      ([Charged demo_sid 1, Accepted demo_sid 1], st)"
    using sqlite_first_session [OF demo_crypto_ok demo_sid_wf demo_env_fault] by blast
  have "sqlite_open demo_env demo_env (store_st st) = Ok (store_st st)"
    by (simp add: sqlite_open_def sqlite_init_schema_def)
  from restart_reopens_accepted_charge [OF demo_crypto_ok demo_sid_wf demo_env_fault run refl this]
  show ?thesis by blast
qed

text \<open>
  Over the store of sealed seeds, with the ChaCha20-Poly1305 sealer under any key and any failures
  of the generator, no counter is charged twice and each charge is accepted at most once.
\<close>
theorem each_sealed_charge_accepted_at_most_once:
  assumes "crypto_ok L" and "aead_ok A" and "\<forall>call \<in> set calls. seed_id_wf (call_seed_id call)"
    and "sdk_run L (sealed_sdk (chacha_sealer A key)) calls sealed_init = (evs, st)"
  shows "distinct (charged evs) \<and> distinct (accepted evs) \<and> set (accepted evs) \<subseteq> set (charged evs)"
  using sealed_rx.run_effect
    [OF assms(1) sealed_init_inv [OF chacha_sealer_ok [OF assms(2)]] assms(3,4)]
  by (auto simp: receipts_effect_def sealed_init_def sealed_new_view mem_store_new_def)

theorem each_sealed_charge_accepted_at_most_once_witness:
  "distinct (charged (fst (sdk_run demo_crypto (sealed_sdk (chacha_sealer demo_aead (replicate 32 9)))
     [Register (Inr demo_stream, Inr demo_stream) demo_sid, Generate (Inl [], (), Inl []) demo_sid 5,
      Generate (Inl [], (), Inl []) demo_sid 6] sealed_init)))"
proof -
  let ?calls = "[Register (Inr demo_stream, Inr demo_stream) demo_sid,
    Generate (Inl [], (), Inl []) demo_sid 5, Generate (Inl [], (), Inl []) demo_sid 6]"
  have "\<forall>call \<in> set ?calls. seed_id_wf (call_seed_id call)" by simp
  from each_sealed_charge_accepted_at_most_once
    [OF demo_crypto_ok demo_aead_ok this prod.collapse [symmetric], of "replicate 32 9"]
  show ?thesis by blast
qed

end
