(* ===== verification/ClockRestarts.thy ===== *)
theory ClockRestarts
  imports Restarts
begin

text \<open>
  Restarts of a receiver whose counter is the clock: \<^verbatim>\<open>SqliteSeedStore\<close> with
  \<^verbatim>\<open>TimestampQuantizedCounter\<close> (\<^verbatim>\<open>mcpix-receiver-sdk\<close>).

  The counter refuses a second charge in one window, and a clock that went back, by the last value
  it issued. That value lives in the process only, and there is no operation to restore it, so what
  a restart needs is a clock that has left every window a receipt in the file was made in.
\<close>

section \<open>The receiver at a time of its clock\<close>

definition clocked_sdk ::
  "u64 \<Rightarrow> (sqlite_env, sqlite_db, unit, ts_counter, bytes + (nat \<Rightarrow> byte)) receiver_sdk" where
  "clocked_sdk now_t = sdk_new sqlite_store_ops (\<lambda>_. ts_next now_t) os_random_fill"

lemma clocked_sdk_fields [simp]:
  "sdk_store (clocked_sdk now_t) = sqlite_store_ops"
  "sdk_counter (clocked_sdk now_t) = (\<lambda>_. ts_next now_t)"
  "sdk_rng (clocked_sdk now_t) = os_random_fill"
  by (simp_all add: clocked_sdk_def sdk_new_def)

text \<open>
  A counter that started in window \<open>f\<close> issues nothing before it: what it has issued and what the
  processes before it have issued is bounded by this view.
\<close>

definition floor_view :: "u64 \<Rightarrow> ts_counter \<Rightarrow> seed_id \<rightharpoonup> u64" where
  "floor_view f c sid =
     (case tc_last_issued c sid of
        Some l \<Rightarrow> Some l
      | None \<Rightarrow> if f = 0 then None else Some (f - 1))"

definition floor_inv :: "u64 \<Rightarrow> u64 \<Rightarrow> u64 \<Rightarrow> ts_counter \<Rightarrow> bool" where
  "floor_inv w f now_t c \<longleftrightarrow> tc_window_seconds c = w \<and> w \<noteq> 0 \<and> f \<le> now_t div w"

definition clocked_rx_inv :: "u64 \<Rightarrow> u64 \<Rightarrow> u64 \<Rightarrow> (sqlite_db, ts_counter) sdk_state \<Rightarrow> bool" where
  "clocked_rx_inv w f now_t st \<longleftrightarrow> sqlite_inv (store_st st) \<and> floor_inv w f now_t (counter_st st) \<and>
     receipts_bounded (sqlite_view (store_st st)) (floor_view f (counter_st st))"

lemma pred_less: "(f :: u64) \<noteq> 0 \<Longrightarrow> f \<le> t \<Longrightarrow> f - 1 < t"
  using unat_minus_one [of f] unat_eq_zero [of f] by (simp add: word_less_nat_alt word_le_nat_alt)

lemma le_pred: "(t :: u64) < q \<Longrightarrow> t \<le> q - 1"
  using unat_minus_one [of q] by (cases "q = 0") (simp_all add: word_less_nat_alt word_le_nat_alt)

lemma floor_view_issue:
  "floor_view f (c \<lparr> tc_last_issued := (tc_last_issued c)(sid \<mapsto> n) \<rparr>) = (floor_view f c)(sid \<mapsto> n)"
  by (auto simp: floor_view_def fun_eq_iff)

interpretation floor_counter: counter_impl "\<lambda>_::unit. ts_next now_t" "floor_view f" "floor_inv w f now_t"
  for w f now_t
proof (unfold_locales, goal_cases)
  case (1 c e sid n c')
  then show ?case
    by (auto simp: floor_inv_def floor_view_issue ts_next_cases Let_def pred_less floor_view_def
        split: option.splits if_splits)
next
  case (2 c e sid r c')
  then show ?case by (auto simp: floor_inv_def ts_next_cases Let_def split: option.splits if_splits)
qed

interpretation clocked_rx: receiver "clocked_sdk now_t" sqlite_view sqlite_inv "floor_view f"
  "floor_inv w f now_t" "\<lambda>st. sqlite_view (store_st st)" "clocked_rx_inv w f now_t"
  for w f now_t
proof (intro receiver.intro receiver_axioms.intro)
  show "seed_store (sdk_store (clocked_sdk now_t)) sqlite_view sqlite_inv"
    using sqlite.seed_store_axioms by simp
  show "counter_impl (sdk_counter (clocked_sdk now_t)) (floor_view f) (floor_inv w f now_t)"
    using floor_counter.counter_impl_axioms by simp
  show "secure_random (sdk_rng (clocked_sdk now_t))"
    using os_random.secure_random_axioms by simp
qed (simp_all add: clocked_rx_inv_def)

section \<open>The clock moves and the process restarts\<close>

text \<open>
  The reading of the clock may jump, forwards and backwards, as long as it does not go behind the
  reading the process started with, which the last component keeps. A restart chooses the length of
  its windows.
\<close>

type_synonym clocked = "(sqlite_db, ts_counter) conc \<times> u64 \<times> u64"

definition windows_past :: "sqlite_db \<Rightarrow> u64 \<Rightarrow> bool" where
  "windows_past db q \<longleftrightarrow>
     (\<forall>sid t row. db_receipts db (sid_as_str sid, as_i64 t) = Some row \<longrightarrow> t < q)"

inductive clock_step :: "crypto_lib \<Rightarrow> clocked \<Rightarrow> clocked \<Rightarrow> bool" for L where
  access: "conc_step L (clocked_sdk now_t) x y \<Longrightarrow> one_decides y \<Longrightarrow>
     clock_step L (x, now_t, boot) (y, now_t, boot)"
| tick: "boot \<le> later \<Longrightarrow> clock_step L (x, now_t, boot) (x, later, boot)"
| restart: "sqlite_open e1 e2 (store_st st) = Ok db \<Longrightarrow>
     ts_with_window w = (Ok c :: ts_counter mcpix) \<Longrightarrow> windows_past db (later div w) \<Longrightarrow>
     clock_step L ((st, ph, evs), now_t, boot)
       ((\<lparr> store_st = db, counter_st = c \<rparr>, \<lambda>_. CIdle, evs), later, later)"

lemma div_mono_u64: "(a :: u64) \<le> b \<Longrightarrow> a div w \<le> b div w"
  by (simp add: word_le_nat_alt unat_div div_le_mono)

lemma ts_with_window_Ok:
  "ts_with_window w = Ok c \<longleftrightarrow> w \<noteq> 0 \<and> c = \<lparr> tc_window_seconds = w, tc_last_issued = Map.empty \<rparr>"
  by (auto simp: ts_with_window_def word_gt_0)

text \<open>A process that starts after the windows of the file is bounded by the window it starts in.\<close>

lemma started_inv:
  assumes "sqlite_inv db" and "ts_with_window w = (Ok c :: ts_counter mcpix)"
    and "windows_past db (later div w)"
  shows "clocked_rx_inv w (later div w) later \<lparr> store_st = db, counter_st = c \<rparr>"
proof -
  have c: "w \<noteq> 0" "tc_window_seconds c = w" "tc_last_issued c = Map.empty"
    using assms(2) by (auto simp: ts_with_window_Ok)
  have "receipts_bounded (sqlite_view db) (floor_view (later div w) c)"
    unfolding receipts_bounded_def
  proof (intro allI impI)
    fix sid t r
    assume "ms_receipts (sqlite_view db) (sid, t) = Some r"
    then obtain row where "db_receipts db (sid_as_str sid, as_i64 t) = Some row"
      by (auto simp: sqlite_view_def)
    then have less: "t < later div w" using assms(3) unfolding windows_past_def by blast
    then have "later div w \<noteq> 0" by auto
    with less show "\<exists>l. floor_view (later div w) c sid = Some l \<and> t \<le> l"
      by (simp add: floor_view_def c le_pred)
  qed
  with assms(1) c show ?thesis by (simp add: clocked_rx_inv_def floor_inv_def)
qed

definition clock_inv :: "clocked \<Rightarrow> bool" where
  "clock_inv x \<longleftrightarrow> (case x of (y, now_t, boot) \<Rightarrow>
     (\<exists>w. clocked_rx.conc_inv (boot div w) w now_t {} y) \<and> clocked_rx.serial_inv {} y \<and> one_decides y)"

lemma clock_inv_step:
  assumes L: "crypto_ok L" and step: "clock_step L x y" and inv: "clock_inv x"
  shows "clock_inv y"
  using step inv
proof (induction rule: clock_step.induct)
  case (access now_t x y boot)
  then obtain w where "clocked_rx.conc_inv (boot div w) w now_t {} x" "clocked_rx.serial_inv {} x"
    "one_decides x"
    by (auto simp: clock_inv_def)
  with access(1,2) show ?case
    using clocked_rx.conc_inv_step [OF L] clocked_rx.serial_inv_step [OF L] unfolding clock_inv_def by blast
next
  case (tick boot later x now_t)
  then obtain w where "clocked_rx.conc_inv (boot div w) w now_t {} x" "clocked_rx.serial_inv {} x"
    "one_decides x"
    by (auto simp: clock_inv_def)
  moreover from this(1) have "clocked_rx.conc_inv (boot div w) w later {} x"
    using div_mono_u64 [OF tick(1), of w]
    by (auto simp: clocked_rx.conc_inv_def clocked_rx_inv_def floor_inv_def)
  ultimately show ?case by (auto simp: clock_inv_def)
next
  case (restart e1 e2 st db w c later ph evs now_t boot)
  from restart(4) obtain v where inv: "clocked_rx.conc_inv (boot div v) v now_t {} (st, ph, evs)"
    "clocked_rx.serial_inv {} (st, ph, evs)"
    by (auto simp: clock_inv_def)
  have db: "db = store_st st" using sqlite_open_Ok [OF restart(1)] .
  have "sqlite_inv db" using clocked_rx.conc_invD(1) [OF inv(1)] by (simp add: clocked_rx_inv_def db)
  from started_inv [OF this restart(2,3)]
  have "clocked_rx.conc_inv (later div w) w later {} (\<lparr> store_st = db, counter_st = c \<rparr>, \<lambda>_. CIdle, evs)"
    using inv(1) by (simp add: clocked_rx.conc_inv_def db)
  moreover have "clocked_rx.serial_inv {} (\<lparr> store_st = db, counter_st = c \<rparr>, \<lambda>_. CIdle, evs)"
    using inv(2) by (simp add: clocked_rx.serial_inv_def clocked_rx.decides_def db)
  ultimately show ?case by (auto simp: clock_inv_def one_decides_def)
qed

lemma clock_inv_reaches:
  assumes "crypto_ok L" and "(clock_step L)\<^sup>*\<^sup>* x y" and "clock_inv x"
  shows "clock_inv y"
  using assms(2,3) by (induction rule: rtranclp_induct) (auto intro: clock_inv_step [OF assms(1)])

lemma serial_clock:
  "serial_reaches L (clocked_sdk now_t) x y \<Longrightarrow> (clock_step L)\<^sup>*\<^sup>* (x, now_t, boot) (y, now_t, boot)"
  by (induction rule: rtranclp_induct) (auto intro: rtranclp.rtrancl_into_rtrancl clock_step.access)

definition empty_db :: sqlite_db where
  "empty_db = \<lparr> db_seeds = Map.empty, db_receipts = Map.empty \<rparr>"

definition clocked_start :: "ts_counter \<Rightarrow> u64 \<Rightarrow> clocked" where
  "clocked_start c now_t = (conc_start \<lparr> store_st = empty_db, counter_st = c \<rparr>, now_t, now_t)"

lemma empty_db_simps [simp]:
  "db_seeds empty_db = Map.empty" "db_receipts empty_db = Map.empty"
  "sqlite_view empty_db = mem_store_new" "sqlite_inv empty_db" "windows_past empty_db q"
  by (simp_all add: empty_db_def sqlite_view_def mem_store_new_def fun_eq_iff sqlite_inv_def
      store_view_wf_def windows_past_def)

lemma clocked_start_inv:
  assumes "ts_with_window w = (Ok c :: ts_counter mcpix)"
  shows "clock_inv (clocked_start c now_t)"
  using started_inv [of empty_db w c now_t] assms
  by (auto simp: clock_inv_def clocked_start_def conc_start_def clocked_rx.conc_inv_def mem_store_new_def
      clocked_rx.serial_inv_def clocked_rx.decides_def one_decides_def consumed_keys_def
      intro!: exI [of _ w])

section \<open>A charge and its payment\<close>

definition stream_seed :: "(nat \<Rightarrow> byte) \<Rightarrow> seed" where
  "stream_seed stream = seed_from_bytes (map stream [0 ..< SEED_LEN])"

text \<open>What a session leaves that registers, charges once in window \<open>t\<close> and is paid.\<close>

definition paid_db :: "crypto_lib \<Rightarrow> seed_id \<Rightarrow> seed \<Rightarrow> u64 \<Rightarrow> u64 \<Rightarrow> sqlite_db" where
  "paid_db L sid s t a = \<lparr> db_seeds = [sid_as_str sid \<mapsto> seed_as_bytes s],
     db_receipts = [(sid_as_str sid, as_i64 t) \<mapsto>
       \<lparr> row_amount_cents = as_i64 a, row_expected_c2 = pay_code L s t, row_consumed = 1 \<rparr>] \<rparr>"

lemma stream_seed_simps [simp]:
  "seed_wf (stream_seed stream)" "seed_as_bytes (stream_seed stream) = map stream [0 ..< SEED_LEN]"
  by (simp_all add: stream_seed_def seed_from_bytes_def seed_wf_def SEED_LEN_def)

lemma paid_db_simps [simp]:
  "db_seeds (paid_db L sid s t a) (sid_as_str sid) = Some (seed_as_bytes s)"
  "db_receipts (paid_db L sid s t a) (sid_as_str i, as_i64 u) = Some row \<longleftrightarrow> i = sid \<and> u = t \<and>
     row = \<lparr> row_amount_cents = as_i64 a, row_expected_c2 = pay_code L s t, row_consumed = 1 \<rparr>"
  "windows_past (paid_db L sid s t a) q \<longleftrightarrow> t < q"
  by (auto simp: paid_db_def windows_past_def)

lemma clocked_charge:
  assumes "crypto_ok L" and "seed_id_wf sid" and "sql_fault e = None"
    and "db_seeds db (sid_as_str sid) = Some (seed_as_bytes s)" "seed_wf s"
    and "ts_with_window w = (Ok c :: ts_counter mcpix)" and "t = now_t div w"
  shows "sdk_run L (clocked_sdk now_t) [Generate (e, (), e) sid a, Validate (e, e) sid t (pay_code L s t)]
      \<lparr> store_st = db, counter_st = c \<rparr> = ([Charged sid t, Accepted sid t],
    \<lparr> store_st = db \<lparr> db_receipts := (db_receipts db) ((sid_as_str sid, as_i64 t) \<mapsto>
        \<lparr> row_amount_cents = as_i64 a, row_expected_c2 = pay_code L s t, row_consumed = 1 \<rparr>) \<rparr>,
      counter_st = \<lparr> tc_window_seconds = w, tc_last_issued = [sid \<mapsto> t] \<rparr> \<rparr>)"
proof -
  have "ts_next now_t sid c = (Ok t, \<lparr> tc_window_seconds = w, tc_last_issued = [sid \<mapsto> t] \<rparr>)"
    using assms(6,7) by (auto simp: ts_with_window_Ok ts_next_cases Let_def)
  then show ?thesis
    using sqlite_charge_and_accept [where sdk = "clocked_sdk now_t" and st = "\<lparr> store_st = db, counter_st = c \<rparr>"
        and ec = "()", OF _ assms(1-3) _ assms(5)] assms(4)
    by (simp del: sdk_step.simps sdk_run.simps)
qed

lemma clocked_first_session:
  assumes "crypto_ok L" and "seed_id_wf sid" and "sql_fault e = None"
    and "ts_with_window w = (Ok c :: ts_counter mcpix)" and "t = now_t div w"
  shows "sdk_run L (clocked_sdk now_t) [Register (Inr stream, e) sid, Generate (e, (), e) sid a,
      Validate (e, e) sid t (pay_code L (stream_seed stream) t)] \<lparr> store_st = empty_db, counter_st = c \<rparr> =
    ([Charged sid t, Accepted sid t], \<lparr> store_st = paid_db L sid (stream_seed stream) t a,
       counter_st = \<lparr> tc_window_seconds = w, tc_last_issued = [sid \<mapsto> t] \<rparr> \<rparr>)"
proof -
  let ?db = "empty_db \<lparr> db_seeds := [sid_as_str sid \<mapsto> map stream [0 ..< SEED_LEN]] \<rparr>"
  have "sdk_step L (clocked_sdk now_t) (Register (Inr stream, e) sid) \<lparr> store_st = empty_db, counter_st = c \<rparr> =
      ([], \<lparr> store_st = ?db, counter_st = c \<rparr>)"
    using sqlite_register_run [of "clocked_sdk now_t" e] assms(3) by simp
  moreover have "db_seeds ?db (sid_as_str sid) = Some (seed_as_bytes (stream_seed stream))" by simp
  ultimately show ?thesis
    using clocked_charge [OF assms(1-3) _ _ assms(4,5), where db = ?db and s = "stream_seed stream" and a = a]
    by (simp del: sdk_step.simps add: paid_db_def empty_db_def)
qed

text \<open>The process that made the charge does not make it again in its window.\<close>

lemma clocked_same_process:
  assumes "crypto_ok L" and "sql_fault e = None" and "seed_wf s" and "w \<noteq> 0" and "later div w = t"
    and "st = \<lparr> store_st = paid_db L sid s t a,
        counter_st = \<lparr> tc_window_seconds = w, tc_last_issued = [sid \<mapsto> t] \<rparr> \<rparr>"
  shows "generate_charge L (clocked_sdk later) (e, (), e) sid b st = (Err (CounterCollision w), st)"
    and "validate_receipt L (clocked_sdk later) (e, e) sid t (pay_code L s t) st = (Ok Replay, st)"
proof -
  have "ts_next later sid (counter_st st) = (Err (CounterCollision w), counter_st st)"
    using assms(4,5) by (simp add: assms(6) ts_next_cases)
  moreover have "sqlite_get_seed e sid (store_st st) = Ok (Some s)"
    using assms(2) seed_try_from_slice_as_bytes [OF assms(3)] by (simp add: assms(6) sqlite_get_seed_def)
  ultimately show "generate_charge L (clocked_sdk later) (e, (), e) sid b st = (Err (CounterCollision w), st)"
    by (simp add: generate_charge_def on_counter_def sqlite_store_ops_def)
  show "validate_receipt L (clocked_sdk later) (e, e) sid t (pay_code L s t) st = (Ok Replay, st)"
    by (rule sqlite_replay [OF _ assms(1,2)]) (simp_all add: assms(6))
qed

section \<open>Properties\<close>

text \<open>
  C6. Over a SQLite file and the clock as the counter, threads run any calls, the engine fails in any
  call, the clock jumps within the life of a process and the process is stopped and started between
  any two accesses, with windows of any length. When every start finds the clock in a window later
  than every receipt in the file, the clock does not go behind that start, and no two threads decide
  on one receipt, no counter is ever charged twice and no charge is accepted twice.
\<close>
theorem later_windows_keep_codes_single_use:
  assumes "crypto_ok L" and "ts_with_window w = (Ok c :: ts_counter mcpix)"
    and "(clock_step L)\<^sup>*\<^sup>* (clocked_start c start_t) ((st, ph, evs), now_t, boot)"
  shows "distinct (charged evs) \<and> distinct (accepted evs) \<and> set (accepted evs) \<subseteq> set (charged evs)"
proof -
  from clock_inv_reaches [OF assms(1,3) clocked_start_inv [OF assms(2)]]
  obtain v where inv: "clocked_rx.conc_inv (boot div v) v now_t {} (st, ph, evs)"
    "clocked_rx.serial_inv {} (st, ph, evs)"
    by (auto simp: clock_inv_def)
  have "set (accepted evs) \<subseteq> set (charged evs)"
    using clocked_rx.conc_invD(5,6) [OF inv(1)] consumed_dom [of "sqlite_view (store_st st)"] by simp
  then show ?thesis
    using inv(2) clocked_rx.conc_invD(3) [OF inv(1)] by (simp add: clocked_rx.serial_inv_def)
qed

theorem later_windows_keep_codes_single_use_witness:
  "\<exists>evs. evs = [Charged demo_sid 3, Accepted demo_sid 3, Charged demo_sid 4, Accepted demo_sid 4] \<and>
    distinct (charged evs) \<and> distinct (accepted evs)"
proof -
  let ?c = "\<lparr> tc_window_seconds = 30, tc_last_issued = Map.empty \<rparr>"
  let ?evs = "[Charged demo_sid 3, Accepted demo_sid 3]"
  let ?s = "stream_seed demo_stream"
  let ?db = "paid_db demo_crypto demo_sid ?s 3 5"
  let ?st = "\<lparr> store_st = ?db, counter_st = \<lparr> tc_window_seconds = 30, tc_last_issued = [demo_sid \<mapsto> 3] \<rparr> \<rparr>"
  have w: "ts_with_window 30 = (Ok ?c :: ts_counter mcpix)" by (simp add: ts_with_window_def)
  have "sdk_run demo_crypto (clocked_sdk 100) [Register (Inr demo_stream, demo_env) demo_sid,
      Generate (demo_env, (), demo_env) demo_sid 5, Validate (demo_env, demo_env) demo_sid 3
        (pay_code demo_crypto ?s 3)] \<lparr> store_st = empty_db, counter_st = ?c \<rparr> = (?evs, ?st)"
    by (rule clocked_first_session [OF demo_crypto_ok demo_sid_wf demo_env_fault w]) simp
  note sdk_run_interleaves [OF demo_crypto_ok _ this, of "[]"]
  then have first: "(clock_step demo_crypto)\<^sup>*\<^sup>* (clocked_start ?c 100) ((?st, \<lambda>_. CIdle, ?evs), 100, 100)"
    unfolding clocked_start_def conc_start_def by (intro serial_clock) (simp del: sdk_run.simps)
  have again: "clock_step demo_crypto ((?st, \<lambda>_. CIdle, ?evs), 100, 100)
      ((\<lparr> store_st = ?db, counter_st = ?c \<rparr>, \<lambda>_. CIdle, ?evs), 130, 130)"
    by (rule clock_step.restart [where ?e1.0 = demo_env and ?e2.0 = demo_env and w = 30])
      (simp_all add: sqlite_open_def sqlite_init_schema_def w)
  obtain st2 where "sdk_run demo_crypto (clocked_sdk 130)
      [Generate (demo_env, (), demo_env) demo_sid 7, Validate (demo_env, demo_env) demo_sid 4 (pay_code demo_crypto ?s 4)]
      \<lparr> store_st = ?db, counter_st = ?c \<rparr> = ([Charged demo_sid 4, Accepted demo_sid 4], st2)"
    using clocked_charge [OF demo_crypto_ok demo_sid_wf demo_env_fault _ _ w, of ?db ?s 4 130 7]
    by (simp del: sdk_run.simps)
  note sdk_run_interleaves [OF demo_crypto_ok _ this, of ?evs]
  then have "(clock_step demo_crypto)\<^sup>*\<^sup>*
      ((\<lparr> store_st = ?db, counter_st = ?c \<rparr>, \<lambda>_. CIdle, ?evs), 130, 130)
      ((st2, \<lambda>_. CIdle, ?evs @ [Charged demo_sid 4, Accepted demo_sid 4]), 130, 130)"
    by (intro serial_clock) (simp del: sdk_run.simps)
  with first again have "(clock_step demo_crypto)\<^sup>*\<^sup>* (clocked_start ?c 100)
      ((st2, \<lambda>_. CIdle, ?evs @ [Charged demo_sid 4, Accepted demo_sid 4]), 130, 130)"
    by (meson rtranclp.rtrancl_into_rtrancl rtranclp_trans)
  from later_windows_keep_codes_single_use [OF demo_crypto_ok w this] show ?thesis by simp
qed

text \<open>
  C30. A restart in the window of a charge loses that charge. As long as the clock shows the window, the
  process that made it answers a second charge with \<open>CounterCollision\<close> and a second presentation of
  its code with \<open>Replay\<close>, and keeps its state; the process that is started again over the same file
  charges the same \<open>T\<close> for any amount, with the code that was already accepted, and accepts that
  code again.
\<close>
theorem restart_forgets_the_window:
  assumes L: "crypto_ok L" and sid: "seed_id_wf sid" and fault: "sql_fault e = None"
    and w: "ts_with_window w = (Ok c :: ts_counter mcpix)"
    and t: "t = now_t div w" and same: "later div w = t" and code: "code = pay_code L (stream_seed stream) t"
    and first: "sdk_run L (clocked_sdk now_t) [Register (Inr stream, e) sid, Generate (e, (), e) sid a,
      Validate (e, e) sid t code] \<lparr> store_st = empty_db, counter_st = c \<rparr> = (evs, st)"
    and again: "sqlite_open e e (store_st st) = Ok db"
  shows "evs = [Charged sid t, Accepted sid t] \<and>
    generate_charge L (clocked_sdk later) (e, (), e) sid b st = (Err (CounterCollision w), st) \<and>
    validate_receipt L (clocked_sdk later) (e, e) sid t code st = (Ok Replay, st) \<and>
    fst (sdk_run L (clocked_sdk later) [Generate (e, (), e) sid b, Validate (e, e) sid t code]
      \<lparr> store_st = db, counter_st = c \<rparr>) = [Charged sid t, Accepted sid t]"
proof -
  let ?s = "stream_seed stream"
  from clocked_first_session [OF L sid fault w t, of stream a] first code
  have st: "evs = [Charged sid t, Accepted sid t]" "st = \<lparr> store_st = paid_db L sid ?s t a,
      counter_st = \<lparr> tc_window_seconds = w, tc_last_issued = [sid \<mapsto> t] \<rparr> \<rparr>"
    by simp_all
  have db: "db = paid_db L sid ?s t a" using sqlite_open_Ok [OF again] st by simp
  have "w \<noteq> 0" using w by (simp add: ts_with_window_Ok)
  from clocked_same_process [OF L fault _ this same st(2)]
    clocked_charge [OF L sid fault _ _ w same [symmetric], of db ?s b]
  show ?thesis by (simp del: sdk_run.simps add: st db code)
qed

theorem restart_forgets_the_window_witness:
  "\<exists>st. generate_charge demo_crypto (clocked_sdk 119) (demo_env, (), demo_env) demo_sid 100000 st =
      (Err (CounterCollision 30), st) \<and>
    fst (sdk_run demo_crypto (clocked_sdk 119) [Generate (demo_env, (), demo_env) demo_sid 100000,
      Validate (demo_env, demo_env) demo_sid 3 (pay_code demo_crypto (stream_seed demo_stream) 3)]
      (st \<lparr> counter_st := \<lparr> tc_window_seconds = 30, tc_last_issued = Map.empty \<rparr> \<rparr>)) =
    [Charged demo_sid 3, Accepted demo_sid 3] \<and>
    db_receipts (store_st st) (sid_as_str demo_sid, as_i64 3) \<noteq> None"
proof -
  let ?c = "\<lparr> tc_window_seconds = 30, tc_last_issued = Map.empty \<rparr>"
  let ?db = "paid_db demo_crypto demo_sid (stream_seed demo_stream) 3 1"
  let ?st = "\<lparr> store_st = ?db, counter_st = \<lparr> tc_window_seconds = 30, tc_last_issued = [demo_sid \<mapsto> 3] \<rparr> \<rparr>"
  have w: "ts_with_window 30 = (Ok ?c :: ts_counter mcpix)" by (simp add: ts_with_window_def)
  have t: "(3 :: u64) = 100 div 30" "119 div 30 = (3 :: u64)" by simp_all
  have "sqlite_open demo_env demo_env ?db = Ok ?db" by (simp add: sqlite_open_def sqlite_init_schema_def)
  then have open_db: "sqlite_open demo_env demo_env (store_st ?st) = Ok ?db" by simp
  note restart_forgets_the_window [OF demo_crypto_ok demo_sid_wf demo_env_fault w t refl
      clocked_first_session [OF demo_crypto_ok demo_sid_wf demo_env_fault w t(1)] open_db, of 100000]
  moreover have "db_receipts (store_st ?st) (sid_as_str demo_sid, as_i64 3) \<noteq> None" by (simp add: paid_db_def)
  moreover have "?st \<lparr> counter_st := ?c \<rparr> = \<lparr> store_st = ?db, counter_st = ?c \<rparr>" by simp
  ultimately show ?thesis
    by (intro exI [of _ ?st]) (simp only: simp_thms)
qed

end
