(* ===== verification/Ledger.thy ===== *)
theory Ledger
  imports Restarts
begin

text \<open>
  The specification of the receiver (\<^verbatim>\<open>mcpix-receiver-sdk\<close>): a ledger of charges. A charge has an
  amount and a code from the moment it is made; the only thing that happens to it afterwards is
  that it is spent, by the one presentation of its code that is answered \<open>Valid\<close>. The facade over
  each of the four configurations of store and counter implements the ledger, answer by answer.
\<close>

section \<open>The ledger\<close>

record entry =
  en_amount :: u64
  en_code :: bytes
  en_spent :: bool

record ledger =
  lg_seeds :: "seed_id \<rightharpoonup> seed"
  lg_charges :: "seed_id \<times> u64 \<rightharpoonup> entry"

definition ledger_empty :: ledger where
  "ledger_empty = \<lparr> lg_seeds = Map.empty, lg_charges = Map.empty \<rparr>"

text \<open>What a client asks, and what it is answered.\<close>

datatype receiver_op =
    RegisterOp seed_id
  | ChargeOp seed_id u64
  | PresentOp seed_id u64 bytes

datatype receiver_answer =
    Registered registration_proof
  | ChargeAnswer charge
  | Verdict validation_outcome

inductive ledger_step ::
  "crypto_lib \<Rightarrow> receiver_op \<Rightarrow> receiver_answer mcpix \<Rightarrow> ledger \<Rightarrow> ledger \<Rightarrow> bool" for L where
  registers: "seed_wf s \<Longrightarrow> ledger_step L (RegisterOp sid) (Ok (Registered \<lparr> rp_seed_id = sid \<rparr>)) lg
     (lg \<lparr> lg_seeds := (lg_seeds lg)(sid \<mapsto> s) \<rparr>)"
| charges: "lg_seeds lg sid = Some s \<Longrightarrow> lg_charges lg (sid, n) = None \<Longrightarrow>
     ledger_step L (ChargeOp sid amount) (Ok (ChargeAnswer (charge_spec L s sid n amount))) lg
     (lg \<lparr> lg_charges := (lg_charges lg)((sid, n) \<mapsto>
        \<lparr> en_amount = amount, en_code = pay_code L s n, en_spent = False \<rparr>) \<rparr>)"
| accepts: "lg_charges lg (sid, t) = Some en \<Longrightarrow> \<not> en_spent en \<Longrightarrow> code = en_code en \<Longrightarrow>
     ledger_step L (PresentOp sid t code) (Ok (Verdict Valid)) lg
     (lg \<lparr> lg_charges := (lg_charges lg)((sid, t) \<mapsto> en \<lparr> en_spent := True \<rparr>) \<rparr>)"
| mismatches: "lg_charges lg (sid, t) = Some en \<Longrightarrow> \<not> en_spent en \<Longrightarrow> code \<noteq> en_code en \<Longrightarrow>
     ledger_step L (PresentOp sid t code) (Ok (Verdict MismatchOutcome)) lg lg"
| replays: "lg_charges lg (sid, t) = Some en \<Longrightarrow> en_spent en \<Longrightarrow>
     ledger_step L (PresentOp sid t code) (Ok (Verdict Replay)) lg lg"
| fails: "\<not> is_ok r \<Longrightarrow> ledger_step L op r lg lg"

text \<open>A run of operations with their answers.\<close>

fun ledger_run ::
  "crypto_lib \<Rightarrow> (receiver_op \<times> receiver_answer mcpix) list \<Rightarrow> ledger \<Rightarrow> ledger \<Rightarrow> bool" where
  "ledger_run L [] lg lg' \<longleftrightarrow> lg' = lg"
| "ledger_run L ((op, r) # rest) lg lg' \<longleftrightarrow>
     (\<exists>lg1. ledger_step L op r lg lg1 \<and> ledger_run L rest lg1 lg')"

text \<open>A charge keeps its amount and its code, and a spent one stays spent.\<close>

definition entries_grow :: "ledger \<Rightarrow> ledger \<Rightarrow> bool" where
  "entries_grow lg lg' \<longleftrightarrow> (\<forall>k en. lg_charges lg k = Some en \<longrightarrow>
     (\<exists>en'. lg_charges lg' k = Some en' \<and> en_amount en' = en_amount en \<and> en_code en' = en_code en \<and>
        (en_spent en \<longrightarrow> en_spent en')))"

lemma ledger_step_grows: "ledger_step L op r lg lg' \<Longrightarrow> entries_grow lg lg'"
  by (induction rule: ledger_step.induct) (auto simp: entries_grow_def)

lemma ledger_run_grows: "ledger_run L run lg lg' \<Longrightarrow> entries_grow lg lg'"
proof (induction run arbitrary: lg)
  case (Cons x run)
  obtain op r where x: "x = (op, r)" by (cases x)
  with Cons.prems obtain lg1 where "ledger_step L op r lg lg1" "ledger_run L run lg1 lg'" by auto
  with ledger_step_grows Cons.IH have "entries_grow lg lg1" "entries_grow lg1 lg'" by blast+
  then show ?case unfolding entries_grow_def by metis
qed (simp add: entries_grow_def)

inductive_cases accepts_cases: "ledger_step L (PresentOp sid t code) (Ok (Verdict Valid)) lg lg'"

lemma accepted_was_open:
  assumes "ledger_step L (PresentOp sid t code) (Ok (Verdict Valid)) lg lg'"
  shows "\<exists>en. lg_charges lg (sid, t) = Some en \<and> \<not> en_spent en \<and> code = en_code en \<and>
    lg_charges lg' (sid, t) = Some (en \<lparr> en_spent := True \<rparr>)"
  using assms by (cases rule: accepts_cases) auto

section \<open>The facade as a state machine with answers\<close>

fun sdk_answer ::
  "crypto_lib \<Rightarrow> ('es, 'st, 'ec, 'ct, 'er) receiver_sdk \<Rightarrow> ('es, 'ec, 'er) sdk_call \<Rightarrow>
   ('st, 'ct) sdk_state \<Rightarrow> receiver_answer mcpix \<times> ('st, 'ct) sdk_state" where
  "sdk_answer L sdk (Register e sid) st = apfst (map_ok Registered) (register sdk e sid st)"
| "sdk_answer L sdk (Generate e sid amount) st =
     apfst (map_ok ChargeAnswer) (generate_charge L sdk e sid amount st)"
| "sdk_answer L sdk (Validate e sid t code) st =
     apfst (map_ok Verdict) (validate_receipt L sdk e sid t code st)"

fun op_of :: "('es, 'ec, 'er) sdk_call \<Rightarrow> receiver_op" where
  "op_of (Register e sid) = RegisterOp sid"
| "op_of (Generate e sid amount) = ChargeOp sid amount"
| "op_of (Validate e sid t code) = PresentOp sid t code"

fun sdk_answers ::
  "crypto_lib \<Rightarrow> ('es, 'st, 'ec, 'ct, 'er) receiver_sdk \<Rightarrow> ('es, 'ec, 'er) sdk_call list \<Rightarrow>
   ('st, 'ct) sdk_state \<Rightarrow> (receiver_op \<times> receiver_answer mcpix) list \<times> ('st, 'ct) sdk_state" where
  "sdk_answers L sdk [] st = ([], st)"
| "sdk_answers L sdk (call # calls) st =
     (let (r, st1) = sdk_answer L sdk call st; (rest, st2) = sdk_answers L sdk calls st1
      in ((op_of call, r) # rest, st2))"

lemma answers_state: "snd (sdk_answers L sdk calls st) = snd (sdk_run L sdk calls st)"
proof (induction calls arbitrary: st)
  case (Cons call calls)
  have "snd (sdk_answer L sdk call st) = snd (sdk_step L sdk call st)"
    by (cases call) (auto split: prod.splits outcome.splits validation_outcome.splits)
  with Cons show ?case by (simp add: split_beta)
qed simp

definition ledger_of :: "mem_store \<Rightarrow> ledger" where
  "ledger_of m =
     \<lparr> lg_seeds = ms_seeds m,
       lg_charges = (\<lambda>k. map_option (\<lambda>r. \<lparr> en_amount = rr_amount_cents r,
         en_code = c2_chars (rr_expected_c2 r), en_spent = rr_consumed r \<rparr>) (ms_receipts m k)) \<rparr>"

lemma ledger_of_new [simp]: "ledger_of mem_store_new = ledger_empty"
  by (simp add: ledger_of_def mem_store_new_def ledger_empty_def)

lemma ledger_of_put: "ledger_of (snd (mem_put_seed sid s m)) =
    (ledger_of m) \<lparr> lg_seeds := (lg_seeds (ledger_of m))(sid \<mapsto> s) \<rparr>"
  by (simp add: ledger_of_def mem_put_seed_def)

lemma ledger_of_save: "ledger_of (snd (mem_save_receipt (receipt_spec L s sid n a) m)) =
    (ledger_of m) \<lparr> lg_charges := (lg_charges (ledger_of m))((sid, n) \<mapsto>
      \<lparr> en_amount = a, en_code = pay_code L s n, en_spent = False \<rparr>) \<rparr>"
  by (auto simp: ledger_of_def mem_save_receipt_def Let_def pay_code_def fun_eq_iff)

lemma ledger_of_mark: "ms_receipts m (sid, t) = Some q \<Longrightarrow>
    ledger_of (snd (mem_mark_consumed sid t m)) =
    (ledger_of m) \<lparr> lg_charges := (lg_charges (ledger_of m))((sid, t) \<mapsto>
      \<lparr> en_amount = rr_amount_cents q, en_code = c2_chars (rr_expected_c2 q), en_spent = False \<rparr>
        \<lparr> en_spent := True \<rparr>) \<rparr>"
  by (auto simp: ledger_of_def mem_mark_consumed_def fun_eq_iff)

section \<open>Each receiver implements the ledger\<close>

context receiver
begin

lemma answer_implements:
  assumes L: "crypto_ok L" and I: "I st" and sid: "seed_id_wf (call_seed_id call)"
    and a: "sdk_answer L sdk call st = (r, st')"
  shows "I st' \<and> ledger_step L (op_of call) r (ledger_of (V st)) (ledger_of (V st'))"
proof (cases call)
  case (Register e i)
  obtain r1 where r1: "register sdk e i st = (r1, st')" and r: "r = map_ok Registered r1"
    using a Register by (cases "register sdk e i st") auto
  note eff = register_effect [OF I _ r1]
  show ?thesis
  proof (cases r1)
    case (Ok p)
    with eff sid Register obtain s where "rp_seed_id p = i" "seed_wf s" "I st'"
      "V st' = snd (mem_put_seed i s (V st))" by auto
    moreover have "p = \<lparr> rp_seed_id = i \<rparr>" using \<open>rp_seed_id p = i\<close> by (cases p) simp
    ultimately show ?thesis
      using Ok Register r by (simp add: ledger_of_put ledger_step.registers)
  qed (use eff sid Register r in \<open>auto intro: ledger_step.fails\<close>)
next
  case (Generate e i amount)
  obtain r1 where r1: "generate_charge L sdk e i amount st = (r1, st')" and r: "r = map_ok ChargeAnswer r1"
    using a Generate by (cases "generate_charge L sdk e i amount st") auto
  have wf: "seed_id_wf i" using sid Generate by simp
  note eff = generate_effect [OF L I wf r1]
  show ?thesis
  proof (cases r1)
    case (Ok c)
    with eff obtain s n where "ms_seeds (V st) i = Some s" "c = charge_spec L s i n amount" "I st'"
      "ms_receipts (V st) (i, n) = None" "V st' = snd (mem_save_receipt (receipt_spec L s i n amount) (V st))"
      by auto
    then show ?thesis
      using Ok Generate r ledger_step.charges [of "ledger_of (V st)" i s n L amount]
      by (simp add: ledger_of_save) (simp add: ledger_of_def)
  qed (use eff Generate r in \<open>auto intro: ledger_step.fails\<close>)
next
  case (Validate e i t code)
  obtain r1 where r1: "validate_receipt L sdk e i t code st = (r1, st')" and r: "r = map_ok Verdict r1"
    using a Validate by (cases "validate_receipt L sdk e i t code st") auto
  have wf: "seed_id_wf i" using sid Validate by simp
  note eff = validate_effect [OF L I wf r1]
  show ?thesis
  proof (cases r1)
    case (Ok out)
    with eff obtain q where q: "ms_receipts (V st) (i, t) = Some q" and I': "I st'" by auto
    let ?en = "\<lparr> en_amount = rr_amount_cents q, en_code = c2_chars (rr_expected_c2 q), en_spent = rr_consumed q \<rparr>"
    have en: "lg_charges (ledger_of (V st)) (i, t) = Some ?en" by (simp add: ledger_of_def q)
    note steps = ledger_step.accepts [OF en, of code L] ledger_step.mismatches [OF en, of code L]
      ledger_step.replays [OF en, of L code]
    show ?thesis
      using eff steps I' Ok Validate r q by (cases out) (auto simp: ledger_of_mark)
  qed (use eff Validate r in \<open>auto intro: ledger_step.fails\<close>)
qed

lemma answers_implement:
  assumes L: "crypto_ok L"
  shows "I st \<Longrightarrow> \<forall>call \<in> set calls. seed_id_wf (call_seed_id call) \<Longrightarrow>
    sdk_answers L sdk calls st = (run, st') \<Longrightarrow>
    I st' \<and> ledger_run L run (ledger_of (V st)) (ledger_of (V st'))"
proof (induction calls arbitrary: st st' run)
  case (Cons call calls)
  obtain r st1 where 1: "sdk_answer L sdk call st = (r, st1)" by force
  obtain rest st2 where 2: "sdk_answers L sdk calls st1 = (rest, st2)" by force
  from answer_implements [OF L Cons.prems(1) _ 1] Cons.prems(2)
  have a: "I st1" "ledger_step L (op_of call) r (ledger_of (V st)) (ledger_of (V st1))" by auto
  have "run = (op_of call, r) # rest" "st' = st2" using Cons.prems(3) 1 2 by auto
  with a Cons.IH [OF a(1) _ 2] Cons.prems(2) show ?case by auto
qed auto

end

section \<open>Properties\<close>

lemma sqlite_rx_ledger: "ledger_of (sqlite_view (store_st sqlite_init)) = ledger_empty"
  by (simp add: sqlite_init_view)

text \<open>
  C3. The receiver is its ledger: over any calls, in each of the four configurations (in-memory store
  with either counter, sealed store, SQLite with the engine failing in any call), what the facade
  answers, step by step, is a run of the ledger, and what the store holds at the end is the ledger
  of that run. So an answer \<open>Valid\<close> is the first presentation of exactly the code of a charge that
  was made, and every failing call leaves seeds and charges as they were.
\<close>
theorem receivers_implement_the_ledger:
  assumes L: "crypto_ok L" and "aead_ok A" and "w \<noteq> 0"
    and "\<forall>call \<in> set calls1. seed_id_wf (call_seed_id call)"
    and "\<forall>call \<in> set calls2. seed_id_wf (call_seed_id call)"
    and "\<forall>call \<in> set calls3. seed_id_wf (call_seed_id call)"
    and "\<forall>call \<in> set calls4. seed_id_wf (call_seed_id call)"
    and run1: "sdk_answers L default_sdk calls1 default_init = (run1, st1)"
    and run2: "sdk_answers L quantized_sdk calls2 (quantized_init w) = (run2, st2)"
    and run3: "sdk_answers L (sealed_sdk (chacha_sealer A key)) calls3 sealed_init = (run3, st3)"
    and run4: "sdk_answers L sqlite_sdk calls4 sqlite_init = (run4, st4)"
  shows "ledger_run L run1 ledger_empty (ledger_of (store_st st1)) \<and>
    ledger_run L run2 ledger_empty (ledger_of (store_st st2)) \<and>
    ledger_run L run3 ledger_empty (ledger_of (sealed_view (chacha_sealer A key) (store_st st3))) \<and>
    ledger_run L run4 ledger_empty (ledger_of (sqlite_view (store_st st4)))"
  using default_rx.answers_implement [OF L default_init_inv assms(4) run1]
    quantized_rx.answers_implement [OF L quantized_init_inv [OF assms(3)] assms(5) run2]
    sealed_rx.answers_implement [OF L sealed_init_inv [OF chacha_sealer_ok [OF assms(2)]] assms(6) run3]
    sqlite_rx.answers_implement [OF L sqlite_init_inv assms(7) run4]
  by (simp add: default_init_def quantized_init_def sealed_init_def sealed_new_view sqlite_rx_ledger)

theorem receivers_implement_the_ledger_witness:
  "ledger_run demo_crypto (fst (sdk_answers demo_crypto default_sdk demo_calls default_init))
     ledger_empty (ledger_of (store_st (snd (sdk_answers demo_crypto default_sdk demo_calls default_init))))"
proof -
  have wf: "\<forall>call \<in> set demo_calls. seed_id_wf (call_seed_id call)" by (simp add: demo_calls_def)
  have none: "\<forall>call \<in> set []. seed_id_wf (call_seed_id call)" by simp
  from receivers_implement_the_ledger [OF demo_crypto_ok demo_aead_ok _ wf none none none
      prod.collapse [symmetric] sdk_answers.simps(1) sdk_answers.simps(1) sdk_answers.simps(1), of 30]
  show ?thesis by simp
qed

text \<open>
  C31. A charge is immutable: whatever calls come after it, with the engine of SQLite failing in any of
  them, a charge in the store keeps its amount and its code, and once spent it stays spent.
\<close>
theorem charges_are_immutable:
  assumes L: "crypto_ok L" and "\<forall>call \<in> set (before @ after). seed_id_wf (call_seed_id call)"
    and run1: "sdk_answers L sqlite_sdk before sqlite_init = (run1, st1)"
    and run2: "sdk_answers L sqlite_sdk after st1 = (run2, st2)"
    and "lg_charges (ledger_of (sqlite_view (store_st st1))) (sid, t) = Some en"
  shows "\<exists>spent. lg_charges (ledger_of (sqlite_view (store_st st2))) (sid, t) = Some (en \<lparr> en_spent := spent \<rparr>) \<and>
    (en_spent en \<longrightarrow> spent)"
proof -
  have wf: "\<forall>call \<in> set before. seed_id_wf (call_seed_id call)" "\<forall>call \<in> set after. seed_id_wf (call_seed_id call)"
    using assms(2) by auto
  have I: "sqlite_rx_inv st1" using sqlite_rx.answers_implement [OF L sqlite_init_inv wf(1) run1] by blast
  have "entries_grow (ledger_of (sqlite_view (store_st st1))) (ledger_of (sqlite_view (store_st st2)))"
    using sqlite_rx.answers_implement [OF L I wf(2) run2] ledger_run_grows by blast
  with assms(5) obtain en' where en': "lg_charges (ledger_of (sqlite_view (store_st st2))) (sid, t) = Some en'"
    "en_amount en' = en_amount en" "en_code en' = en_code en" "en_spent en \<longrightarrow> en_spent en'"
    unfolding entries_grow_def by blast
  then have "en' = en \<lparr> en_spent := en_spent en' \<rparr>" by (cases en; cases en') simp
  with en' show ?thesis by metis
qed

theorem charges_are_immutable_witness:
  "\<exists>spent. lg_charges (ledger_of (sqlite_view (store_st (snd (sdk_answers demo_crypto sqlite_sdk
      [Validate (demo_env, demo_env) demo_sid 1 demo_code, Register (Inr (\<lambda>_. 1), demo_env) demo_sid,
       Generate (demo_env, (), demo_env) demo_sid 6]
      (snd (sdk_answers demo_crypto sqlite_sdk [Register (Inr demo_stream, demo_env) demo_sid,
         Generate (demo_env, (), demo_env) demo_sid 5] sqlite_init))))))) (demo_sid, 1) =
    Some \<lparr> en_amount = 5, en_code = pay_code demo_crypto (seed_from_bytes (map demo_stream [0 ..< SEED_LEN])) 1,
      en_spent = spent \<rparr>"
proof -
  let ?s = "seed_from_bytes (map demo_stream [0 ..< SEED_LEN])"
  let ?before = "[Register (Inr demo_stream, demo_env) demo_sid, Generate (demo_env, (), demo_env) demo_sid 5]"
  let ?after = "[Validate (demo_env, demo_env) demo_sid 1 demo_code,
    Register (Inr (\<lambda>_. 1), demo_env) demo_sid, Generate (demo_env, (), demo_env) demo_sid 6]"
  let ?st1 = "snd (sdk_answers demo_crypto sqlite_sdk ?before sqlite_init)"
  let ?st0 = "sqlite_init \<lparr> store_st := (store_st sqlite_init) \<lparr> db_seeds :=
    (db_seeds (store_st sqlite_init))(sid_as_str demo_sid \<mapsto> map demo_stream [0 ..< SEED_LEN]) \<rparr> \<rparr>"
  have "db_seeds (store_st ?st0) (sid_as_str demo_sid) = Some (seed_as_bytes ?s)" "seed_wf ?s"
    "counter_next demo_sid (counter_st ?st0) = (Ok 1, [demo_sid \<mapsto> 1])"
    by (simp_all add: seed_from_bytes_def seed_wf_def SEED_LEN_def sqlite_init_def reopened_def
        restore_all_def counter_new_def counter_next_def slot_or_insert_def checked_add_def)
  from sqlite_generate_run [where sdk = sqlite_sdk, OF _ demo_crypto_ok demo_sid_wf demo_env_fault this(1,2), of "()" 1 "[demo_sid \<mapsto> 1]" 5] this(3)
  have charge: "lg_charges (ledger_of (sqlite_view (store_st ?st1))) (demo_sid, 1) =
      Some \<lparr> en_amount = 5, en_code = pay_code demo_crypto ?s 1, en_spent = False \<rparr>"
    unfolding answers_state
    by (simp del: sdk_step.simps add: sqlite_register_run ledger_of_def sqlite_view_def row_receipt_def)
  have wf: "\<forall>call \<in> set (?before @ ?after). seed_id_wf (call_seed_id call)" by simp
  from charges_are_immutable [OF demo_crypto_ok wf prod.collapse [symmetric] prod.collapse [symmetric] charge]
  show ?thesis unfolding entry.update_convs by blast
qed

end
