(* ===== verification/SharedLedger.thy ===== *)
theory SharedLedger
  imports Ledger ClockRestarts
begin

text \<open>
  The receiver shared between threads against its ledger (\<^verbatim>\<open>mcpix-receiver-sdk/src/lib.rs\<close>). The
  calls of \<^verbatim>\<open>Concurrent\<close> overlap, access by access; the ledger of \<^verbatim>\<open>Ledger\<close> takes effect at once.
  A call that registers takes effect when its seed is stored, one that charges when its receipt is
  stored, one that validates when the receipt is marked.

  A charge is made with the seed its thread has read, which another thread may have replaced since:
  the specification keeps every seed that was ever registered.
\<close>

section \<open>The ledger with overlapping calls\<close>

record shared =
  sh_seeds :: "(seed_id \<times> seed) set"
  sh_ledger :: ledger

inductive shared_step :: "crypto_lib \<Rightarrow> sdk_event list \<Rightarrow> shared \<Rightarrow> shared \<Rightarrow> bool" for L where
  registers: "seed_wf s \<Longrightarrow> shared_step L [] \<lparr> sh_seeds = h, sh_ledger = lg \<rparr>
     \<lparr> sh_seeds = insert (sid, s) h, sh_ledger = lg \<lparr> lg_seeds := (lg_seeds lg)(sid \<mapsto> s) \<rparr> \<rparr>"
| charges: "(sid, s) \<in> h \<Longrightarrow> lg_charges lg (sid, n) = None \<Longrightarrow>
     shared_step L [Charged sid n] \<lparr> sh_seeds = h, sh_ledger = lg \<rparr>
     \<lparr> sh_seeds = h, sh_ledger = lg \<lparr> lg_charges := (lg_charges lg)((sid, n) \<mapsto>
        \<lparr> en_amount = amount, en_code = pay_code L s n, en_spent = False \<rparr>) \<rparr> \<rparr>"
| accepts: "lg_charges lg (sid, t) = Some en \<Longrightarrow> \<not> en_spent en \<Longrightarrow>
     shared_step L [Accepted sid t] \<lparr> sh_seeds = h, sh_ledger = lg \<rparr>
     \<lparr> sh_seeds = h, sh_ledger = lg \<lparr> lg_charges := (lg_charges lg)((sid, t) \<mapsto> en \<lparr> en_spent := True \<rparr>) \<rparr> \<rparr>"
| stutters: "shared_step L [] sh sh"

inductive shared_trace :: "crypto_lib \<Rightarrow> shared \<Rightarrow> sdk_event list \<Rightarrow> shared \<Rightarrow> bool" for L x where
  start: "shared_trace L x [] x"
| move: "shared_trace L x evs y \<Longrightarrow> shared_step L e y z \<Longrightarrow> shared_trace L x (evs @ e) z"

definition shared_empty :: shared where
  "shared_empty = \<lparr> sh_seeds = {}, sh_ledger = ledger_empty \<rparr>"

section \<open>What a trace of the ledger guarantees\<close>

text \<open>Each event speaks of a charge in the right state, and the ledger remembers the events.\<close>

definition trace_ok :: "sdk_event list \<Rightarrow> bool" where
  "trace_ok evs \<longleftrightarrow> distinct (charged evs) \<and> distinct (accepted evs) \<and>
     (\<forall>sid t before after. evs = before @ Accepted sid t # after \<longrightarrow> (sid, t) \<in> set (charged before))"

definition spent_charges :: "ledger \<Rightarrow> (seed_id \<times> u64) set" where
  "spent_charges lg = {k. \<exists>en. lg_charges lg k = Some en \<and> en_spent en}"

lemma spent_charges_upd:
  "lg_charges lg k = None \<Longrightarrow> \<not> en_spent en \<Longrightarrow>
     spent_charges (lg \<lparr> lg_charges := (lg_charges lg)(k \<mapsto> en) \<rparr>) = spent_charges lg"
  "en_spent en \<Longrightarrow>
     spent_charges (lg \<lparr> lg_charges := (lg_charges lg)(k \<mapsto> en) \<rparr>) = insert k (spent_charges lg)"
  by (auto simp: spent_charges_def)

lemma trace_ok_Nil [simp]: "trace_ok []"
  by (simp add: trace_ok_def)

lemma trace_ok_snoc:
  "trace_ok (evs @ [Charged sid t]) \<longleftrightarrow> trace_ok evs \<and> (sid, t) \<notin> set (charged evs)"
  "trace_ok (evs @ [Accepted sid t]) \<longleftrightarrow>
     trace_ok evs \<and> (sid, t) \<notin> set (accepted evs) \<and> (sid, t) \<in> set (charged evs)"
proof -
  have split: "evs @ [x] = before @ Accepted i n # after \<longleftrightarrow>
      (after = [] \<and> before = evs \<and> x = Accepted i n) \<or>
      (\<exists>rest. after = rest @ [x] \<and> evs = before @ Accepted i n # rest)" for x before i n after
    by (cases after rule: rev_cases) auto
  show "trace_ok (evs @ [Charged sid t]) \<longleftrightarrow> trace_ok evs \<and> (sid, t) \<notin> set (charged evs)"
    unfolding trace_ok_def split by auto
  show "trace_ok (evs @ [Accepted sid t]) \<longleftrightarrow>
      trace_ok evs \<and> (sid, t) \<notin> set (accepted evs) \<and> (sid, t) \<in> set (charged evs)"
    unfolding trace_ok_def split by auto
qed

lemma shared_trace_ok:
  assumes "shared_trace L shared_empty evs sh"
  shows "trace_ok evs \<and> set (charged evs) = dom (lg_charges (sh_ledger sh)) \<and>
    set (accepted evs) = spent_charges (sh_ledger sh)"
  using assms
proof (induction rule: shared_trace.induct)
  case start
  show ?case by (simp add: shared_empty_def ledger_empty_def spent_charges_def)
next
  case (move evs y e z)
  from move.hyps(2) move.IH show ?case
  proof (induction rule: shared_step.induct)
    case (charges sid s h lg n amount)
    then have "(sid, n) \<notin> set (charged evs)" by auto
    with charges show ?case by (simp del: fun_upd_apply add: trace_ok_snoc spent_charges_upd)
  next
    case (accepts lg sid t en h)
    then have "(sid, t) \<notin> set (accepted evs)" "(sid, t) \<in> set (charged evs)"
      by (auto simp: spent_charges_def)
    moreover have "(sid, t) \<in> dom (lg_charges lg)" using accepts by auto
    ultimately show ?case using accepts by (simp del: fun_upd_apply add: trace_ok_snoc spent_charges_upd insert_absorb)
  qed (auto simp: spent_charges_def)
qed

section \<open>Threads implement it\<close>

context receiver
begin

text \<open>The seeds the store and the threads hold were all registered.\<close>

definition seeds_known :: "(seed_id \<times> seed) set \<Rightarrow> ('st, 'ct) conc \<Rightarrow> bool" where
  "seeds_known h x \<longleftrightarrow> (case x of (st, ph, evs) \<Rightarrow>
     (\<forall>sid s. ms_seeds (V st) sid = Some s \<longrightarrow> (sid, s) \<in> h) \<and>
     (\<forall>i sid a s. ph i = CSeeded sid a s \<longrightarrow> (sid, s) \<in> h) \<and>
     (\<forall>i sid a s n. ph i = CCounted sid a s n \<longrightarrow> (sid, s) \<in> h))"

definition shared_of :: "(seed_id \<times> seed) set \<Rightarrow> ('st, 'ct) sdk_state \<Rightarrow> shared" where
  "shared_of h st = \<lparr> sh_seeds = h, sh_ledger = ledger_of (V st) \<rparr>"

text \<open>A step that writes nothing is none of the ledger.\<close>

lemma local_shared:
  assumes "seeds_known h (st, ph, evs)" and "V st' = V st"
    and "\<And>sid a s. p = CSeeded sid a s \<Longrightarrow> (sid, s) \<in> h"
    and "\<And>sid a s n. p = CCounted sid a s n \<Longrightarrow> (sid, s) \<in> h"
  shows "\<exists>h' e. evs = evs @ e \<and> seeds_known h' (st', ph(i := p), evs) \<and>
    shared_step L e (shared_of h st) (shared_of h' st')"
proof (intro exI conjI)
  show "seeds_known h (st', ph(i := p), evs)"
    using assms unfolding seeds_known_def by (auto split: if_splits)
  show "shared_step L [] (shared_of h st) (shared_of h st')"
    using assms(2) shared_step.stutters by (simp add: shared_of_def)
qed simp

text \<open>The three accesses that write.\<close>

lemma put_shared:
  assumes inv: "conc_inv D (st, ph, evs)" and known: "seeds_known h (st, ph, evs)"
    and i: "ph i = CFilled sid s" and put: "on_store (put_seed (sdk_store sdk) es sid s) st = (r, st')"
  shows "\<exists>h' e. evs = evs @ e \<and> seeds_known h' (st', ph(i := CIdle), evs) \<and>
    shared_step L e (shared_of h st) (shared_of h' st')"
proof (cases "r = Ok ()")
  case True
  have wf: "seed_id_wf sid" "seed_wf s" "I st"
    using conc_invD(1) [OF inv] conc_invD(2) [OF inv, of i] i by auto
  with on_store_put [OF wf(3,1,2) put] True have V: "V st' = snd (mem_put_seed sid s (V st))" by simp
  have "seeds_known (insert (sid, s) h) (st', ph(i := CIdle), evs)"
    using known by (auto simp: seeds_known_def V mem_put_seed_def split: if_splits)
  moreover have "shared_step L [] (shared_of h st) (shared_of (insert (sid, s) h) st')"
    unfolding shared_of_def V ledger_of_put by (rule shared_step.registers [OF wf(2)])
  ultimately show ?thesis by auto
next
  case False
  have "seed_id_wf sid" "seed_wf s" "I st"
    using conc_invD(1) [OF inv] conc_invD(2) [OF inv, of i] i by auto
  with on_store_put [OF this(3,1,2) put] False local_shared [OF known, of st' CIdle] show ?thesis by simp
qed

lemma save_shared:
  assumes L: "crypto_ok L" and inv: "conc_inv D (st, ph, evs)" and known: "seeds_known h (st, ph, evs)"
    and i: "ph i = CCounted sid amount s n"
    and save: "on_store (save_receipt (sdk_store sdk) es (receipt_spec L s sid n amount)) st = (r, st')"
  shows "\<exists>h' e. evs @ (if r = Ok () then [Charged sid n] else []) = evs @ e \<and>
    seeds_known h' (st', ph(i := CIdle), evs @ e) \<and> shared_step L e (shared_of h st) (shared_of h' st')"
proof -
  have wf: "seed_id_wf sid" "I st" and none: "ms_receipts (V st) (sid, n) = None"
    using conc_invD(1) [OF inv] conc_invD(2) [OF inv, of i] i by auto
  obtain l where "last_issued (counter_st st) sid = Some l" "n \<le> l"
    using conc_invD(2) [OF inv, of i] i by auto
  with on_store_save [OF wf(2) receipt_spec_wf [OF wf(1)] _ _ save, of l]
  have V: "if r = Ok () then V st' = snd (mem_save_receipt (receipt_spec L s sid n amount) (V st))
      else V st' = V st" by simp
  show ?thesis
  proof (cases "r = Ok ()")
    case True
    with V have V: "V st' = snd (mem_save_receipt (receipt_spec L s sid n amount) (V st))" by simp
    have h: "(sid, s) \<in> h" using known i unfolding seeds_known_def prod.case by blast
    have "ms_seeds (V st') = ms_seeds (V st)" by (simp add: V mem_save_receipt_def Let_def)
    then have "seeds_known h (st', ph(i := CIdle), evs @ [Charged sid n])"
      using known by (auto simp: seeds_known_def split: if_splits)
    moreover have "shared_step L [Charged sid n] (shared_of h st) (shared_of h st')"
      unfolding shared_of_def V ledger_of_save
      by (rule shared_step.charges [OF h]) (simp add: ledger_of_def none)
    ultimately show ?thesis using True by auto
  next
    case False
    with V local_shared [OF known, of st' CIdle] show ?thesis by simp
  qed
qed

lemma mark_shared:
  assumes inv: "conc_inv D (st, ph, evs)" "serial_inv K (st, ph, evs)" and known: "seeds_known h (st, ph, evs)"
    and i: "ph i = CDecided sid t out"
    and mark: "on_store (validate_mark sdk es sid t out) st = (r, st')"
  shows "\<exists>h' e. evs @ (if r = Ok Valid then [Accepted sid t] else []) = evs @ e \<and>
    seeds_known h' (st', ph(i := CIdle), evs @ e) \<and> shared_step L e (shared_of h st) (shared_of h' st')"
proof (cases "r = Ok Valid")
  case True
  have wf: "I st" "seed_id_wf sid" using conc_invD(1) [OF inv(1)] conc_invD(2) [OF inv(1), of i] i by auto
  have "out = Valid" using mark True
    by (auto simp: validate_mark_def on_store_def split: if_splits prod.splits)
  with i have "(sid, t) \<in> decides ph" by (auto simp: decides_def)
  then have open_: "(sid, t) \<notin> consumed_keys (V st)" using inv(2) by (auto simp: serial_inv_def)
  from validate_mark_effect [OF wf mark] True obtain q where q: "ms_receipts (V st) (sid, t) = Some q"
    and V: "V st' = snd (mem_mark_consumed sid t (V st))" by auto
  have "\<not> rr_consumed q" using open_ q by (auto simp: consumed_keys_def)
  then have "shared_step L [Accepted sid t] (shared_of h st) (shared_of h st')"
    unfolding shared_of_def V ledger_of_mark [OF q]
    by (intro shared_step.accepts) (simp_all add: ledger_of_def q)
  moreover have "ms_seeds (V st') = ms_seeds (V st)"
    by (auto simp: V mem_mark_consumed_def split: option.splits)
  then have "seeds_known h (st', ph(i := CIdle), evs @ [Accepted sid t])"
    using known by (auto simp: seeds_known_def split: if_splits)
  ultimately show ?thesis using True by auto
next
  case False
  have "I st" "seed_id_wf sid" using conc_invD(1) [OF inv(1)] conc_invD(2) [OF inv(1), of i] i by auto
  with validate_mark_effect [OF this mark] False local_shared [OF known, of st' CIdle] show ?thesis by simp
qed

lemma conc_step_shared:
  assumes L: "crypto_ok L" and step: "conc_step L sdk (st, ph, evs) (st', ph', evs')"
    and inv: "conc_inv D (st, ph, evs)" "serial_inv K (st, ph, evs)" and known: "seeds_known h (st, ph, evs)"
  shows "\<exists>h' e. evs' = evs @ e \<and> seeds_known h' (st', ph', evs') \<and>
    shared_step L e (shared_of h st) (shared_of h' st')"
  using step
proof (cases rule: conc_step.cases)
  case (reg_fill i sid er bs)
  then show ?thesis
    using local_shared [OF known, of st "CFilled sid (seed_from_bytes bs)"] by simp
next
  case (reg_put i sid s es r)
  then show ?thesis using put_shared [OF inv(1) known reg_put(3,4)] by simp
next
  case (gen_seed i sid es s amount)
  then have get: "get_seed (sdk_store sdk) es sid (store_st st) = Ok (Some s)" by (auto simp: outcome_simps)
  have "ms_seeds (V st) sid = Some s"
    using store.get_seed_law [OF _ gen_seed(5) get] conc_invD(1) [OF inv(1)] by (simp add: I_def V_def)
  with known have "(sid, s) \<in> h" by (simp add: seeds_known_def)
  with gen_seed local_shared [OF known, of st "CSeeded sid amount s"] show ?thesis by simp
next
  case (gen_count i sid amount s ec n)
  have "(sid, s) \<in> h" using known gen_count(3) unfolding seeds_known_def prod.case by blast
  moreover have "V st' = V st" using on_counter_issue [OF conc_invD(1) [OF inv(1)] gen_count(4)] by simp
  ultimately show ?thesis
    using gen_count local_shared [OF known, of st' "CCounted sid amount s n"] by simp
next
  case (gen_no_count i sid amount s ec r)
  then show ?thesis
    using on_counter_issue [OF conc_invD(1) [OF inv(1)] gen_no_count(4)]
      local_shared [OF known, of st' CIdle] by simp
next
  case (gen_save i sid amount s n out es r)
  have "seed_id_wf sid" using conc_invD(2) [OF inv(1), of i] gen_save(3) by auto
  then have q: "co_retained out = receipt_spec L s sid n amount"
    using gen_save(4) by (auto simp: apply_generate_charge_eq [OF L])
  show ?thesis using save_shared [OF L inv(1) known gen_save(3) gen_save(5) [unfolded q]] gen_save(1,2) by auto
next
  case (val_read i sid es t code out)
  then show ?thesis using local_shared [OF known, of st "CDecided sid t out"] by simp
next
  case (val_mark i sid t out es r)
  show ?thesis using mark_shared [OF inv known val_mark(3,4)] val_mark(1,2) by auto
qed

lemma serial_shared:
  assumes L: "crypto_ok L" and reach: "serial_reaches L sdk (conc_start st0) (st, ph, evs)"
    and I: "I st0" and seeds: "ms_seeds (V st0) = Map.empty"
  shows "\<exists>h. shared_trace L (shared_of {} st0) evs (shared_of h st)"
proof -
  have "case x of (st, ph, evs) \<Rightarrow> \<exists>h. seeds_known h x \<and> shared_trace L (shared_of {} st0) evs (shared_of h st)"
    if "serial_reaches L sdk (conc_start st0) x" for x
    using that
  proof (induction rule: rtranclp_induct)
    case base
    show ?case using seeds shared_trace.start
      by (force simp: conc_start_def seeds_known_def)
  next
    case (step x y)
    obtain st1 ph1 evs1 st2 ph2 evs2 where xy: "x = (st1, ph1, evs1)" "y = (st2, ph2, evs2)"
      by (metis prod_cases3)
    from step.IH xy obtain h where h: "seeds_known h (st1, ph1, evs1)"
      "shared_trace L (shared_of {} st0) evs1 (shared_of h st1)" by auto
    from serial_inv_reaches [OF L step.hyps(1) conc_inv_start [OF I] serial_inv_start] xy
    obtain h' e where "evs2 = evs1 @ e" "seeds_known h' (st2, ph2, evs2)"
      "shared_step L e (shared_of h st1) (shared_of h' st2)"
      using conc_step_shared [OF L _ _ _ h(1)] step.hyps(2) by blast
    with shared_trace.move [OF h(2)] show ?case by (auto simp: xy)
  qed
  from this [OF reach] show ?thesis by auto
qed

end

section \<open>Properties\<close>

text \<open>
  C4. Threads that share a receiver, with validations serialised and everything else overlapping in any
  way, implement the ledger: for each of the four configurations of store and counter, the charges
  handed out and the codes accepted are, in their order, a trace of the ledger that ends in what the
  store holds. So each charge is made once and accepted at most once, and only after it was made.
\<close>
theorem threads_implement_the_ledger:
  assumes L: "crypto_ok L" and "aead_ok A" and "w \<noteq> 0"
    and run: "serial_reaches L default_sdk (conc_start default_init) (st1, ph1, evs1)"
      "serial_reaches L quantized_sdk (conc_start (quantized_init w)) (st2, ph2, evs2)"
      "serial_reaches L (sealed_sdk (chacha_sealer A key)) (conc_start sealed_init) (st3, ph3, evs3)"
      "serial_reaches L sqlite_sdk (conc_start sqlite_init) (st4, ph4, evs4)"
  shows "\<exists>h1 h2 h3 h4.
    shared_trace L shared_empty evs1 \<lparr> sh_seeds = h1, sh_ledger = ledger_of (store_st st1) \<rparr> \<and>
    shared_trace L shared_empty evs2 \<lparr> sh_seeds = h2, sh_ledger = ledger_of (store_st st2) \<rparr> \<and>
    shared_trace L shared_empty evs3
      \<lparr> sh_seeds = h3, sh_ledger = ledger_of (sealed_view (chacha_sealer A key) (store_st st3)) \<rparr> \<and>
    shared_trace L shared_empty evs4
      \<lparr> sh_seeds = h4, sh_ledger = ledger_of (sqlite_view (store_st st4)) \<rparr> \<and>
    trace_ok evs1 \<and> trace_ok evs2 \<and> trace_ok evs3 \<and> trace_ok evs4"
proof -
  have sealer: "sealer_ok (chacha_sealer A key)" using chacha_sealer_ok [OF assms(2)] .
  obtain h1 where 1: "shared_trace L shared_empty evs1 \<lparr> sh_seeds = h1, sh_ledger = ledger_of (store_st st1) \<rparr>"
    using default_rx.serial_shared [OF L run(1) default_init_inv]
    by (auto simp: default_rx.shared_of_def default_init_def mem_store_new_def shared_empty_def
        ledger_of_def ledger_empty_def)
  obtain h2 where 2: "shared_trace L shared_empty evs2 \<lparr> sh_seeds = h2, sh_ledger = ledger_of (store_st st2) \<rparr>"
    using quantized_rx.serial_shared [OF L run(2) quantized_init_inv [OF assms(3)]]
    by (auto simp: quantized_rx.shared_of_def quantized_init_def mem_store_new_def shared_empty_def
        ledger_of_def ledger_empty_def)
  obtain h3 where 3: "shared_trace L shared_empty evs3
      \<lparr> sh_seeds = h3, sh_ledger = ledger_of (sealed_view (chacha_sealer A key) (store_st st3)) \<rparr>"
    using sealed_rx.serial_shared [OF L run(3) sealed_init_inv [OF sealer]]
    by (auto simp: sealed_rx.shared_of_def sealed_init_def sealed_new_view mem_store_new_def shared_empty_def
        ledger_of_def ledger_empty_def)
  obtain h4 where 4: "shared_trace L shared_empty evs4
      \<lparr> sh_seeds = h4, sh_ledger = ledger_of (sqlite_view (store_st st4)) \<rparr>"
    using sqlite_rx.serial_shared [OF L run(4) sqlite_init_inv] sqlite_init_view
    by (auto simp: sqlite_rx.shared_of_def shared_empty_def mem_store_new_def ledger_of_def ledger_empty_def)
  from 1 2 3 4 shared_trace_ok show ?thesis by blast
qed

theorem threads_implement_the_ledger_witness:
  "\<exists>st :: (mem_store, mem_counter) sdk_state. \<exists>h.
    shared_trace demo_crypto shared_empty [Charged demo_sid 1, Accepted demo_sid 1]
      \<lparr> sh_seeds = h, sh_ledger = ledger_of (store_st st) \<rparr> \<and>
    trace_ok [Charged demo_sid 1, Accepted demo_sid 1]"
proof -
  from demo_interleaving obtain st where
    run: "serial_reaches demo_crypto default_sdk (conc_start default_init)
       (st, \<lambda>_. CIdle, [Charged demo_sid 1, Accepted demo_sid 1])" by blast
  have stay: "serial_reaches demo_crypto sdk (conc_start init) (init, \<lambda>_. CIdle, [])"
    for sdk :: "('es, 'st, 'ec, 'ct, 'er) receiver_sdk" and init
    by (simp add: conc_start_def)
  have "(30 :: u64) \<noteq> 0" by simp
  from threads_implement_the_ledger [OF demo_crypto_ok demo_aead_ok this run stay stay stay]
  show ?thesis by blast
qed

end
