(* ===== verification/SdkFacts.thy ===== *)
theory SdkFacts
  imports ReceiverSdk
begin

text \<open>
  What the language bindings need of the receiver SDK on the in-memory store: exact results of
  its operations, the absence of panics, and the cases of a call that is decoded from strings.
\<close>

section \<open>Exact results on the in-memory store\<close>

lemma mem_generate_charge:
  assumes "crypto_ok L" and "seed_id_wf sid" and "sdk_store sdk = mem_store_ops"
  shows "generate_charge L sdk (e1, ec, e2) sid amount st =
    (case ms_seeds (store_st st) sid of
       None \<Rightarrow> (Err UnknownSeed, st)
     | Some s \<Rightarrow>
         (case sdk_counter sdk ec sid (counter_st st) of
            (Ok n, c) \<Rightarrow> (Ok (charge_spec L s sid n amount),
              st \<lparr> store_st := snd (mem_save_receipt (receipt_spec L s sid n amount) (store_st st)),
                   counter_st := c \<rparr>)
          | (Err x, c) \<Rightarrow> (Err x, st \<lparr> counter_st := c \<rparr>)
          | (Panic, c) \<Rightarrow> (Panic, st \<lparr> counter_st := c \<rparr>)))"
  using assms
  by (auto simp: generate_charge_def on_counter_def on_store_def apply_generate_charge_eq
      mem_store_ops_def mem_get_seed_def mem_save_receipt_def Let_def
      split: option.splits prod.splits outcome.splits)

lemma mem_validate_receipt:
  assumes "crypto_ok L" and "sdk_store sdk = mem_store_ops"
  shows "validate_receipt L sdk (e1, e2) sid t code st =
    (case c2_parse code of
       Ok c \<Rightarrow>
         (case ms_receipts (store_st st) (sid, t) of
            None \<Rightarrow> (Err NoRetainedReceipt, st)
          | Some q \<Rightarrow>
              if rr_consumed q then (Ok Replay, st)
              else if c = rr_expected_c2 q then (Ok Valid, st \<lparr> store_st := (store_st st)
                \<lparr> ms_receipts := (ms_receipts (store_st st))((sid, t) \<mapsto> q \<lparr> rr_consumed := True \<rparr>) \<rparr> \<rparr>)
              else (Ok MismatchOutcome, st))
     | Err x \<Rightarrow> (Err x, st) | Panic \<Rightarrow> (Panic, st))"
proof -
  have "apply_validate_receipt L q c =
      (if rr_consumed q then Replay else if c = rr_expected_c2 q then Valid else MismatchOutcome)"
    for q c
    using assms(1) by (auto simp: apply_validate_receipt_def verify_c2_iff)
  then show ?thesis
    using assms(2)
    by (auto simp: validate_receipt_def validate_read_def validate_mark_def on_store_def
        mem_store_ops_def mem_get_receipt_def mem_mark_consumed_def
        split: option.splits outcome.splits)
qed

lemma mem_register:
  assumes "sdk_store sdk = mem_store_ops" and "sdk_rng sdk = os_random_fill"
  shows "register sdk (er, es) sid st =
    (case er of
       Inl m \<Rightarrow> (Err (Storage (ascii ''rng failure: '' @ m)), st)
     | Inr stream \<Rightarrow> (Ok \<lparr> rp_seed_id = sid \<rparr>, st \<lparr> store_st := snd (mem_put_seed sid
         (seed_from_bytes (map stream [0 ..< SEED_LEN])) (store_st st)) \<rparr>))"
  using assms
  by (auto simp: register_def os_random_fill_def on_store_def mem_store_ops_def mem_put_seed_def
      split: sum.splits)

lemma counter_next_not_Panic: "fst (counter_next sid c) \<noteq> Panic"
  by (auto simp: counter_next_def split: prod.splits option.splits)

section \<open>No panics\<close>

lemma default_not_Panic:
  assumes "crypto_ok L" and "seed_id_wf sid"
  shows "fst (register default_sdk e sid st) \<noteq> Panic"
    "fst (generate_charge L default_sdk e' sid amount st) \<noteq> Panic"
    "fst (validate_receipt L default_sdk e'' sid t code st) \<noteq> Panic"
proof -
  obtain er es where e: "e = (er, es)" by (cases e)
  obtain e1 ec e2 where e': "e' = (e1, ec, e2)" by (cases e')
  obtain a b where e'': "e'' = (a, b)" by (cases e'')
  show "fst (register default_sdk e sid st) \<noteq> Panic"
    by (simp add: e mem_register split: sum.split)
  show "fst (generate_charge L default_sdk e' sid amount st) \<noteq> Panic"
    using counter_next_not_Panic [of sid "counter_st st"]
    by (auto simp: e' mem_generate_charge [OF assms] split: option.splits prod.splits outcome.splits)
  show "fst (validate_receipt L default_sdk e'' sid t code st) \<noteq> Panic"
    using assms(1)
    by (auto simp: e'' mem_validate_receipt split: option.splits outcome.splits)
qed

lemma charge_field_chars:
  assumes "seed_id_wf sid"
  shows "\<forall>b \<in> set (ch_transport_field (charge_spec L s sid n a)). is_alnum b"
  using field_of_alnum [OF assms c1_spec_wf] by simp

lemma sdk_run_append:
  "sdk_run L sdk (xs @ ys) st =
     (let (ev1, st1) = sdk_run L sdk xs st; (ev2, st2) = sdk_run L sdk ys st1 in (ev1 @ ev2, st2))"
  by (induction xs arbitrary: st) (auto split: prod.splits)

lemma default_run_inv:
  assumes "crypto_ok L" and "default_inv st" and "\<forall>call \<in> set calls. seed_id_wf (call_seed_id call)"
  shows "default_inv (snd (sdk_run L default_sdk calls st))"
  using default_rx.run_effect [OF assms prod.collapse [symmetric]] by blast

end
