(* ===== verification/Reference.thy ===== *)
theory Reference
  imports Ledger SdkFacts
begin

text \<open>
  The receiver as one function on the ledger. \<open>Ledger\<close> says what an answer may be; for the in-memory
  store with the sequential counter, which the bindings use, the answer is determined: this theory
  gives the function, errors included, and proves that the facade
  (\<^verbatim>\<open>mcpix-receiver-sdk/src/lib.rs\<close>) computes it.
\<close>

section \<open>The reference\<close>

record reference =
  rf_ledger :: ledger
  rf_last :: "seed_id \<rightharpoonup> u64"

definition reference_empty :: reference where
  "reference_empty = \<lparr> rf_ledger = ledger_empty, rf_last = Map.empty \<rparr>"

definition last_or_zero :: "seed_id \<Rightarrow> reference \<Rightarrow> u64" where
  "last_or_zero sid rf = (case rf_last rf sid of Some l \<Rightarrow> l | None \<Rightarrow> 0)"

text \<open>What the operating system's generator delivers matters to a registration only.\<close>

fun reference_step ::
  "crypto_lib \<Rightarrow> bytes + (nat \<Rightarrow> byte) \<Rightarrow> receiver_op \<Rightarrow> reference \<Rightarrow>
   receiver_answer mcpix \<times> reference" where
  "reference_step L os (RegisterOp sid) rf =
     (case os of
        Inl m \<Rightarrow> (Err (Storage (ascii ''rng failure: '' @ m)), rf)
      | Inr stream \<Rightarrow>
          (Ok (Registered \<lparr> rp_seed_id = sid \<rparr>),
           rf \<lparr> rf_ledger := (rf_ledger rf) \<lparr> lg_seeds := (lg_seeds (rf_ledger rf))
             (sid \<mapsto> Seed (map stream [0 ..< 32])) \<rparr> \<rparr>))"
| "reference_step L os (ChargeOp sid amount) rf =
     (case lg_seeds (rf_ledger rf) sid of
        None \<Rightarrow> (Err UnknownSeed, rf)
      | Some s \<Rightarrow>
          if last_or_zero sid rf = 2 ^ 64 - 1 then (Err CounterOverflow, rf)
          else
            let n = last_or_zero sid rf + 1 in
            (Ok (ChargeAnswer (charge_spec L s sid n amount)),
             \<lparr> rf_ledger = (rf_ledger rf) \<lparr> lg_charges := (lg_charges (rf_ledger rf))
                 ((sid, n) \<mapsto> \<lparr> en_amount = amount, en_code = pay_code L s n, en_spent = False \<rparr>) \<rparr>,
               rf_last = (rf_last rf)(sid \<mapsto> n) \<rparr>))"
| "reference_step L os (PresentOp sid t code) rf =
     (if length code \<noteq> 11 then (Err (TransportFieldLength (length code)), rf)
      else if \<not> list_all is_alnum code then (Err (TransportFieldCharset 0), rf)
      else
        case lg_charges (rf_ledger rf) (sid, t) of
          None \<Rightarrow> (Err NoRetainedReceipt, rf)
        | Some en \<Rightarrow>
            if en_spent en then (Ok (Verdict Replay), rf)
            else if code \<noteq> en_code en then (Ok (Verdict MismatchOutcome), rf)
            else
              (Ok (Verdict Valid),
               rf \<lparr> rf_ledger := (rf_ledger rf) \<lparr> lg_charges := (lg_charges (rf_ledger rf))
                 ((sid, t) \<mapsto> en \<lparr> en_spent := True \<rparr>) \<rparr> \<rparr>))"

fun reference_run ::
  "crypto_lib \<Rightarrow> ((bytes + (nat \<Rightarrow> byte)) \<times> receiver_op) list \<Rightarrow> reference \<Rightarrow>
   (receiver_op \<times> receiver_answer mcpix) list \<times> reference" where
  "reference_run L [] rf = ([], rf)"
| "reference_run L ((os, op) # ops) rf =
     (let (r, rf) = reference_step L os op rf; (rest, rf) = reference_run L ops rf
      in ((op, r) # rest, rf))"

section \<open>The facade computes it\<close>

definition reference_of :: "(mem_store, mem_counter) sdk_state \<Rightarrow> reference" where
  "reference_of st = \<lparr> rf_ledger = ledger_of (store_st st), rf_last = counter_st st \<rparr>"

text \<open>The environment of a call on \<open>default_sdk\<close> is the generator's answer, for a registration.\<close>

fun os_of :: "(unit, unit, bytes + (nat \<Rightarrow> byte)) sdk_call \<Rightarrow> bytes + (nat \<Rightarrow> byte)" where
  "os_of (Register (er, es) sid) = er"
| "os_of (Generate e sid amount) = Inl []"
| "os_of (Validate e sid t code) = Inl []"

lemma reference_of_fields [simp]:
  "rf_ledger (reference_of st) = ledger_of (store_st st)"
  "rf_last (reference_of st) = counter_st st"
  by (simp_all add: reference_of_def)

lemma ledger_lookups [simp]:
  "lg_seeds (ledger_of m) = ms_seeds m"
  "lg_charges (ledger_of m) k = map_option (\<lambda>r. \<lparr> en_amount = rr_amount_cents r,
     en_code = c2_chars (rr_expected_c2 r), en_spent = rr_consumed r \<rparr>) (ms_receipts m k)"
  by (simp_all add: ledger_of_def)

lemma counter_next_last:
  "counter_next sid (counter_st st) =
    (if last_or_zero sid (reference_of st) = 2 ^ 64 - 1 then (Err CounterOverflow, counter_st st)
     else (Ok (last_or_zero sid (reference_of st) + 1),
       (counter_st st)(sid \<mapsto> last_or_zero sid (reference_of st) + 1)))"
proof (cases "counter_st st sid")
  case None
  then show ?thesis
    by (simp add: counter_next_def slot_or_insert_def last_or_zero_def checked_add_def)
next
  case (Some v)
  then show ?thesis by (simp add: counter_next_Some last_or_zero_def)
qed

lemma answer_is_reference:
  assumes L: "crypto_ok L" and sid: "seed_id_wf (call_seed_id call)"
    and a: "sdk_answer L default_sdk call st = (r, st')"
  shows "reference_step L (os_of call) (op_of call) (reference_of st) = (r, reference_of st')"
proof (cases call)
  case (Register e i)
  obtain er es where e: "e = (er, es)" by (cases e)
  show ?thesis
    using a by (cases er)
      (auto simp: Register e mem_register ledger_of_put seed_from_bytes_def SEED_LEN_def reference_of_def)
next
  case (Generate e i amount)
  obtain e1 ec e2 where e: "e = (e1, ec, e2)" by (metis surj_pair)
  have "seed_id_wf i" using sid Generate by simp
  note g = mem_generate_charge [OF L this, of default_sdk e1 ec e2 amount st]
  show ?thesis
  proof (cases "ms_seeds (store_st st) i")
    case None
    with a g show ?thesis by (auto simp: Generate e)
  next
    case (Some s)
    with a g show ?thesis
      by (auto simp: Generate e counter_next_last ledger_of_save reference_of_def Let_def split: if_splits)
  qed
next
  case (Validate e i t code)
  obtain e1 e2 where e: "e = (e1, e2)" by (cases e)
  note v = mem_validate_receipt [OF L, of default_sdk e1 e2 i t code st]
  show ?thesis
  proof (cases "length code \<noteq> 11 \<or> \<not> list_all is_alnum code")
    case True
    with a v show ?thesis by (auto simp: Validate e c2_parse_def C2_TRANSPORT_LEN_def)
  next
    case False
    then have "c2_parse code = (Ok (C2 code) :: c2 mcpix)"
      by (simp add: c2_parse_def C2_TRANSPORT_LEN_def)
    moreover have "C2 code = rr_expected_c2 q \<longleftrightarrow> code = c2_chars (rr_expected_c2 q)" for q
      by (cases "rr_expected_c2 q") simp
    ultimately show ?thesis
      using False a v by (cases "ms_receipts (store_st st) (i, t)")
        (auto simp: Validate e reference_of_def ledger_of_def fun_eq_iff split: if_splits)
  qed
qed

lemma answers_are_reference:
  assumes "crypto_ok L"
  shows "\<forall>call \<in> set calls. seed_id_wf (call_seed_id call) \<Longrightarrow>
    sdk_answers L default_sdk calls st = (run, st') \<Longrightarrow>
    reference_run L (map (\<lambda>c. (os_of c, op_of c)) calls) (reference_of st) = (run, reference_of st')"
proof (induction calls arbitrary: st run st')
  case (Cons call calls)
  obtain r st1 where 1: "sdk_answer L default_sdk call st = (r, st1)" by force
  obtain rest st2 where 2: "sdk_answers L default_sdk calls st1 = (rest, st2)" by force
  from Cons.prems(1) have "seed_id_wf (call_seed_id call)" by simp
  from answer_is_reference [OF assms this 1] Cons.IH [OF _ 2] Cons.prems 1 2 show ?case by auto
qed simp

section \<open>Property\<close>

text \<open>
  C2. The facade over the in-memory store and the sequential counter is the reference function: for any
  calls, with any answers of the random source, every answer is the one the reference gives
  (\<open>UnknownSeed\<close> exactly without a seed, \<open>CounterOverflow\<close> exactly at \<open>2^64 - 1\<close>, a malformed code
  before an unknown charge before a replay before a mismatch), it never panics, and the state at the
  end is the reference's.
\<close>
theorem default_receiver_is_the_reference:
  assumes "crypto_ok L" and "\<forall>call \<in> set calls. seed_id_wf (call_seed_id call)"
  shows "(let (run, st) = sdk_answers L default_sdk calls default_init in (run, reference_of st)) =
    reference_run L (map (\<lambda>c. (os_of c, op_of c)) calls) reference_empty"
proof -
  have "reference_of default_init = reference_empty"
    by (simp add: reference_of_def default_init_def reference_empty_def counter_new_def)
  with answers_are_reference [OF assms prod.collapse [symmetric], of default_init]
  show ?thesis by (simp only: Let_def split_beta)
qed

theorem default_receiver_is_the_reference_witness:
  "map snd (fst (sdk_answers demo_crypto default_sdk
     [Generate ((), (), ()) demo_sid 5, Register (Inl (ascii ''no entropy''), ()) demo_sid,
      Validate ((), ()) demo_sid 1 (ascii ''short''), Validate ((), ()) demo_sid 1 (ascii ''ABCDEFGH123'')]
     default_init)) =
   [Err UnknownSeed, Err (Storage (ascii ''rng failure: no entropy'')), Err (TransportFieldLength 5),
    Err NoRetainedReceipt]"
proof -
  let ?calls = "[Generate ((), (), ()) demo_sid 5, Register (Inl (ascii ''no entropy''), ()) demo_sid,
      Validate ((), ()) demo_sid 1 (ascii ''short''), Validate ((), ()) demo_sid 1 (ascii ''ABCDEFGH123'')]
    :: (unit, unit, bytes + (nat \<Rightarrow> byte)) sdk_call list"
  have wf: "\<forall>call \<in> set ?calls. seed_id_wf (call_seed_id call)" by simp
  have "fst (sdk_answers demo_crypto default_sdk ?calls default_init) =
      fst (reference_run demo_crypto (map (\<lambda>c. (os_of c, op_of c)) ?calls) reference_empty)"
    using arg_cong [where f = fst, OF default_receiver_is_the_reference [OF demo_crypto_ok wf]]
    by (simp only: split_beta prod.sel Let_def)
  moreover have "map snd (fst (reference_run demo_crypto (map (\<lambda>c. (os_of c, op_of c)) ?calls) reference_empty)) =
     [Err UnknownSeed, Err (Storage (ascii ''rng failure: no entropy'')), Err (TransportFieldLength 5),
      Err NoRetainedReceipt]"
    by (simp add: reference_empty_def ledger_empty_def ascii_def is_alnum_def is_digit_def)
  ultimately show ?thesis by (simp only:)
qed

end
