(* ===== verification/BankReceivers.thy ===== *)
theory BankReceivers
  imports Version
begin

text \<open>
  \<^verbatim>\<open>mcpix-bank-receiver/src/lib.rs\<close>: the \<^verbatim>\<open>BankReceiver\<close> trait, its contract, and the in-memory
  bank.

  As for the stores, a trait object is a record of functions over an environment \<open>'e\<close> and the
  state \<open>'b\<close> of the bank.
\<close>

record requester =
  institution_id :: bytes

record ('e, 'b) bank_ops =
  register_seed :: "'e \<Rightarrow> seed_id \<Rightarrow> seed \<Rightarrow> 'b \<Rightarrow> unit mcpix \<times> 'b"
  lookup_seed :: "'e \<Rightarrow> seed_id \<Rightarrow> requester \<Rightarrow> 'b \<Rightarrow> seed mcpix"
  supported_versions :: "'e \<Rightarrow> 'b \<Rightarrow> protocol_version list mcpix"

text \<open>The default method of the trait.\<close>

definition supported_versions_default :: "protocol_version list mcpix" where
  "supported_versions_default = Ok version_all"

section \<open>The in-memory bank\<close>

type_synonym mem_bank = "seed_id \<rightharpoonup> seed"

definition mem_bank_new :: mem_bank where
  "mem_bank_new = Map.empty"

definition bank_register_seed :: "seed_id \<Rightarrow> seed \<Rightarrow> mem_bank \<Rightarrow> unit mcpix \<times> mem_bank" where
  "bank_register_seed receiver_id s b = (Ok (), b(receiver_id \<mapsto> s))"

definition bank_lookup_seed :: "seed_id \<Rightarrow> requester \<Rightarrow> mem_bank \<Rightarrow> seed mcpix" where
  "bank_lookup_seed receiver_id rq b = ok_or UnknownSeed (b receiver_id)"

definition mem_bank_ops :: "('e, mem_bank) bank_ops" where
  "mem_bank_ops =
     \<lparr> register_seed = \<lambda>e. bank_register_seed, lookup_seed = \<lambda>e. bank_lookup_seed,
       supported_versions = \<lambda>e b. supported_versions_default \<rparr>"

section \<open>The contract\<close>

text \<open>
  A registration that fails may or may not have reached the bank (the reply can be lost), but
  has no third effect. A lookup that succeeds returns the registered seed, and
  \<open>UnknownSeed\<close> is only said of a receiver that has none.
\<close>

locale bank_receiver =
  fixes ops :: "('e, 'b) bank_ops"
    and seeds :: "'b \<Rightarrow> seed_id \<rightharpoonup> seed"
    and inv :: "'b \<Rightarrow> bool"
  assumes register_law:
      "inv b \<Longrightarrow> seed_id_wf sid \<Longrightarrow> seed_wf s \<Longrightarrow> register_seed ops e sid s b = (r, b') \<Longrightarrow>
       inv b' \<and> (seeds b' = (seeds b)(sid \<mapsto> s) \<or> (r \<noteq> Ok () \<and> seeds b' = seeds b))"
    and lookup_law:
      "inv b \<Longrightarrow> seed_id_wf sid \<Longrightarrow> lookup_seed ops e sid rq b = Ok s \<Longrightarrow> seeds b sid = Some s"
    and lookup_unknown:
      "inv b \<Longrightarrow> seed_id_wf sid \<Longrightarrow> lookup_seed ops e sid rq b = Err UnknownSeed \<Longrightarrow>
       seeds b sid = None"
begin

lemma register_then_lookup:
  assumes "inv b" "seed_id_wf sid" "seed_wf s" "register_seed ops e sid s b = (Ok (), b')"
    and "lookup_seed ops e' sid rq b' = Ok s'"
  shows "s' = s"
  using register_law [OF assms(1-4)] lookup_law [OF _ assms(2,5)] by simp

lemma register_then_known:
  assumes "inv b" "seed_id_wf sid" "seed_wf s" "register_seed ops e sid s b = (Ok (), b')"
  shows "lookup_seed ops e' sid rq b' \<noteq> Err UnknownSeed"
  using register_law [OF assms] lookup_unknown [OF _ assms(2), of b' e' rq] by auto

end

definition bank_wf :: "mem_bank \<Rightarrow> bool" where
  "bank_wf b \<longleftrightarrow> (\<forall>sid s. b sid = Some s \<longrightarrow> seed_wf s)"

interpretation mem_bank: bank_receiver mem_bank_ops "\<lambda>b. b" bank_wf
  by unfold_locales
    (auto simp: mem_bank_ops_def bank_register_seed_def bank_lookup_seed_def bank_wf_def
      outcome_simps split: if_splits)

end
