(* ===== verification/HttpBank.thy ===== *)
theory HttpBank
  imports BankReceivers
begin

text \<open>
  \<^verbatim>\<open>mcpix-bank-receiver/src/wire.rs\<close>, \<^verbatim>\<open>http_server.rs\<close> and \<^verbatim>\<open>http_client.rs\<close>: the bank of the
  receiver behind a REST interface.

  Base64, JSON (\<^verbatim>\<open>serde\<close>), the URL parser, the extractors of axum (\<open>path_segment\<close> decodes a segment of
  the path, \<open>json_extract\<close> reads the content type and the body) and the HTTP library are third-party:
  they are the fields of \<open>wire_lib\<close>, with \<open>wire_ok\<close> and \<open>origin_ok\<close> for what their documentation
  says. The network of one call is its environment: the exchange is delivered, or the request or the
  reply is lost. Whatever makes \<^verbatim>\<open>send\<close> fail before anything is sent (no connection, or an institution
  that is no valid header value) is a \<open>RequestLost\<close> with the message of reqwest.
\<close>

record wire_lib =
  b64_encode :: "bytes \<Rightarrow> bytes"
  b64_decode :: "bytes \<Rightarrow> bytes + bytes"
  seed_to_json :: "bytes \<Rightarrow> bytes"
  seed_from_json :: "bytes \<Rightarrow> bytes + bytes"
  caps_to_json :: "bytes list \<Rightarrow> bytes"
  caps_from_json :: "bytes \<Rightarrow> bytes + bytes list"
  error_to_json :: "bytes \<Rightarrow> bytes"
  path_segment :: "bytes \<Rightarrow> (nat \<times> bytes) + bytes"
  json_extract :: "(bytes \<times> bytes) list \<Rightarrow> bytes \<Rightarrow> (nat \<times> bytes) + bytes"
  header_to_str :: "bytes \<Rightarrow> bytes option"
  url_path :: "bytes \<Rightarrow> bytes"
  show_status :: "nat \<Rightarrow> bytes"

definition is_success :: "nat \<Rightarrow> bool" where
  "is_success status \<longleftrightarrow> 200 \<le> status \<and> status < 300"

text \<open>The header that \<^verbatim>\<open>RequestBuilder::json\<close> adds to the request.\<close>

definition JSON_HEADER :: "bytes \<times> bytes" where
  "JSON_HEADER = (ascii ''content-type'', ascii ''application/json'')"

text \<open>
  Encoders are inverted by their decoders; a segment without escapes is what it says; the JSON
  extractor reads the payload of a seed sent as JSON; and what an extractor refuses is answered with
  a client error, the status and the text of its rejection.
\<close>

definition wire_ok :: "wire_lib \<Rightarrow> bool" where
  "wire_ok W \<longleftrightarrow>
     (\<forall>x. b64_decode W (b64_encode W x) = Inr x) \<and>
     (\<forall>x. seed_from_json W (seed_to_json W x) = Inr x) \<and>
     (\<forall>xs. caps_from_json W (caps_to_json W xs) = Inr xs) \<and>
     (\<forall>x. (\<forall>b \<in> set x. is_alnum b) \<longrightarrow> path_segment W x = Inr x) \<and>
     (\<forall>x. length x = SEED_LEN \<longrightarrow>
        json_extract W [JSON_HEADER] (seed_to_json W (b64_encode W x)) = Inr (b64_encode W x)) \<and>
     (\<forall>x status m. path_segment W x = Inl (status, m) \<longrightarrow> 400 \<le> status \<and> status < 500) \<and>
     (\<forall>hs x status m. json_extract W hs x = Inl (status, m) \<longrightarrow> 400 \<le> status \<and> status < 500)"

text \<open>The base URL is an origin: what follows it, of plain characters, is the path.\<close>

definition plain_path :: "bytes \<Rightarrow> bool" where
  "plain_path p \<longleftrightarrow> starts_with p [0x2F] \<and> (\<forall>b \<in> set p. is_alnum b \<or> b = 0x2F)"

definition origin_ok :: "wire_lib \<Rightarrow> bytes \<Rightarrow> bool" where
  "origin_ok W base \<longleftrightarrow> (\<forall>p. plain_path p \<longrightarrow> url_path W (base @ p) = p)"

section \<open>Wire format\<close>

record seed_payload =
  material_b64 :: bytes

definition payload_from_seed :: "wire_lib \<Rightarrow> seed \<Rightarrow> seed_payload" where
  "payload_from_seed W s = \<lparr> material_b64 = b64_encode W (seed_as_bytes s) \<rparr>"

definition payload_into_seed :: "wire_lib \<Rightarrow> seed_payload \<Rightarrow> seed mcpix" where
  "payload_into_seed W p =
     (case b64_decode W (material_b64 p) of
        Inl e \<Rightarrow> Err (Transport (ascii ''invalid base64: '' @ e))
      | Inr bs \<Rightarrow>
          if length bs \<noteq> SEED_LEN then Err (SeedLength SEED_LEN (length bs))
          else seed_try_from_slice bs)"

record capabilities_payload =
  cp_versions :: "bytes list"

section \<open>Server\<close>

datatype http_method = POST | GET | HEAD | OtherMethod

record http_request =
  rq_method :: http_method
  rq_path :: bytes
  rq_headers :: "(bytes \<times> bytes) list"
  rq_body :: bytes

record http_response =
  rs_status :: nat
  rs_body :: bytes

definition response :: "nat \<Rightarrow> bytes \<Rightarrow> http_response" where
  "response status body = \<lparr> rs_status = status, rs_body = body \<rparr>"

definition mcpix_err :: "wire_lib \<Rightarrow> nat \<Rightarrow> mcpix_error \<Rightarrow> http_response" where
  "mcpix_err W status err = response status (error_to_json W (mcpix_display err))"

text \<open>A handler that panics drops the connection: \<open>None\<close>.\<close>

definition handle_put_seed ::
  "wire_lib \<Rightarrow> ('e, 'b) bank_ops \<Rightarrow> 'e \<Rightarrow> bytes \<Rightarrow> seed_payload \<Rightarrow> 'b \<Rightarrow> http_response option \<times> 'b" where
  "handle_put_seed W bank e seed_id payload b =
     (case seed_id_new seed_id of
        Err err \<Rightarrow> (Some (mcpix_err W 400 err), b)
      | Panic \<Rightarrow> (None, b)
      | Ok sid \<Rightarrow>
         (case payload_into_seed W payload of
            Err err \<Rightarrow> (Some (mcpix_err W 400 err), b)
          | Panic \<Rightarrow> (None, b)
          | Ok seed \<Rightarrow>
             (case register_seed bank e sid seed b of
                (Ok _, b') \<Rightarrow> (Some (response 204 []), b')
              | (Err err, b') \<Rightarrow> (Some (mcpix_err W 500 err), b')
              | (Panic, b') \<Rightarrow> (None, b'))))"

definition institution_header :: "wire_lib \<Rightarrow> (bytes \<times> bytes) list \<Rightarrow> bytes" where
  "institution_header W headers =
     (case map_of headers (ascii ''x-institution-id'') of
        None \<Rightarrow> ascii ''anonymous''
      | Some v \<Rightarrow> (case header_to_str W v of None \<Rightarrow> ascii ''anonymous'' | Some s \<Rightarrow> s))"

definition handle_get_seed ::
  "wire_lib \<Rightarrow> ('e, 'b) bank_ops \<Rightarrow> 'e \<Rightarrow> bytes \<Rightarrow> (bytes \<times> bytes) list \<Rightarrow> 'b \<Rightarrow>
   http_response option" where
  "handle_get_seed W bank e seed_id headers b =
     (case seed_id_new seed_id of
        Err err \<Rightarrow> Some (mcpix_err W 400 err)
      | Panic \<Rightarrow> None
      | Ok sid \<Rightarrow>
         (case lookup_seed bank e sid \<lparr> institution_id = institution_header W headers \<rparr> b of
            Ok seed \<Rightarrow>
              Some (response 200 (seed_to_json W (material_b64 (payload_from_seed W seed))))
          | Err UnknownSeed \<Rightarrow> Some (mcpix_err W 404 UnknownSeed)
          | Err err \<Rightarrow> Some (mcpix_err W 500 err)
          | Panic \<Rightarrow> None))"

definition handle_get_capabilities ::
  "wire_lib \<Rightarrow> ('e, 'b) bank_ops \<Rightarrow> 'e \<Rightarrow> 'b \<Rightarrow> http_response option" where
  "handle_get_capabilities W bank e b =
     (case supported_versions bank e b of
        Ok versions \<Rightarrow>
          let payload = \<lparr> cp_versions = map version_prefix versions \<rparr>
          in Some (response 200 (caps_to_json W (cp_versions payload)))
      | Err err \<Rightarrow> Some (mcpix_err W 500 err)
      | Panic \<Rightarrow> None)"

text \<open>
  The routes. \<^verbatim>\<open>{seed_id}\<close> matches one non-empty segment of the path as it was sent. The extractors run
  before the handler, in the order of its parameters: \<^verbatim>\<open>Path\<close>, then \<^verbatim>\<open>Json\<close>; the first that refuses
  answers. \<^verbatim>\<open>get\<close> serves HEAD too, with the body left out; every other method is answered 405.
\<close>

fun extracted :: "(nat \<times> bytes) + 'a \<Rightarrow> ('a \<Rightarrow> http_response option) \<Rightarrow> http_response option" where
  "extracted (Inl (status, m)) k = Some (response status m)"
| "extracted (Inr x) k = k x"

fun on_get :: "http_method \<Rightarrow> http_response option \<Rightarrow> http_response option" where
  "on_get GET r = r"
| "on_get HEAD r = map_option (\<lambda>resp. resp \<lparr> rs_body := [] \<rparr>) r"
| "on_get _ r = Some (response 405 [])"

definition SEEDS_ROUTE :: bytes where "SEEDS_ROUTE = ascii ''/v1/seeds/''"
definition CAPABILITIES_ROUTE :: bytes where "CAPABILITIES_ROUTE = ascii ''/v1/capabilities''"
definition HEALTHZ_ROUTE :: bytes where "HEALTHZ_ROUTE = ascii ''/v1/healthz''"

definition router ::
  "wire_lib \<Rightarrow> ('e, 'b) bank_ops \<Rightarrow> 'e \<Rightarrow> http_request \<Rightarrow> 'b \<Rightarrow> http_response option \<times> 'b" where
  "router W bank e req b =
     (let path = rq_path req; segment = drop (length SEEDS_ROUTE) path in
      if starts_with path SEEDS_ROUTE \<and> segment \<noteq> [] \<and> 0x2F \<notin> set segment then
        (if rq_method req = POST then
           (case path_segment W segment of
              Inl (status, m) \<Rightarrow> (Some (response status m), b)
            | Inr seed_id \<Rightarrow>
               (case json_extract W (rq_headers req) (rq_body req) of
                  Inl (status, m) \<Rightarrow> (Some (response status m), b)
                | Inr m \<Rightarrow> handle_put_seed W bank e seed_id \<lparr> material_b64 = m \<rparr> b))
         else
           (on_get (rq_method req)
              (extracted (path_segment W segment)
                 (\<lambda>seed_id. handle_get_seed W bank e seed_id (rq_headers req) b)), b))
      else if path = CAPABILITIES_ROUTE then
        (on_get (rq_method req) (handle_get_capabilities W bank e b), b)
      else if path = HEALTHZ_ROUTE then
        (on_get (rq_method req) (Some (response 200 (ascii ''ok''))), b)
      else (Some (response 404 []), b))"

section \<open>Client\<close>

record http_bank =
  base_url :: bytes

text \<open>\<^verbatim>\<open>while url.ends_with('/') { url.pop(); }\<close>\<close>

function pop_slashes :: "bytes \<Rightarrow> bytes" where
  "pop_slashes url = (if url \<noteq> [] \<and> last url = 0x2F then pop_slashes (butlast url) else url)"
  by pat_completeness auto
termination by (relation "measure length") auto

declare pop_slashes.simps [simp del]

definition http_with_client :: "bytes \<Rightarrow> http_bank" where
  "http_with_client url = \<lparr> base_url = pop_slashes url \<rparr>"

definition http_new :: "bytes \<Rightarrow> http_bank" where
  "http_new url = http_with_client url"

definition seed_url :: "http_bank \<Rightarrow> seed_id \<Rightarrow> bytes" where
  "seed_url h sid = base_url h @ ascii ''/v1/seeds/'' @ sid_as_str sid"

definition capabilities_url :: "http_bank \<Rightarrow> bytes" where
  "capabilities_url h = base_url h @ ascii ''/v1/capabilities''"

text \<open>
  One exchange with a server: what the library reports as a failed \<^verbatim>\<open>send\<close> is a message; the
  reply may be lost after the server has acted.
\<close>

datatype net = Delivered | RequestLost bytes | ReplyLost bytes

definition exchange ::
  "('b \<Rightarrow> http_response option \<times> 'b) \<Rightarrow> net \<Rightarrow> 'b \<Rightarrow> (bytes + http_response) \<times> 'b" where
  "exchange server n b =
     (case n of
        RequestLost m \<Rightarrow> (Inl m, b)
      | ReplyLost m \<Rightarrow> (Inl m, snd (server b))
      | Delivered \<Rightarrow>
          (case server b of
             (Some r, b') \<Rightarrow> (Inr r, b')
           | (None, b') \<Rightarrow> (Inl (ascii ''connection closed''), b')))"

text \<open>The client's methods, over whatever server answers its requests.\<close>

definition register_over ::
  "wire_lib \<Rightarrow> http_bank \<Rightarrow> (http_request \<Rightarrow> 'b \<Rightarrow> http_response option \<times> 'b) \<Rightarrow> net \<Rightarrow> seed_id \<Rightarrow> seed \<Rightarrow> 'b \<Rightarrow>
   unit mcpix \<times> 'b" where
  "register_over W h server n sid s b =
    (let body = payload_from_seed W s;
         req = \<lparr> rq_method = POST, rq_path = url_path W (seed_url h sid), rq_headers = [JSON_HEADER],
                 rq_body = seed_to_json W (material_b64 body) \<rparr>;
         (resp, b') = exchange (server req) n b
     in (case resp of
           Inl m \<Rightarrow> Err (Transport (ascii ''POST seed: '' @ m))
         | Inr r \<Rightarrow>
             if \<not> is_success (rs_status r)
             then Err (Transport (ascii ''POST seed returned '' @ show_status W (rs_status r)))
             else Ok (), b'))"

definition lookup_over ::
  "wire_lib \<Rightarrow> http_bank \<Rightarrow> (http_request \<Rightarrow> 'b \<Rightarrow> http_response option \<times> 'b) \<Rightarrow> net \<Rightarrow> seed_id \<Rightarrow> requester \<Rightarrow>
   'b \<Rightarrow> seed mcpix" where
  "lookup_over W h server n sid rq b =
    (let req = \<lparr> rq_method = GET, rq_path = url_path W (seed_url h sid),
                 rq_headers = [(ascii ''x-institution-id'', institution_id rq)], rq_body = [] \<rparr>
     in case fst (exchange (server req) n b) of
          Inl m \<Rightarrow> Err (Transport (ascii ''GET seed: '' @ m))
        | Inr r \<Rightarrow>
            if is_success (rs_status r) then
              (case seed_from_json W (rs_body r) of
                 Inl m \<Rightarrow> Err (Transport (ascii ''decode seed: '' @ m))
               | Inr m \<Rightarrow> payload_into_seed W \<lparr> material_b64 = m \<rparr>)
            else if rs_status r = 404 then Err UnknownSeed
            else Err (Transport (ascii ''GET seed returned '' @ show_status W (rs_status r))))"

definition versions_over ::
  "wire_lib \<Rightarrow> http_bank \<Rightarrow> (http_request \<Rightarrow> 'b \<Rightarrow> http_response option \<times> 'b) \<Rightarrow> net \<Rightarrow> 'b \<Rightarrow>
   protocol_version list mcpix" where
  "versions_over W h server n b =
    (let req = \<lparr> rq_method = GET, rq_path = url_path W (capabilities_url h), rq_headers = [],
                 rq_body = [] \<rparr>
     in case fst (exchange (server req) n b) of
          Inl m \<Rightarrow> Err (Transport (ascii ''GET capabilities: '' @ m))
        | Inr r \<Rightarrow>
            if \<not> is_success (rs_status r)
            then Err (Transport (ascii ''GET capabilities returned '' @ show_status W (rs_status r)))
            else
              (case caps_from_json W (rs_body r) of
                 Inl m \<Rightarrow> Err (Transport (ascii ''decode capabilities: '' @ m))
               | Inr versions \<Rightarrow>
                   Ok (filter (\<lambda>v. list_ex (\<lambda>s. s = version_prefix v) versions) version_all)))"

text \<open>With the router behind the socket.\<close>

definition http_register_seed ::
  "wire_lib \<Rightarrow> http_bank \<Rightarrow> ('e, 'b) bank_ops \<Rightarrow> net \<times> 'e \<Rightarrow> seed_id \<Rightarrow> seed \<Rightarrow> 'b \<Rightarrow>
   unit mcpix \<times> 'b" where
  "http_register_seed W h bank = (\<lambda>(n, e). register_over W h (router W bank e) n)"

definition http_lookup_seed ::
  "wire_lib \<Rightarrow> http_bank \<Rightarrow> ('e, 'b) bank_ops \<Rightarrow> net \<times> 'e \<Rightarrow> seed_id \<Rightarrow> requester \<Rightarrow> 'b \<Rightarrow>
   seed mcpix" where
  "http_lookup_seed W h bank = (\<lambda>(n, e). lookup_over W h (router W bank e) n)"

definition http_supported_versions ::
  "wire_lib \<Rightarrow> http_bank \<Rightarrow> ('e, 'b) bank_ops \<Rightarrow> net \<times> 'e \<Rightarrow> 'b \<Rightarrow> protocol_version list mcpix" where
  "http_supported_versions W h bank = (\<lambda>(n, e). versions_over W h (router W bank e) n)"

lemmas http_client_defs = http_register_seed_def register_over_def http_lookup_seed_def lookup_over_def
  http_supported_versions_def versions_over_def

text \<open>The client in front of a server is again a bank.\<close>

definition http_bank_ops ::
  "wire_lib \<Rightarrow> http_bank \<Rightarrow> ('e, 'b) bank_ops \<Rightarrow> (net \<times> 'e, 'b) bank_ops" where
  "http_bank_ops W h bank =
     \<lparr> register_seed = http_register_seed W h bank, lookup_seed = http_lookup_seed W h bank,
       supported_versions = http_supported_versions W h bank \<rparr>"

section \<open>Routing\<close>

lemma pop_slashes_eq: "pop_slashes url = trim_end_matches 0x2F url"
proof (induction url rule: pop_slashes.induct)
  case (1 url)
  show ?case
  proof (cases "url \<noteq> [] \<and> last url = 0x2F")
    case True
    then obtain us where "url = us @ [0x2F]" by (metis append_butlast_last_id)
    with 1 True show ?thesis
      by (simp add: pop_slashes.simps [of "us @ [0x2F]"] trim_end_matches_def)
  next
    case False
    then have "pop_slashes url = url" by (subst pop_slashes.simps) auto
    with False show ?thesis
      by (cases url rule: rev_cases) (auto simp: trim_end_matches_def)
  qed
qed

lemma wire_okD [simp]:
  "wire_ok W \<Longrightarrow> b64_decode W (b64_encode W x) = Inr x"
  "wire_ok W \<Longrightarrow> seed_from_json W (seed_to_json W y) = Inr y"
  "wire_ok W \<Longrightarrow> caps_from_json W (caps_to_json W xs) = Inr xs"
  unfolding wire_ok_def by blast+

lemma wire_ok_extract [simp]:
  "wire_ok W \<Longrightarrow> seed_id_wf sid \<Longrightarrow> path_segment W (sid_as_str sid) = Inr (sid_as_str sid)"
  "wire_ok W \<Longrightarrow> seed_wf s \<Longrightarrow> json_extract W [JSON_HEADER]
     (seed_to_json W (b64_encode W (seed_as_bytes s))) = Inr (b64_encode W (seed_as_bytes s))"
proof -
  assume ok: "wire_ok W"
  have 1: "(\<forall>b \<in> set x. is_alnum b) \<longrightarrow> path_segment W x = Inr x" for x
    using ok unfolding wire_ok_def by blast
  have 2: "length x = SEED_LEN \<longrightarrow>
      json_extract W [JSON_HEADER] (seed_to_json W (b64_encode W x)) = Inr (b64_encode W x)" for x
    using ok unfolding wire_ok_def by blast
  show "seed_id_wf sid \<Longrightarrow> path_segment W (sid_as_str sid) = Inr (sid_as_str sid)"
    using 1 [of "sid_as_str sid"] by (simp add: seed_id_wf_def)
  show "seed_wf s \<Longrightarrow> json_extract W [JSON_HEADER]
      (seed_to_json W (b64_encode W (seed_as_bytes s))) = Inr (b64_encode W (seed_as_bytes s))"
    using 2 [of "seed_as_bytes s"] by (simp add: seed_wf_def SEED_LEN_def)
qed

lemma payload_roundtrip [simp]:
  "wire_ok W \<Longrightarrow> seed_wf s \<Longrightarrow> payload_into_seed W \<lparr> material_b64 = b64_encode W (seed_as_bytes s) \<rparr> = Ok s"
  by (simp add: payload_into_seed_def seed_try_from_slice_as_bytes SEED_LEN_def seed_wf_def)

lemma payload_into_seed_wf: "payload_into_seed W p = Ok s \<Longrightarrow> seed_wf s"
  by (auto simp: payload_into_seed_def seed_try_from_slice_wf split: sum.splits if_splits)

lemma payload_into_seed_not_Panic: "payload_into_seed W p \<noteq> Panic"
  by (auto simp: payload_into_seed_def seed_try_from_slice_def split: sum.splits)

lemma slash_not_alnum: "\<not> is_alnum 0x2F"
  by (simp add: is_alnum_def is_digit_def)

lemma seeds_route_plain: "seed_id_wf sid \<Longrightarrow> plain_path (SEEDS_ROUTE @ sid_as_str sid)"
  by (auto simp: plain_path_def starts_with_def SEEDS_ROUTE_def ascii_def seed_id_wf_def
      is_alnum_def is_digit_def)

lemma seed_url_path:
  "origin_ok W (base_url h) \<Longrightarrow> seed_id_wf sid \<Longrightarrow>
   url_path W (seed_url h sid) = SEEDS_ROUTE @ sid_as_str sid"
  using seeds_route_plain [of sid] by (simp add: origin_ok_def seed_url_def SEEDS_ROUTE_def)

lemma capabilities_url_path:
  "origin_ok W (base_url h) \<Longrightarrow> url_path W (capabilities_url h) = CAPABILITIES_ROUTE"
proof -
  assume o: "origin_ok W (base_url h)"
  have "plain_path CAPABILITIES_ROUTE"
    by (simp add: plain_path_def starts_with_def CAPABILITIES_ROUTE_def ascii_def is_alnum_def
        is_digit_def)
  with o show ?thesis by (simp add: origin_ok_def capabilities_url_def CAPABILITIES_ROUTE_def)
qed

lemma router_seed:
  assumes "wire_ok W" and "seed_id_wf sid" and "rq_path req = SEEDS_ROUTE @ sid_as_str sid"
  shows "router W bank e req b =
    (if rq_method req = POST then
       (case json_extract W (rq_headers req) (rq_body req) of
          Inl (status, m) \<Rightarrow> (Some (response status m), b)
        | Inr m \<Rightarrow> handle_put_seed W bank e (sid_as_str sid) \<lparr> material_b64 = m \<rparr> b)
     else (on_get (rq_method req) (handle_get_seed W bank e (sid_as_str sid) (rq_headers req) b), b))"
proof -
  have "0x2F \<notin> set (sid_as_str sid)" "sid_as_str sid \<noteq> []"
    using assms(2) slash_not_alnum by (auto simp: seed_id_wf_def)
  moreover have "drop (length SEEDS_ROUTE) (SEEDS_ROUTE @ sid_as_str sid) = sid_as_str sid" by simp
  ultimately show ?thesis
    using wire_ok_extract(1) [OF assms(1,2)]
    by (simp only: router_def Let_def assms(3)) (simp add: starts_with_def)
qed

lemma router_capabilities:
  "rq_path req = CAPABILITIES_ROUTE \<Longrightarrow>
   router W bank e req b = (on_get (rq_method req) (handle_get_capabilities W bank e b), b)"
  by (simp add: router_def starts_with_def SEEDS_ROUTE_def CAPABILITIES_ROUTE_def ascii_def)

section \<open>The client and the server together\<close>

lemma handle_put_seed_ok:
  "wire_ok W \<Longrightarrow> seed_id_wf sid \<Longrightarrow> seed_wf s \<Longrightarrow>
   handle_put_seed W bank e (sid_as_str sid) \<lparr> material_b64 = b64_encode W (seed_as_bytes s) \<rparr> b =
   (case register_seed bank e sid s b of
      (Ok _, b') \<Rightarrow> (Some (response 204 []), b')
    | (Err err, b') \<Rightarrow> (Some (mcpix_err W 500 err), b')
    | (Panic, b') \<Rightarrow> (None, b'))"
  by (simp add: handle_put_seed_def seed_id_new_as_str)

lemma http_register_eq:
  assumes "wire_ok W" "origin_ok W (base_url h)" "seed_id_wf sid" "seed_wf s"
  shows "http_register_seed W h bank (Delivered, e) sid s b =
    (case register_seed bank e sid s b of
       (Ok _, b') \<Rightarrow> (Ok (), b')
     | (Err err, b') \<Rightarrow>
         (Err (Transport (ascii ''POST seed returned '' @ show_status W 500)), b')
     | (Panic, b') \<Rightarrow> (Err (Transport (ascii ''POST seed: '' @ ascii ''connection closed'')), b'))"
  using assms
  by (simp add: http_client_defs exchange_def seed_url_path router_seed payload_from_seed_def
      handle_put_seed_ok Let_def is_success_def mcpix_err_def response_def
      split: outcome.splits prod.splits)

lemma http_lookup_eq:
  assumes "wire_ok W" "origin_ok W (base_url h)" "seed_id_wf sid"
    and "\<And>s. lookup_seed bank e sid \<lparr> institution_id = institution_header W
           [(ascii ''x-institution-id'', institution_id rq)] \<rparr> b = Ok s \<Longrightarrow> seed_wf s"
  shows "http_lookup_seed W h bank (Delivered, e) sid rq b =
    (case lookup_seed bank e sid \<lparr> institution_id = institution_header W
           [(ascii ''x-institution-id'', institution_id rq)] \<rparr> b of
       Ok s \<Rightarrow> Ok s
     | Err UnknownSeed \<Rightarrow> Err UnknownSeed
     | Err err \<Rightarrow> Err (Transport (ascii ''GET seed returned '' @ show_status W 500))
     | Panic \<Rightarrow> Err (Transport (ascii ''GET seed: '' @ ascii ''connection closed'')))"
proof (cases "lookup_seed bank e sid \<lparr> institution_id = institution_header W
           [(ascii ''x-institution-id'', institution_id rq)] \<rparr> b")
  case (Ok s)
  with assms show ?thesis
    by (simp add: http_client_defs exchange_def seed_url_path router_seed handle_get_seed_def
        seed_id_new_as_str is_success_def response_def payload_from_seed_def)
next
  case (Err err)
  with assms(1-3) show ?thesis
    by (cases err) (simp_all add: http_client_defs exchange_def seed_url_path router_seed
        handle_get_seed_def seed_id_new_as_str is_success_def response_def mcpix_err_def)
next
  case Panic
  with assms(1-3) show ?thesis
    by (simp add: http_client_defs exchange_def seed_url_path router_seed handle_get_seed_def
        seed_id_new_as_str)
qed

lemma http_versions_eq:
  assumes "wire_ok W" "origin_ok W (base_url h)" "supported_versions bank e b = Ok vs"
  shows "http_supported_versions W h bank (Delivered, e) b = Ok (filter (\<lambda>v. v \<in> set vs) version_all)"
  using assms
  by (simp add: http_client_defs exchange_def capabilities_url_path router_capabilities
      handle_get_capabilities_def is_success_def response_def Let_def list_ex_iff
      version_prefix_inject image_iff)

text \<open>A lost request leaves the server as it was; a lost reply does not undo the registration.\<close>

lemma http_register_lost:
  assumes "wire_ok W" "origin_ok W (base_url h)" "seed_id_wf sid" "seed_wf s"
  shows "http_register_seed W h bank (RequestLost m, e) sid s b = (Err (Transport (ascii ''POST seed: '' @ m)), b)"
    and "http_register_seed W h bank (ReplyLost m, e) sid s b =
      (Err (Transport (ascii ''POST seed: '' @ m)), snd (register_seed bank e sid s b))"
  using assms
  by (simp_all add: http_client_defs exchange_def seed_url_path router_seed
      payload_from_seed_def handle_put_seed_ok Let_def split: outcome.splits prod.splits)

lemma http_lookup_lost:
  "n \<noteq> Delivered \<Longrightarrow> \<exists>m. http_lookup_seed W h bank (n, e) sid rq b = Err (Transport m)"
  by (cases n) (simp_all add: http_client_defs exchange_def)

definition http_inv :: "wire_lib \<Rightarrow> http_bank \<Rightarrow> mem_bank \<Rightarrow> bool" where
  "http_inv W h b \<longleftrightarrow> wire_ok W \<and> origin_ok W (base_url h) \<and> bank_wf b"

lemma mem_bank_simps [simp]:
  "register_seed mem_bank_ops e sid s b = (Ok (), b(sid \<mapsto> s))"
  "lookup_seed mem_bank_ops e sid rq b = ok_or UnknownSeed (b sid)"
  "supported_versions mem_bank_ops e b = Ok version_all"
  by (simp_all add: mem_bank_ops_def bank_register_seed_def bank_lookup_seed_def
      supported_versions_default_def)

lemma http_lookup_mem:
  assumes "http_inv W h b" "seed_id_wf sid"
  shows "http_lookup_seed W h mem_bank_ops (Delivered, e) sid rq b = ok_or UnknownSeed (b sid)"
proof -
  have "seed_wf s" if "ok_or UnknownSeed (b sid) = Ok s" for s
    using that assms(1) by (auto simp: http_inv_def bank_wf_def outcome_simps)
  with assms http_lookup_eq [of W h sid mem_bank_ops e rq b] show ?thesis
    by (cases "b sid") (simp_all add: http_inv_def)
qed

interpretation http_bank: bank_receiver "http_bank_ops W h mem_bank_ops" "\<lambda>b. b" "http_inv W h"
  for W h
proof (unfold_locales, goal_cases)
  case (1 b sid s e r b')
  obtain n e' where e: "e = (n, e')" by (cases e)
  have "r = Ok () \<and> b' = b(sid \<mapsto> s) \<or> r \<noteq> Ok () \<and> (b' = b \<or> b' = b(sid \<mapsto> s))"
    using 1 e
    by (cases n) (auto simp: http_bank_ops_def http_inv_def http_register_eq http_register_lost)
  with 1 show ?case by (auto simp: http_inv_def bank_wf_def split: if_splits)
next
  case (2 b sid e rq s)
  obtain n e' where e: "e = (n, e')" by (cases e)
  with 2 http_lookup_lost [of n W h mem_bank_ops e' sid rq b] have "n = Delivered"
    by (auto simp: http_bank_ops_def)
  with 2 e show ?case by (simp add: http_bank_ops_def http_lookup_mem outcome_simps)
next
  case (3 b sid e rq)
  obtain n e' where e: "e = (n, e')" by (cases e)
  with 3 http_lookup_lost [of n W h mem_bank_ops e' sid rq b] have "n = Delivered"
    by (auto simp: http_bank_ops_def)
  with 3 e show ?case by (simp add: http_bank_ops_def http_lookup_mem outcome_simps)
qed

section \<open>A concrete instance\<close>

text \<open>
  Toy codecs that satisfy \<open>wire_ok\<close>: base64 and the JSON of a payload are the identity; a list
  of strings is written with an escape before every byte and a terminator after every string.
\<close>

definition demo_caps :: "bytes list \<Rightarrow> bytes" where
  "demo_caps xs = concat (map (\<lambda>x. concat (map (\<lambda>b. [1, b]) x) @ [0]) xs)"

fun demo_uncaps :: "bytes \<Rightarrow> bytes list" where
  "demo_uncaps [] = []"
| "demo_uncaps [a] = [[]]"
| "demo_uncaps (a # b # rest) =
     (if a = 0 then [] # demo_uncaps (b # rest)
      else case demo_uncaps rest of [] \<Rightarrow> [[b]] | x # xs \<Rightarrow> (b # x) # xs)"

lemma demo_uncaps_zero: "demo_uncaps (0 # rest) = [] # demo_uncaps rest"
  by (cases rest) auto

lemma demo_uncaps_string:
  "demo_uncaps (concat (map (\<lambda>b. [1, b]) x) @ 0 # rest) = x # demo_uncaps rest"
  by (induction x) (simp_all add: demo_uncaps_zero)

lemma demo_uncaps_caps: "demo_uncaps (demo_caps xs) = xs"
  by (induction xs) (simp_all add: demo_caps_def demo_uncaps_string)

definition demo_wire :: wire_lib where
  "demo_wire =
     \<lparr> b64_encode = \<lambda>x. x, b64_decode = Inr, seed_to_json = \<lambda>x. x, seed_from_json = Inr,
       caps_to_json = demo_caps, caps_from_json = \<lambda>x. Inr (demo_uncaps x),
       error_to_json = \<lambda>x. x, path_segment = Inr,
       json_extract = \<lambda>hs x. if map_of hs (fst JSON_HEADER) = Some (snd JSON_HEADER) then Inr x
         else Inl (415, ascii ''Expected request with `Content-Type: application/json`''),
       header_to_str = Some,
       url_path = drop 11, show_status = show_nat \<rparr>"

definition demo_http :: http_bank where
  "demo_http = http_with_client (ascii ''http://bank///'')"

lemma demo_wire_ok [simp]: "wire_ok demo_wire"
  by (auto simp: wire_ok_def demo_wire_def demo_uncaps_caps JSON_HEADER_def split: if_splits)

lemma demo_origin_ok [simp]: "origin_ok demo_wire (base_url demo_http)"
  by (simp add: origin_ok_def demo_wire_def demo_http_def http_with_client_def pop_slashes_eq
      trim_end_matches_def ascii_def)

section \<open>Properties\<close>

text \<open>
  C13. On delivered exchanges the HTTP client in front of the server is the bank behind the
  server: same registrations, same lookups (the unknown seed included), same versions. A lost
  request changes nothing, a lost reply is reported as a transport error although the server
  has registered the seed, and no fault is ever reported as \<open>UnknownSeed\<close>.
\<close>
theorem http_bank_is_the_bank_behind_it:
  assumes "wire_ok W" and "origin_ok W (base_url h)" and "seed_id_wf sid" and "seed_wf s"
    and "bank_wf b"
  shows "http_register_seed W h mem_bank_ops (Delivered, e) sid s b = bank_register_seed sid s b \<and>
    http_lookup_seed W h mem_bank_ops (Delivered, e) sid rq b = bank_lookup_seed sid rq b \<and>
    http_supported_versions W h mem_bank_ops (Delivered, e) b = supported_versions_default \<and>
    http_register_seed W h mem_bank_ops (RequestLost m, e) sid s b =
      (Err (Transport (ascii ''POST seed: '' @ m)), b) \<and>
    http_register_seed W h mem_bank_ops (ReplyLost m, e) sid s b =
      (Err (Transport (ascii ''POST seed: '' @ m)), snd (bank_register_seed sid s b)) \<and>
    (\<forall>n. n \<noteq> Delivered \<longrightarrow>
      (\<exists>m. http_lookup_seed W h mem_bank_ops (n, e) sid rq b = Err (Transport m)))"
proof -
  have inv: "http_inv W h b" using assms by (simp add: http_inv_def)
  show ?thesis
    using http_register_eq [OF assms(1-4), of mem_bank_ops e b]
      http_register_lost [OF assms(1-4), of mem_bank_ops m e b]
      http_lookup_mem [OF inv assms(3), of e rq]
      http_versions_eq [OF assms(1,2), of mem_bank_ops e b version_all]
      http_lookup_lost [of _ W h mem_bank_ops e sid rq b]
    by (simp add: bank_register_seed_def bank_lookup_seed_def supported_versions_default_def)
qed

theorem http_bank_is_the_bank_behind_it_witness:
  "let b = snd (bank_register_seed (SeedId [65]) (Seed (replicate 32 7)) mem_bank_new) in
   http_lookup_seed demo_wire demo_http mem_bank_ops (Delivered, ()) (SeedId [65])
     \<lparr> institution_id = [66] \<rparr> b = Ok (Seed (replicate 32 7)) \<and>
   http_lookup_seed demo_wire demo_http mem_bank_ops (Delivered, ()) (SeedId [65])
     \<lparr> institution_id = [66] \<rparr> mem_bank_new = Err UnknownSeed"
proof -
  have wf: "seed_id_wf (SeedId [65])" "seed_wf (Seed (replicate 32 7))"
    by (simp_all add: seed_id_wf_def seed_wf_def is_alnum_def is_digit_def)
  have b: "bank_wf [SeedId [65] \<mapsto> Seed (replicate 32 7)]" "bank_wf Map.empty"
    using wf by (simp_all add: bank_wf_def)
  from http_bank_is_the_bank_behind_it [OF demo_wire_ok demo_origin_ok wf b(1), of "()"]
    http_bank_is_the_bank_behind_it [OF demo_wire_ok demo_origin_ok wf b(2), of "()"]
  show ?thesis
    by (simp add: bank_register_seed_def bank_lookup_seed_def mem_bank_new_def Let_def)
qed

text \<open>
  Whatever request arrives, the server answers, and the bank changes only by a POST to the
  route of a valid seed identifier with a payload of exactly 32 bytes, which registers that seed
  and is answered 204; every other request leaves the bank as it was.
\<close>
theorem server_guards_the_bank:
  assumes "router W mem_bank_ops e req b = (resp, b')"
  shows "resp \<noteq> None \<and> (bank_wf b \<longrightarrow> bank_wf b') \<and>
    (b' = b \<or> (\<exists>sid s seg. seed_id_wf sid \<and> seed_wf s \<and> b' = b(sid \<mapsto> s) \<and>
       rq_method req = POST \<and> rq_path req = SEEDS_ROUTE @ seg \<and>
       path_segment W seg = Inr (sid_as_str sid) \<and> resp = Some (response 204 [])))"
proof -
  have put: "r \<noteq> None \<and> (b1 = b \<or> (\<exists>sid s. seed_id_wf sid \<and> seed_wf s \<and> b1 = b(sid \<mapsto> s) \<and>
      seg = sid_as_str sid \<and> r = Some (response 204 [])))"
    if "handle_put_seed W mem_bank_ops e seg p b = (r, b1)" for seg p r b1
  proof (cases "seed_id_new seg")
    case (Ok sid)
    then have sid: "sid = SeedId seg" "seed_id_wf sid" by (auto simp: seed_id_new_Ok_iff)
    show ?thesis
    proof (cases "payload_into_seed W p")
      case s: (Ok s)
      with that Ok have "r = Some (response 204 [])" "b1 = b(sid \<mapsto> s)"
        by (simp_all add: handle_put_seed_def)
      with sid payload_into_seed_wf [OF s] show ?thesis
        by (intro conjI disjI2 exI [of _ sid] exI [of _ s]) simp_all
    qed (use that Ok in \<open>auto simp: handle_put_seed_def payload_into_seed_not_Panic\<close>)
  qed (use that in \<open>auto simp: handle_put_seed_def\<close>)
  have ex: "extracted r k \<noteq> None" if "\<And>x. k x \<noteq> None" for r and k :: "bytes \<Rightarrow> http_response option"
    using that by (cases "(r, k)" rule: extracted.cases) auto
  have get: "handle_get_seed W mem_bank_ops e seg hs b \<noteq> None" for seg hs
    by (auto simp: handle_get_seed_def outcome_simps split: outcome.splits mcpix_error.splits)
  have og: "on_get m r \<noteq> None" if "r \<noteq> None" for m r
    using that by (cases m) auto
  have caps: "handle_get_capabilities W mem_bank_ops e b \<noteq> None"
    by (simp add: handle_get_capabilities_def)
  let ?seg = "drop (length SEEDS_ROUTE) (rq_path req)"
  have main: "resp \<noteq> None \<and> (b' = b \<or> (\<exists>sid s seg. seed_id_wf sid \<and> seed_wf s \<and> b' = b(sid \<mapsto> s) \<and>
       rq_method req = POST \<and> rq_path req = SEEDS_ROUTE @ seg \<and>
       path_segment W seg = Inr (sid_as_str sid) \<and> resp = Some (response 204 [])))"
  proof (cases "starts_with (rq_path req) SEEDS_ROUTE \<and> ?seg \<noteq> [] \<and> 0x2F \<notin> set ?seg")
    case True
    have path: "rq_path req = SEEDS_ROUTE @ ?seg"
      using True append_take_drop_id [of "length SEEDS_ROUTE" "rq_path req"]
      by (simp add: starts_with_def)
    show ?thesis
    proof (cases "rq_method req = POST")
      case post: True
      consider (refused) status m where "resp = Some (response status m)" "b' = b"
        | (handled) sid p where "path_segment W ?seg = Inr sid"
            "handle_put_seed W mem_bank_ops e sid p b = (resp, b')"
        using assms True post by (auto simp: router_def Let_def split: sum.splits prod.splits)
      then show ?thesis
      proof cases
        case (handled sid p)
        from handled(1) put [OF handled(2)] path post show ?thesis by metis
      qed simp
    next
      case False
      with assms True og [OF ex [OF get]] show ?thesis by (auto simp: router_def Let_def)
    qed
  next
    case False
    with assms og [OF caps] og show ?thesis by (auto simp: router_def Let_def split: if_splits)
  qed
  then show ?thesis by (auto simp: bank_wf_def split: if_splits)
qed

theorem server_guards_the_bank_witness:
  "snd (router demo_wire mem_bank_ops ()
     \<lparr> rq_method = POST, rq_path = ascii ''/v1/seeds/A0'', rq_headers = [JSON_HEADER],
       rq_body = replicate 32 7 \<rparr> mem_bank_new) = mem_bank_new"
proof -
  let ?req = "\<lparr> rq_method = POST, rq_path = ascii ''/v1/seeds/A0'', rq_headers = [JSON_HEADER],
       rq_body = replicate 32 7 \<rparr>"
  have "fst (router demo_wire mem_bank_ops () ?req mem_bank_new) \<noteq> Some (response 204 [])"
    by code_simp
  with server_guards_the_bank [OF prod.collapse [symmetric], of demo_wire "()" ?req mem_bank_new]
  show ?thesis by blast
qed

end
