(* ===== verification/Mtls.thy ===== *)
theory Mtls
  imports HttpBank
begin

text \<open>
  \<^verbatim>\<open>mcpix-bank-receiver/src/mtls.rs\<close>, \<^verbatim>\<open>mtls_server.rs\<close> and \<^verbatim>\<open>mtls_client.rs\<close>: the TLS
  configuration of the two banks.

  PEM and X.509 parsing, rustls and reqwest are third-party: \<open>pem_lib\<close>, \<open>x509_parse\<close> and \<open>tls_lib\<close>
  are parameters. A configuration is what was handed to the library; the library only says whether
  it accepts it (\<open>None\<close>) or with which message it refuses. The listening socket and the handshake
  are not in the sources. \<open>debug\<close> says whether debug assertions are compiled in.
\<close>

section \<open>PEM material\<close>

record pem_lib =
  pem_certs :: "bytes \<Rightarrow> (bytes + bytes) list"
  pem_private_key :: "bytes \<Rightarrow> bytes + bytes option"
  pem_crls :: "bytes \<Rightarrow> (bytes + bytes) list"

text \<open>The parsers only see PEM sections, which start with a \<^verbatim>\<open>BEGIN\<close> line; other bytes are skipped.\<close>

definition contains :: "bytes \<Rightarrow> bytes \<Rightarrow> bool" where
  "contains s p \<longleftrightarrow> list_ex (\<lambda>i. starts_with (drop i s) p) [0 ..< Suc (length s)]"

definition pem_ok :: "pem_lib \<Rightarrow> bool" where
  "pem_ok P \<longleftrightarrow>
     (\<forall>s. \<not> contains s (ascii ''-----BEGIN'') \<longrightarrow>
        pem_certs P s = [] \<and> pem_private_key P s = Inr None \<and> pem_crls P s = [])"

text \<open>\<^verbatim>\<open>collect::<Result<Vec<_>, _>>\<close>: all the values, or the first error.\<close>

fun collect_results :: "('e + 'a) list \<Rightarrow> 'e + 'a list" where
  "collect_results [] = Inr []"
| "collect_results (Inl e # rest) = Inl e"
| "collect_results (Inr x # rest) =
     (case collect_results rest of Inl e \<Rightarrow> Inl e | Inr xs \<Rightarrow> Inr (x # xs))"

fun of_result :: "string \<Rightarrow> bytes + 'a \<Rightarrow> 'a mcpix" where
  "of_result msg (Inl e) = Err (Transport (ascii msg @ e))"
| "of_result msg (Inr x) = Ok x"

fun of_check :: "string \<Rightarrow> bytes option \<Rightarrow> unit mcpix" where
  "of_check msg (Some e) = Err (Transport (ascii msg @ e))"
| "of_check msg None = Ok ()"

definition load_cert_chain :: "pem_lib \<Rightarrow> bytes \<Rightarrow> bytes list mcpix" where
  "load_cert_chain P pem = of_result ''read cert pem: '' (collect_results (pem_certs P pem))"

definition load_private_key :: "pem_lib \<Rightarrow> bytes \<Rightarrow> bytes mcpix" where
  "load_private_key P pem =
     and_then (of_result ''read key pem: '' (pem_private_key P pem))
       (ok_or (Transport (ascii ''no private key found in pem'')))"

definition load_crls :: "pem_lib \<Rightarrow> bytes \<Rightarrow> bytes list mcpix" where
  "load_crls P pem =
     (if pem = [] then Ok []
      else of_result ''read crl pem: '' (collect_results (pem_crls P pem)))"

section \<open>The institution of a certificate\<close>

definition INSTITUTION_URI_PREFIX :: bytes where
  "INSTITUTION_URI_PREFIX = ascii ''urn:mcpix:institution:''"

datatype general_name = UriName bytes | OtherName

text \<open>
  A parsed certificate: its subject alternative names (an error, absent, or the list) and the
  common names of its subject, each with the text it reads as, if any.
\<close>

record x509 =
  x_san :: "bytes + general_name list option"
  x_common_names :: "(bytes + bytes) list"

definition strip_prefix :: "bytes \<Rightarrow> bytes \<Rightarrow> bytes option" where
  "strip_prefix p s = (if starts_with s p then Some (drop (length p) s) else None)"

text \<open>The two loops: the first name with the prefix, the first common name that reads as text.\<close>

fun first_institution :: "general_name list \<Rightarrow> bytes option" where
  "first_institution [] = None"
| "first_institution (UriName uri # names) =
     (case strip_prefix INSTITUTION_URI_PREFIX uri of
        Some rest \<Rightarrow> Some rest
      | None \<Rightarrow> first_institution names)"
| "first_institution (OtherName # names) = first_institution names"

fun first_readable :: "(bytes + bytes) list \<Rightarrow> bytes option" where
  "first_readable [] = None"
| "first_readable (Inr cn # rest) = Some cn"
| "first_readable (Inl e # rest) = first_readable rest"

definition extract_institution_id :: "(bytes \<Rightarrow> bytes + x509) \<Rightarrow> bytes \<Rightarrow> bytes mcpix" where
  "extract_institution_id x509_parse cert_der =
     and_then (of_result ''parse cert: '' (x509_parse cert_der)) (\<lambda>cert.
     case (case x_san cert of Inr (Some names) \<Rightarrow> first_institution names | _ \<Rightarrow> None) of
       Some rest \<Rightarrow> Ok rest
     | None \<Rightarrow>
        (case first_readable (x_common_names cert) of
           Some cn \<Rightarrow> Ok cn
         | None \<Rightarrow> Err (Transport (ascii ''client cert lacks SAN URI and CN ''
             @ [0xE2, 0x80, 0x94] @ ascii '' cannot determine institution''))))"

section \<open>The TLS library\<close>

record tls_lib =
  root_add_err :: "bytes \<Rightarrow> bytes option"
  client_verifier_err :: "bytes list \<Rightarrow> bytes list option \<Rightarrow> bytes option"
  server_cert_err :: "bytes list \<Rightarrow> bytes \<Rightarrow> bytes option \<Rightarrow> bytes option"
  server_verifier_err :: "bytes list \<Rightarrow> bytes list \<Rightarrow> bytes option"
  client_auth_err :: "bytes list \<Rightarrow> bytes \<Rightarrow> bytes option"
  identity_pem_err :: "bytes \<Rightarrow> bytes option"
  ca_pem_err :: "bytes \<Rightarrow> bytes option"

fun add_roots :: "tls_lib \<Rightarrow> string \<Rightarrow> bytes list \<Rightarrow> bytes list \<Rightarrow> bytes list mcpix" where
  "add_roots T msg roots [] = Ok roots"
| "add_roots T msg roots (c # chain) =
     and_then (of_check msg (root_add_err T c)) (\<lambda>_. add_roots T msg (roots @ [c]) chain)"

section \<open>The server\<close>

record server_tls_config =
  server_cert_pem :: bytes
  server_key_pem :: bytes
  client_ca_pem :: bytes
  client_crls_pem :: bytes
  ocsp_response :: bytes

definition server_tls_config_new :: "bytes \<Rightarrow> bytes \<Rightarrow> bytes \<Rightarrow> server_tls_config" where
  "server_tls_config_new cert key ca =
     \<lparr> server_cert_pem = cert, server_key_pem = key, client_ca_pem = ca, client_crls_pem = [],
       ocsp_response = [] \<rparr>"

definition with_client_crls :: "bytes \<Rightarrow> server_tls_config \<Rightarrow> server_tls_config" where
  "with_client_crls crls_pem cfg = cfg \<lparr> client_crls_pem := crls_pem \<rparr>"

definition with_stapled_ocsp :: "bytes \<Rightarrow> server_tls_config \<Rightarrow> server_tls_config" where
  "with_stapled_ocsp ocsp_der cfg = cfg \<lparr> ocsp_response := ocsp_der \<rparr>"

text \<open>What the configured server presents and demands.\<close>

record server_config =
  sc_chain :: "bytes list"
  sc_key :: bytes
  sc_client_roots :: "bytes list"
  sc_client_crls :: "bytes list option"
  sc_staple :: "bytes option"

definition build_server_config_full ::
  "pem_lib \<Rightarrow> tls_lib \<Rightarrow> server_tls_config \<Rightarrow> server_config mcpix" where
  "build_server_config_full P T cfg =
     and_then (load_cert_chain P (server_cert_pem cfg)) (\<lambda>server_chain.
     and_then (load_private_key P (server_key_pem cfg)) (\<lambda>server_key.
     and_then (load_cert_chain P (client_ca_pem cfg)) (\<lambda>client_ca_chain.
     and_then (load_crls P (client_crls_pem cfg)) (\<lambda>client_crls.
     and_then (add_roots T ''add CA: '' [] client_ca_chain) (\<lambda>roots.
     let crls = (if client_crls = [] then None else Some client_crls) in
     and_then (of_check ''client verifier: '' (client_verifier_err T roots crls)) (\<lambda>_.
     if ocsp_response cfg = [] then
       and_then (of_check ''server cert: '' (server_cert_err T server_chain server_key None)) (\<lambda>_.
       Ok \<lparr> sc_chain = server_chain, sc_key = server_key, sc_client_roots = roots,
            sc_client_crls = crls, sc_staple = None \<rparr>)
     else
       and_then (of_check ''server cert + ocsp: ''
                   (server_cert_err T server_chain server_key (Some (ocsp_response cfg)))) (\<lambda>_.
       Ok \<lparr> sc_chain = server_chain, sc_key = server_key, sc_client_roots = roots,
            sc_client_crls = crls, sc_staple = Some (ocsp_response cfg) \<rparr>)))))))"

definition build_server_config ::
  "pem_lib \<Rightarrow> tls_lib \<Rightarrow> bytes \<Rightarrow> bytes \<Rightarrow> bytes \<Rightarrow> server_config mcpix" where
  "build_server_config P T cert key ca =
     build_server_config_full P T (server_tls_config_new cert key ca)"

section \<open>The client\<close>

record mtls_material =
  mm_client_cert_pem :: bytes
  mm_client_key_pem :: bytes
  mm_server_ca_pem :: bytes
  mm_server_crls_pem :: bytes

definition mtls_material_new :: "bytes \<Rightarrow> bytes \<Rightarrow> bytes \<Rightarrow> mtls_material" where
  "mtls_material_new cert key ca =
     \<lparr> mm_client_cert_pem = cert, mm_client_key_pem = key, mm_server_ca_pem = ca,
       mm_server_crls_pem = [] \<rparr>"

definition with_server_crls :: "bytes \<Rightarrow> mtls_material \<Rightarrow> mtls_material" where
  "with_server_crls crls_pem m = m \<lparr> mm_server_crls_pem := crls_pem \<rparr>"

text \<open>
  A configured HTTP client: either the calls on the builder of reqwest, starting from its
  defaults, or a complete rustls configuration.
\<close>

record builder_options =
  bo_builtin_roots :: bool
  bo_extra_roots :: "bytes list"
  bo_identity :: "bytes option"

datatype mtls_client =
    BuilderClient builder_options
  | RustlsClient "bytes list" "bytes list" "bytes list" bytes

record http_lib =
  builder_defaults :: builder_options
  build_err :: "mtls_client \<Rightarrow> bytes option"

definition build_mtls_client_legacy :: "tls_lib \<Rightarrow> http_lib \<Rightarrow> mtls_material \<Rightarrow> mtls_client mcpix" where
  "build_mtls_client_legacy T H m =
     (let id_pem = mm_client_cert_pem m;
          id_pem = (if \<not> ends_with id_pem [0x0A] then id_pem @ [0x0A] else id_pem);
          id_pem = id_pem @ mm_client_key_pem m
      in and_then (of_check ''identity from pem: '' (identity_pem_err T id_pem)) (\<lambda>_.
         and_then (of_check ''ca cert: '' (ca_pem_err T (mm_server_ca_pem m))) (\<lambda>_.
         let opts = builder_defaults H;
             opts = opts \<lparr> bo_extra_roots := bo_extra_roots opts @ [mm_server_ca_pem m] \<rparr>;
             client = BuilderClient (opts \<lparr> bo_identity := Some id_pem \<rparr>)
         in and_then (of_check ''build mtls client: '' (build_err H client)) (\<lambda>_. Ok client))))"

definition build_mtls_client_with_crls ::
  "bool \<Rightarrow> pem_lib \<Rightarrow> tls_lib \<Rightarrow> http_lib \<Rightarrow> mtls_material \<Rightarrow> mtls_client mcpix" where
  "build_mtls_client_with_crls debug P T H m =
     and_then (load_cert_chain P (mm_server_ca_pem m)) (\<lambda>server_ca_chain.
     and_then (load_cert_chain P (mm_client_cert_pem m)) (\<lambda>client_chain.
     and_then (load_private_key P (mm_client_key_pem m)) (\<lambda>client_key.
     and_then (load_crls P (mm_server_crls_pem m)) (\<lambda>crls.
     if debug \<and> crls = [] then Panic
     else
     and_then (add_roots T ''add server CA: '' [] server_ca_chain) (\<lambda>roots.
     and_then (of_check ''server verifier: '' (server_verifier_err T roots crls)) (\<lambda>_.
     and_then (of_check ''client auth cert: '' (client_auth_err T client_chain client_key)) (\<lambda>_.
     let client = RustlsClient roots crls client_chain client_key
     in and_then (of_check ''build mtls client w/ crl: '' (build_err H client)) (\<lambda>_. Ok client))))))))"

definition build_mtls_client ::
  "bool \<Rightarrow> pem_lib \<Rightarrow> tls_lib \<Rightarrow> http_lib \<Rightarrow> mtls_material \<Rightarrow> mtls_client mcpix" where
  "build_mtls_client debug P T H m =
     (if mm_server_crls_pem m = [] then build_mtls_client_legacy T H m
      else build_mtls_client_with_crls debug P T H m)"

definition http_bank_receiver_mtls ::
  "bool \<Rightarrow> pem_lib \<Rightarrow> tls_lib \<Rightarrow> http_lib \<Rightarrow> bytes \<Rightarrow> mtls_material \<Rightarrow> (http_bank \<times> mtls_client) mcpix" where
  "http_bank_receiver_mtls debug P T H url m =
     and_then (build_mtls_client debug P T H m) (\<lambda>client. Ok (http_with_client url, client))"

section \<open>Lemmas\<close>

lemma of_result_Ok_iff [outcome_simps]: "of_result msg r = Ok x \<longleftrightarrow> r = Inr x"
  by (cases r) auto

lemma of_result_not_Panic [simp]: "of_result msg r \<noteq> Panic"
  by (cases r) auto

lemma of_check_Ok_iff [outcome_simps]: "of_check msg c = Ok u \<longleftrightarrow> c = None"
  by (cases c) auto

lemma of_check_not_Panic [simp]: "of_check msg c \<noteq> Panic"
  by (cases c) auto

lemma add_roots_Ok: "add_roots T msg roots chain = Ok roots' \<Longrightarrow> roots' = roots @ chain"
  by (induction chain arbitrary: roots) (fastforce simp: outcome_simps)+

lemma load_crls_skips:
  "pem_ok P \<Longrightarrow> \<not> contains crls (ascii ''-----BEGIN'') \<Longrightarrow> load_crls P crls = Ok []"
  by (simp add: load_crls_def pem_ok_def)

lemma build_server_config_no_list:
  assumes "build_server_config_full P T cfg = Ok sc" and "load_crls P (client_crls_pem cfg) = Ok []"
  shows "sc_client_crls sc = None"
  using assms
  by (cases "ocsp_response cfg = []") (auto simp: build_server_config_full_def outcome_simps Let_def)

lemma build_with_crls_Ok:
  assumes "build_mtls_client_with_crls debug P T H m = Ok c"
  shows "\<exists>roots crls chain key. c = RustlsClient roots crls chain key \<and>
    load_cert_chain P (mm_server_ca_pem m) = Ok roots \<and>
    load_crls P (mm_server_crls_pem m) = Ok crls \<and> (debug \<longrightarrow> crls \<noteq> []) \<and>
    load_cert_chain P (mm_client_cert_pem m) = Ok chain \<and>
    load_private_key P (mm_client_key_pem m) = Ok key"
  using assms
  by (auto simp: build_mtls_client_with_crls_def outcome_simps Let_def split: if_splits
      dest!: add_roots_Ok)

section \<open>Properties\<close>

text \<open>
  C37. A revocation list that is not PEM is dropped without a word, although the operator's manual
  offers DER as a format: for a non-empty buffer without a PEM section the server gets exactly the
  outcome it has with no list at all, and a configuration that checks its clients against no list. The
  client, whose other material loads, panics in a build with debug assertions, which claim the
  list cannot be empty here; in a release build, when the library accepts the material, the client
  trusts exactly the configured authorities and checks servers against an empty list.
\<close>
theorem crls_that_are_not_pem_are_dropped:
  assumes "pem_ok P" and "\<not> contains crls (ascii ''-----BEGIN'')" and "crls \<noteq> []"
  shows "build_server_config_full P T (with_client_crls crls cfg) =
      build_server_config_full P T (with_client_crls [] cfg) \<and>
    (\<forall>sc. build_server_config_full P T (with_client_crls crls cfg) = Ok sc \<longrightarrow> sc_client_crls sc = None) \<and>
    (\<forall>roots chain key. load_cert_chain P (mm_server_ca_pem m) = Ok roots \<and>
       load_cert_chain P (mm_client_cert_pem m) = Ok chain \<and>
       load_private_key P (mm_client_key_pem m) = Ok key \<longrightarrow>
       build_mtls_client True P T H (with_server_crls crls m) = Panic \<and>
       (\<forall>c. build_mtls_client False P T H (with_server_crls crls m) = Ok c \<longrightarrow>
          c = RustlsClient roots [] chain key))"
proof (intro conjI allI impI)
  note none = load_crls_skips [OF assms(1,2)]
  have no_list: "load_crls P [] = Ok []" by (simp add: load_crls_def)
  with none show same: "build_server_config_full P T (with_client_crls crls cfg) =
      build_server_config_full P T (with_client_crls [] cfg)"
    by (simp add: build_server_config_full_def with_client_crls_def cong: if_cong)
  show "sc_client_crls sc = None" if "build_server_config_full P T (with_client_crls crls cfg) = Ok sc" for sc
    by (rule build_server_config_no_list [OF that [unfolded same]])
      (simp add: with_client_crls_def no_list)
  fix roots chain key
  assume m: "load_cert_chain P (mm_server_ca_pem m) = Ok roots \<and>
    load_cert_chain P (mm_client_cert_pem m) = Ok chain \<and> load_private_key P (mm_client_key_pem m) = Ok key"
  have d: "build_mtls_client debug P T H (with_server_crls crls m) =
      build_mtls_client_with_crls debug P T H (with_server_crls crls m)" for debug
    using assms(3) by (simp add: build_mtls_client_def with_server_crls_def)
  show "build_mtls_client True P T H (with_server_crls crls m) = Panic"
    unfolding d using m none by (simp add: build_mtls_client_with_crls_def with_server_crls_def)
  show "c = RustlsClient roots [] chain key"
    if "build_mtls_client False P T H (with_server_crls crls m) = Ok c" for c
    using build_with_crls_Ok [OF that [unfolded d]] m none by (auto simp: with_server_crls_def)
qed

text \<open>
  Toy parsers that satisfy \<open>pem_ok\<close>: a buffer with a PEM section is one item, itself. The toy TLS
  library accepts everything.
\<close>

definition demo_pem :: pem_lib where
  "demo_pem =
     \<lparr> pem_certs = \<lambda>s. if contains s (ascii ''-----BEGIN'') then [Inr s] else [],
       pem_private_key = \<lambda>s. Inr (if contains s (ascii ''-----BEGIN'') then Some s else None),
       pem_crls = \<lambda>s. if contains s (ascii ''-----BEGIN'') then [Inr s] else [] \<rparr>"

lemma demo_pem_ok: "pem_ok demo_pem"
  by (simp add: pem_ok_def demo_pem_def)

definition demo_tls :: tls_lib where
  "demo_tls =
     \<lparr> root_add_err = \<lambda>_. None, client_verifier_err = \<lambda>_ _. None, server_cert_err = \<lambda>_ _ _. None,
       server_verifier_err = \<lambda>_ _. None, client_auth_err = \<lambda>_ _. None,
       identity_pem_err = \<lambda>_. None, ca_pem_err = \<lambda>_. None \<rparr>"

definition demo_builder :: http_lib where
  "demo_builder =
     \<lparr> builder_defaults = \<lparr> bo_builtin_roots = True, bo_extra_roots = [], bo_identity = None \<rparr>,
       build_err = \<lambda>_. None \<rparr>"

definition demo_cert :: bytes where
  "demo_cert = ascii ''-----BEGIN CERTIFICATE-----''"

lemma demo_cert_loads:
  "load_cert_chain demo_pem demo_cert = Ok [demo_cert]"
  "load_private_key demo_pem demo_cert = Ok demo_cert"
proof -
  have "contains demo_cert (ascii ''-----BEGIN'')" by code_simp
  then show "load_cert_chain demo_pem demo_cert = Ok [demo_cert]"
    "load_private_key demo_pem demo_cert = Ok demo_cert"
    by (simp_all add: load_cert_chain_def load_private_key_def demo_pem_def)
qed

text \<open>The first bytes of a DER revocation list.\<close>

theorem crls_that_are_not_pem_are_dropped_witness:
  "let m = with_server_crls [0x30, 0x82] (mtls_material_new demo_cert demo_cert demo_cert) in
   (\<exists>sc. build_server_config_full demo_pem demo_tls (with_client_crls [0x30, 0x82]
      (server_tls_config_new demo_cert demo_cert demo_cert)) = Ok sc \<and> sc_client_crls sc = None) \<and>
   build_mtls_client True demo_pem demo_tls demo_builder m = Panic \<and>
   build_mtls_client False demo_pem demo_tls demo_builder m = Ok (RustlsClient [demo_cert] [] [demo_cert] demo_cert)"
proof -
  let ?m = "mtls_material_new demo_cert demo_cert demo_cert"
  have n: "\<not> contains [0x30, 0x82] (ascii ''-----BEGIN'')" by code_simp
  note dropped = crls_that_are_not_pem_are_dropped [OF demo_pem_ok n, of demo_tls
        "server_tls_config_new demo_cert demo_cert demo_cert" ?m demo_builder]
  have server: "build_server_config_full demo_pem demo_tls (with_client_crls []
      (server_tls_config_new demo_cert demo_cert demo_cert)) =
    Ok \<lparr> sc_chain = [demo_cert], sc_key = demo_cert, sc_client_roots = [demo_cert],
         sc_client_crls = None, sc_staple = None \<rparr>"
    by (simp add: build_server_config_full_def with_client_crls_def server_tls_config_new_def
        demo_cert_loads load_crls_def demo_tls_def)
  have m: "load_cert_chain demo_pem (mm_server_ca_pem ?m) = Ok [demo_cert]"
    "load_cert_chain demo_pem (mm_client_cert_pem ?m) = Ok [demo_cert]"
    "load_private_key demo_pem (mm_client_key_pem ?m) = Ok demo_cert"
    by (simp_all add: mtls_material_new_def demo_cert_loads)
  have "load_crls demo_pem [0x30, 0x82] = Ok []" by (rule load_crls_skips [OF demo_pem_ok n])
  then obtain c where c: "build_mtls_client False demo_pem demo_tls demo_builder (with_server_crls [0x30, 0x82] ?m) = Ok c"
    using m by (simp add: build_mtls_client_def build_mtls_client_with_crls_def with_server_crls_def
        demo_tls_def demo_builder_def Let_def)
  show ?thesis unfolding Let_def using dropped server m c by simp
qed

text \<open>
  C35. Whom the client trusts and what it presents: with a revocation list exactly the configured
  authorities, checked against exactly the lists given, and the client's own chain and key; but
  without one the configured authority is added to whatever the HTTP library trusts by default,
  which is documented to be the built-in roots, so the federation is not closed there.
\<close>
theorem mtls_client_trust:
  assumes "build_mtls_client debug P T H m = Ok c"
  shows "case c of
      BuilderClient opts \<Rightarrow> mm_server_crls_pem m = [] \<and>
        bo_builtin_roots opts = bo_builtin_roots (builder_defaults H) \<and>
        bo_extra_roots opts = bo_extra_roots (builder_defaults H) @ [mm_server_ca_pem m] \<and>
        (\<exists>sep. bo_identity opts = Some (mm_client_cert_pem m @ sep @ mm_client_key_pem m))
    | RustlsClient roots crls chain key \<Rightarrow> mm_server_crls_pem m \<noteq> [] \<and>
        load_cert_chain P (mm_server_ca_pem m) = Ok roots \<and>
        load_crls P (mm_server_crls_pem m) = Ok crls \<and>
        load_cert_chain P (mm_client_cert_pem m) = Ok chain \<and>
        load_private_key P (mm_client_key_pem m) = Ok key"
proof (cases "mm_server_crls_pem m = []")
  case True
  with assms show ?thesis
    by (auto simp: build_mtls_client_def build_mtls_client_legacy_def outcome_simps Let_def)
next
  case False
  with assms build_with_crls_Ok [of debug P T H m c] show ?thesis
    by (auto simp: build_mtls_client_def)
qed

theorem mtls_client_trust_witness:
  "\<exists>opts. build_mtls_client True demo_pem demo_tls demo_builder
      (mtls_material_new demo_cert demo_cert demo_cert) = Ok (BuilderClient opts) \<and>
    bo_builtin_roots opts"
proof -
  let ?m = "mtls_material_new demo_cert demo_cert demo_cert"
  obtain opts where c: "build_mtls_client True demo_pem demo_tls demo_builder ?m = Ok (BuilderClient opts)"
    by (simp add: build_mtls_client_def build_mtls_client_legacy_def mtls_material_new_def
        demo_tls_def demo_builder_def Let_def)
  from mtls_client_trust [OF this] have "bo_builtin_roots opts" by (simp add: demo_builder_def)
  with c show ?thesis by blast
qed

text \<open>
  The identity of an institution is the rest of the first name with the prefix, whatever the
  common name says; without such a name it is the first readable common name.
\<close>

lemma first_institution_split:
  assumes "\<forall>u. UriName u \<in> set pre \<longrightarrow> \<not> starts_with u INSTITUTION_URI_PREFIX"
  shows "first_institution (pre @ names) = first_institution names"
  using assms
  by (induction pre rule: first_institution.induct) (auto simp: strip_prefix_def)

lemma institution_from_first_uri:
  assumes "x509_parse der = Inr cert"
    and "x_san cert = Inr (Some (pre @ UriName (INSTITUTION_URI_PREFIX @ i) # post))"
    and "\<forall>u. UriName u \<in> set pre \<longrightarrow> \<not> starts_with u INSTITUTION_URI_PREFIX"
  shows "extract_institution_id x509_parse der = Ok i"
  using assms
  by (simp add: extract_institution_id_def first_institution_split strip_prefix_def
      starts_with_def)

lemma institution_falls_back:
  assumes "x509_parse der = Inr cert" and "x_san cert = Inr (Some names)"
    and "\<forall>u. UriName u \<in> set names \<longrightarrow> \<not> starts_with u INSTITUTION_URI_PREFIX"
    and "x_common_names cert = map Inl es @ Inr cn # rest"
  shows "extract_institution_id x509_parse der = Ok cn"
proof -
  have "first_readable (map Inl es @ Inr cn # rest) = Some cn"
    by (induction es) auto
  moreover have "first_institution names = None"
    using first_institution_split [OF assms(3), of "[]"] by simp
  ultimately show ?thesis using assms by (simp add: extract_institution_id_def)
qed

end
