(* ===== verification/MtlsServer.thy ===== *)
theory MtlsServer
  imports Mtls Crypto
begin

text \<open>
  \<^verbatim>\<open>mcpix-bank-receiver/src/http_server.rs\<close> (\<^verbatim>\<open>serve\<close>) and \<^verbatim>\<open>mtls_server.rs\<close> (\<^verbatim>\<open>serve_mtls\<close>): the
  bank behind a listening socket, in the clear or behind mutual TLS.

  Sockets, tokio, axum and rustls are third-party. What the operating system answers to the calls
  that open the socket is \<open>listen_env\<close>; a server that was started is what it was handed: its TLS
  configuration and the bank its router answers from. Its connections and handshakes are the
  library's and are not modelled; a request it delivers is answered by \<open>router\<close>.
\<close>

section \<open>Opening the socket\<close>

record listen_env =
  le_bind :: "bytes \<Rightarrow> bytes option"
  le_local_addr :: "bytes + bytes"
  le_set_nonblocking :: "bytes option"
  le_from_tcp :: "bytes option"

text \<open>The errors are those of \<^verbatim>\<open>std::io\<close>, passed on as they are.\<close>

fun io_of :: "bytes + 'a \<Rightarrow> (bytes, 'a) outcome" where
  "io_of (Inl e) = Err e"
| "io_of (Inr x) = Ok x"

fun io_check :: "bytes option \<Rightarrow> (bytes, unit) outcome" where
  "io_check (Some e) = Err e"
| "io_check None = Ok ()"

text \<open>What the spawned task was handed.\<close>

record 'b bank_server =
  sv_tls :: "server_config option"
  sv_bank :: 'b

definition serve :: "listen_env \<Rightarrow> bytes \<Rightarrow> 'b \<Rightarrow> (bytes, bytes \<times> 'b bank_server) outcome" where
  "serve le addr bank =
     and_then (io_check (le_bind le addr)) (\<lambda>_.
     and_then (io_of (le_local_addr le)) (\<lambda>bound.
     Ok (bound, \<lparr> sv_tls = None, sv_bank = bank \<rparr>)))"

definition serve_mtls ::
  "listen_env \<Rightarrow> bytes \<Rightarrow> 'b \<Rightarrow> server_config \<Rightarrow> (bytes, bytes \<times> 'b bank_server) outcome" where
  "serve_mtls le addr bank config =
     and_then (io_check (le_bind le addr)) (\<lambda>_.
     and_then (io_of (le_local_addr le)) (\<lambda>bound.
     and_then (io_check (le_set_nonblocking le)) (\<lambda>_.
     and_then (io_check (le_from_tcp le)) (\<lambda>_.
     Ok (bound, \<lparr> sv_tls = Some config, sv_bank = bank \<rparr>)))))"

lemma serve_Ok_iff [outcome_simps]:
  "serve le addr bank = Ok (bound, sv) \<longleftrightarrow> le_bind le addr = None \<and> le_local_addr le = Inr bound \<and>
     sv = \<lparr> sv_tls = None, sv_bank = bank \<rparr>"
  "serve_mtls le addr bank config = Ok (bound, sv) \<longleftrightarrow> le_bind le addr = None \<and>
     le_local_addr le = Inr bound \<and> le_set_nonblocking le = None \<and> le_from_tcp le = None \<and>
     sv = \<lparr> sv_tls = Some config, sv_bank = bank \<rparr>"
  by (cases "le_bind le addr"; cases "le_local_addr le"; cases "le_set_nonblocking le";
      cases "le_from_tcp le"; auto simp: serve_def serve_mtls_def)+

lemma serve_not_Panic: "serve le addr bank \<noteq> Panic" "serve_mtls le addr bank config \<noteq> Panic"
  by (cases "le_bind le addr"; cases "le_local_addr le"; cases "le_set_nonblocking le";
      cases "le_from_tcp le"; simp add: serve_def serve_mtls_def)+

section \<open>What a started server demands\<close>

lemma build_server_config_Ok:
  assumes "build_server_config_full P T cfg = Ok sc"
  shows "\<exists>chain k roots lists. load_cert_chain P (server_cert_pem cfg) = Ok chain \<and>
    load_private_key P (server_key_pem cfg) = Ok k \<and> load_cert_chain P (client_ca_pem cfg) = Ok roots \<and>
    load_crls P (client_crls_pem cfg) = Ok lists \<and>
    sc = \<lparr> sc_chain = chain, sc_key = k, sc_client_roots = roots,
      sc_client_crls = (if lists = [] then None else Some lists),
      sc_staple = (if ocsp_response cfg = [] then None else Some (ocsp_response cfg)) \<rparr>"
proof -
  obtain chain k roots lists roots' where
    "load_cert_chain P (server_cert_pem cfg) = Ok chain" "load_private_key P (server_key_pem cfg) = Ok k"
    "load_cert_chain P (client_ca_pem cfg) = Ok roots" "load_crls P (client_crls_pem cfg) = Ok lists"
    "add_roots T ''add CA: '' [] roots = Ok roots'"
    "sc = \<lparr> sc_chain = chain, sc_key = k, sc_client_roots = roots',
      sc_client_crls = (if lists = [] then None else Some lists),
      sc_staple = (if ocsp_response cfg = [] then None else Some (ocsp_response cfg)) \<rparr>"
    using assms by (cases "ocsp_response cfg = []")
      (simp_all add: build_server_config_full_def outcome_simps Let_def, blast+)
  with add_roots_Ok [OF this(5)] show ?thesis by auto
qed

text \<open>
  A server behind mutual TLS that was started verifies its clients: against exactly the
  authorities of the configuration and, when lists were loaded, exactly those lists; it presents
  the configured chain and staple, and answers from the bank it was given.
\<close>
lemma mtls_server_trust:
  assumes "build_server_config_full P T (with_stapled_ocsp ocsp (with_client_crls crls
      (server_tls_config_new cert key ca))) = Ok sc"
    and "serve_mtls le addr bank sc = Ok (bound, sv)"
  shows "sv_bank sv = bank \<and> (\<exists>roots lists chain k. sv_tls sv = Some \<lparr> sc_chain = chain, sc_key = k,
      sc_client_roots = roots, sc_client_crls = (if lists = [] then None else Some lists),
      sc_staple = (if ocsp = [] then None else Some ocsp) \<rparr> \<and>
    load_cert_chain P ca = Ok roots \<and> load_crls P crls = Ok lists \<and>
    load_cert_chain P cert = Ok chain \<and> load_private_key P key = Ok k)"
proof -
  have "sv = \<lparr> sv_tls = Some sc, sv_bank = bank \<rparr>" using assms(2) by (simp add: outcome_simps)
  moreover obtain chain k roots lists where "sc = \<lparr> sc_chain = chain, sc_key = k, sc_client_roots = roots,
      sc_client_crls = (if lists = [] then None else Some lists),
      sc_staple = (if ocsp = [] then None else Some ocsp) \<rparr>"
    "load_cert_chain P ca = Ok roots" "load_crls P crls = Ok lists"
    "load_cert_chain P cert = Ok chain" "load_private_key P key = Ok k"
    using build_server_config_Ok [OF assms(1)]
    by (simp only: with_stapled_ocsp_def with_client_crls_def server_tls_config_new_def
        server_tls_config.simps) blast
  ultimately show ?thesis by (intro conjI exI [of _ roots] exI [of _ lists] exI [of _ chain] exI [of _ k]) simp_all
qed

text \<open>
  Whom the bank is told it answers is what the client writes in a header, whatever institution its
  certificate names: the router has no other source, so whoever sends \<open>claimed\<close> gets the seed
  that the bank gives to \<open>claimed\<close>.
\<close>
theorem requester_is_the_header:
  assumes "wire_ok W" and "seed_id_wf sid" and "header_to_str W v = Some claimed"
    and "lookup_seed bank e sid \<lparr> institution_id = claimed \<rparr> b = Ok seed"
  shows "router W bank e \<lparr> rq_method = GET, rq_path = SEEDS_ROUTE @ sid_as_str sid,
      rq_headers = [(ascii ''x-institution-id'', v)], rq_body = [] \<rparr> b =
    (Some (response 200 (seed_to_json W (material_b64 (payload_from_seed W seed)))), b)"
proof -
  have "institution_header W [(ascii ''x-institution-id'', v)] = claimed"
    using assms(3) by (simp add: institution_header_def)
  with assms show ?thesis by (simp add: router_seed handle_get_seed_def seed_id_new_as_str)
qed

text \<open>The bank of a seed read as BANK_B, by whatever member sends that name.\<close>

theorem requester_is_the_header_witness:
  "fst (router demo_wire mem_bank_ops () \<lparr> rq_method = GET, rq_path = SEEDS_ROUTE @ sid_as_str (SeedId [65]),
      rq_headers = [(ascii ''x-institution-id'', ascii ''BANK_B'')], rq_body = [] \<rparr>
      [SeedId [65] \<mapsto> demo_seed]) = Some (response 200 (seed_as_bytes demo_seed))"
proof -
  have sid: "seed_id_wf (SeedId [65])" by (simp add: seed_id_wf_def is_alnum_def is_digit_def)
  have head: "header_to_str demo_wire (ascii ''BANK_B'') = Some (ascii ''BANK_B'')"
    by (simp add: demo_wire_def)
  have look: "lookup_seed mem_bank_ops () (SeedId [65]) \<lparr> institution_id = ascii ''BANK_B'' \<rparr>
      [SeedId [65] \<mapsto> demo_seed] = Ok demo_seed" by simp
  have json: "seed_to_json demo_wire (material_b64 (payload_from_seed demo_wire demo_seed)) =
      seed_as_bytes demo_seed"
    by (simp add: demo_wire_def payload_from_seed_def)
  show ?thesis
    using requester_is_the_header [OF demo_wire_ok sid head look] by (simp add: json)
qed

end
