(* ===== verification/Integrity.thy ===== *)
theory Integrity
  imports CoreTypes "HOL-Library.List_Lexorder" "HOL-Library.Multiset"
begin

text \<open>
  \<^verbatim>\<open>mcpix-core/src/signature.rs\<close>, \<^verbatim>\<open>mcpix-core/src/integrity.rs\<close> and
  \<^verbatim>\<open>mcpix-receiver-sdk/src/integrity_runtime.rs\<close>: the signed manifest of release artefacts, the
  hash stamped into a build, and the self-check of the loaded library; with
  \<^verbatim>\<open>hash_artifacts\<close> and \<^verbatim>\<open>sign_artifacts\<close> of \<^verbatim>\<open>xtask/src/main.rs\<close>, which write what is checked here.

  Ed25519 and SHA-256 are third-party crates: \<open>ed_lib\<close> and \<open>sha\<close> are parameters. The file system,
  the environment variable and the path of the executable are the record \<open>host\<close>.
\<close>

section \<open>Strings\<close>

text \<open>
  The characters \<^verbatim>\<open>char::is_whitespace\<close> accepts, by their UTF-8 encodings: \<open>ws_len\<close> is the length
  of the one in front of a string and \<open>ws_end_len\<close> of the one at its end, 0 where there is none.
\<close>

definition ws1 :: "bytes" where "ws1 = [0x09, 0x0A, 0x0B, 0x0C, 0x0D, 0x20]"
definition ws2 :: "bytes list" where "ws2 = [[0xC2, 0x85], [0xC2, 0xA0]]"
definition ws3 :: "bytes list" where
  "ws3 = [[0xE1, 0x9A, 0x80], [0xE2, 0x80, 0x80], [0xE2, 0x80, 0x81], [0xE2, 0x80, 0x82],
     [0xE2, 0x80, 0x83], [0xE2, 0x80, 0x84], [0xE2, 0x80, 0x85], [0xE2, 0x80, 0x86],
     [0xE2, 0x80, 0x87], [0xE2, 0x80, 0x88], [0xE2, 0x80, 0x89], [0xE2, 0x80, 0x8A],
     [0xE2, 0x80, 0xA8], [0xE2, 0x80, 0xA9], [0xE2, 0x80, 0xAF], [0xE2, 0x81, 0x9F],
     [0xE3, 0x80, 0x80]]"

definition ws_size :: "bytes \<Rightarrow> bytes \<Rightarrow> bytes \<Rightarrow> nat" where
  "ws_size a b c =
     (if length a = 1 \<and> hd a \<in> set ws1 then 1
      else if b \<in> set ws2 then 2 else if c \<in> set ws3 then 3 else 0)"

definition ws_len :: "bytes \<Rightarrow> nat" where
  "ws_len s = ws_size (take 1 s) (take 2 s) (take 3 s)"

definition ws_end_len :: "bytes \<Rightarrow> nat" where
  "ws_end_len s = ws_size (drop (length s - 1) s) (drop (length s - 2) s) (drop (length s - 3) s)"

lemma ws_size_cases: "ws_size a b c = 0 \<or> (ws_size a b c = 1 \<and> length a = 1) \<or>
    (ws_size a b c = 2 \<and> length b = 2) \<or> (ws_size a b c = 3 \<and> length c = 3)"
  by (auto simp: ws_size_def ws2_def ws3_def)

lemma ws_len_le: "ws_len s \<le> length s"
  using ws_size_cases [of "take 1 s" "take 2 s" "take 3 s"]
  by (auto simp: ws_len_def min_def split: if_splits)

lemma ws_end_len_le: "ws_end_len s \<le> length s"
  using ws_size_cases [of "drop (length s - 1) s" "drop (length s - 2) s" "drop (length s - 3) s"]
  by (auto simp: ws_end_len_def)

function trim_start :: "bytes \<Rightarrow> bytes" where
  "trim_start s = (if ws_len s = 0 then s else trim_start (drop (ws_len s) s))"
  by pat_completeness auto
termination
proof (relation "measure length", simp)
  fix s :: bytes
  assume "ws_len s \<noteq> 0"
  with ws_len_le [of s] show "(drop (ws_len s) s, s) \<in> measure length" by simp
qed

function trim_end :: "bytes \<Rightarrow> bytes" where
  "trim_end s = (if ws_end_len s = 0 then s else trim_end (take (length s - ws_end_len s) s))"
  by pat_completeness auto
termination
proof (relation "measure length", simp)
  fix s :: bytes
  assume "ws_end_len s \<noteq> 0"
  with ws_end_len_le [of s]
  show "(take (length s - ws_end_len s) s, s) \<in> measure length" by simp
qed

declare trim_start.simps [simp del] trim_end.simps [simp del]

definition trim :: "bytes \<Rightarrow> bytes" where "trim s = trim_end (trim_start s)"

text \<open>\<^verbatim>\<open>splitn(2, char::is_whitespace)\<close>: what is before and after the first whitespace.\<close>

fun split_ws :: "bytes \<Rightarrow> (bytes \<times> bytes) option" where
  "split_ws [] = None"
| "split_ws (b # s) =
     (if ws_len (b # s) \<noteq> 0 then Some ([], drop (ws_len (b # s)) (b # s))
      else map_option (\<lambda>(x, y). (b # x, y)) (split_ws s))"

text \<open>
  \<^verbatim>\<open>str::lines\<close>: pieces between newlines, without a carriage return in front of the newline and
  without an empty last piece.
\<close>

definition strip_cr :: "bytes \<Rightarrow> bytes" where
  "strip_cr s = (if s \<noteq> [] \<and> last s = 0x0D then butlast s else s)"

fun str_lines_from :: "bytes \<Rightarrow> bytes \<Rightarrow> bytes list" where
  "str_lines_from cur [] = (if cur = [] then [] else [cur])"
| "str_lines_from cur (b # s) =
     (if b = 0x0A then strip_cr cur # str_lines_from [] s else str_lines_from (cur @ [b]) s)"

definition str_lines :: "bytes \<Rightarrow> bytes list" where "str_lines s = str_lines_from [] s"

section \<open>The signed manifest\<close>

record ed_lib =
  ed_key_error :: "bytes \<Rightarrow> bytes option"
  ed_verify :: "bytes \<Rightarrow> bytes \<Rightarrow> bytes \<Rightarrow> bool"

definition RELEASE_PUBKEY_LEN :: nat where "RELEASE_PUBKEY_LEN = 32"
definition SIGNATURE_LEN :: nat where "SIGNATURE_LEN = 64"

datatype signature_check =
    SVerified
  | STampered bytes bytes
  | InvalidSignature
  | MalformedSums

definition verify_signature :: "ed_lib \<Rightarrow> bytes \<Rightarrow> bytes \<Rightarrow> bytes \<Rightarrow> bool mcpix" where
  "verify_signature D sums_bytes signature_bytes pubkey =
     (if length signature_bytes \<noteq> SIGNATURE_LEN
      then Err (Storage (ascii ''invalid signature length: expected '' @ show_nat SIGNATURE_LEN
             @ ascii '', got '' @ show_nat (length signature_bytes)))
      else case ed_key_error D pubkey of
          Some e \<Rightarrow> Err (Storage (ascii ''invalid pubkey: '' @ e))
        | None \<Rightarrow> Ok (ed_verify D pubkey sums_bytes signature_bytes))"

definition parse_sums_line :: "bytes \<Rightarrow> (bytes \<times> bytes) option" where
  "parse_sums_line line =
     (let line = trim line in
      if line = [] then None
      else case split_ws line of
          None \<Rightarrow> None
        | Some (hash, rest) \<Rightarrow>
            let path = trim_start rest in
            if length hash \<noteq> 64 \<or> \<not> list_all is_hexdigit hash then None
            else Some (hash, path))"

fun check_lines :: "bytes list \<Rightarrow> bytes \<Rightarrow> bytes \<Rightarrow> signature_check" where
  "check_lines [] expected_filename actual_hash_hex =
     STampered (ascii ''absent from SHA256SUMS for '' @ expected_filename) actual_hash_hex"
| "check_lines (line # ls) expected_filename actual_hash_hex =
     (case parse_sums_line line of
        None \<Rightarrow> check_lines ls expected_filename actual_hash_hex
      | Some (hash, path) \<Rightarrow>
          if ends_with path expected_filename then
            (if eq_ignore_case hash actual_hash_hex then SVerified
             else STampered hash actual_hash_hex)
          else check_lines ls expected_filename actual_hash_hex)"

definition verify_combined ::
  "ed_lib \<Rightarrow> bytes \<Rightarrow> bytes \<Rightarrow> bytes \<Rightarrow> bytes \<Rightarrow> bytes \<Rightarrow> signature_check mcpix" where
  "verify_combined D sums_bytes signature_bytes pubkey expected_filename actual_hash_hex =
     and_then (verify_signature D sums_bytes signature_bytes pubkey) (\<lambda>sig_ok.
     if \<not> sig_ok then Ok InvalidSignature
     else if \<not> utf8_valid sums_bytes then Ok MalformedSums
     else Ok (check_lines (str_lines sums_bytes) expected_filename actual_hash_hex))"

section \<open>The stamped hash\<close>

datatype integrity_check =
    Verified
  | Tampered bytes bytes
  | Skipped

text \<open>
  \<^verbatim>\<open>u8::from_str_radix(s, 16)\<close> on two characters that the caller has found to be hexadecimal
  digits; the errors of the conversion cannot occur there.
\<close>

definition hex_val :: "byte \<Rightarrow> byte" where
  "hex_val b = (if is_digit b then b - 0x30 else ascii_lower b - 0x57)"

fun hex_decode :: "bytes \<Rightarrow> bytes" where
  "hex_decode (a # b # s) = (hex_val a * 16 + hex_val b) # hex_decode s"
| "hex_decode _ = []"

definition verify_bytes :: "(bytes \<Rightarrow> bytes) \<Rightarrow> bytes \<Rightarrow> bytes option \<Rightarrow> integrity_check mcpix" where
  "verify_bytes sha actual_bytes expected_hex =
     (case expected_hex of
        None \<Rightarrow> Ok Skipped
      | Some hex \<Rightarrow>
          if length hex \<noteq> 64 \<or> \<not> list_all is_hexdigit hex
          then Err (Storage (ascii ''invalid expected hash length/charset: ''
                 @ show_nat (length hex) @ ascii '' chars''))
          else
            let expected = hex_decode hex; actual = sha actual_bytes
            in if expected = actual then Ok Verified else Ok (Tampered expected actual))"

section \<open>The self-check\<close>

text \<open>A path is the list of its components below the root or the working directory.\<close>

type_synonym path = "bytes list"

definition path_parent :: "path \<Rightarrow> path option" where
  "path_parent p = (if p = [] then None else Some (butlast p))"

definition path_file_name :: "path \<Rightarrow> bytes option" where
  "path_file_name p = (if p = [] \<or> last p = ascii ''..'' then None else Some (last p))"

record host =
  h_self_path_var :: "path option"
  h_current_exe :: "(bytes, path) outcome"
  h_exists :: "path \<Rightarrow> bool"
  h_read :: "path \<Rightarrow> (bytes, bytes) outcome"
  h_display :: "path \<Rightarrow> bytes"
  h_release_pubkey :: bytes

definition locate_self :: "host \<Rightarrow> path mcpix" where
  "locate_self H =
     (case h_self_path_var H of
        Some p \<Rightarrow> Ok p
      | None \<Rightarrow> map_err Storage (h_current_exe H))"

fun first_sums :: "host \<Rightarrow> path list \<Rightarrow> (path \<times> path) option" where
  "first_sums H [] = None"
| "first_sums H (parent # ps) =
     (let sums = parent @ [ascii ''SHA256SUMS'']; sig = parent @ [ascii ''SHA256SUMS.sig'']
      in if h_exists H sums \<and> h_exists H sig then Some (sums, sig) else first_sums H ps)"

definition locate_sums :: "host \<Rightarrow> path \<Rightarrow> (path \<times> path) option" where
  "locate_sums H binary_path =
     (let parents = [path_parent binary_path, Option.bind (path_parent binary_path) path_parent]
      in first_sums H (List.map_filter (\<lambda>p. p) parents))"

definition hex_digit :: "nat \<Rightarrow> byte" where
  "hex_digit n = word_of_nat (if n < 10 then 0x30 + n else 0x57 + n)"

definition hex_of :: "bytes \<Rightarrow> bytes" where
  "hex_of bs = concat (map (\<lambda>b. [hex_digit (unat b div 16), hex_digit (unat b mod 16)]) bs)"

definition read_file :: "host \<Rightarrow> path \<Rightarrow> bytes mcpix" where
  "read_file H p =
     map_err (\<lambda>e. Storage (ascii ''cannot read '' @ h_display H p @ ascii '': '' @ e)) (h_read H p)"

definition verify_self ::
  "ed_lib \<Rightarrow> (bytes \<Rightarrow> bytes) \<Rightarrow> host \<Rightarrow> bytes option \<Rightarrow> integrity_check mcpix" where
  "verify_self D sha H expected_sha256 =
     and_then (locate_self H) (\<lambda>path.
     and_then (read_file H path) (\<lambda>bs.
     case locate_sums H path of
       None \<Rightarrow> verify_bytes sha bs expected_sha256
     | Some (sums_path, sig_path) \<Rightarrow>
         if expected_sha256 = None then Ok Skipped
         else
           and_then (read_file H sums_path) (\<lambda>sums.
           and_then (read_file H sig_path) (\<lambda>sig.
           let actual = sha bs; actual_hex = hex_of actual in
           and_then (ok_or (Storage (ascii ''non-utf8 binary filename''))
                       (case path_file_name path of
                          Some f \<Rightarrow> if utf8_valid f then Some f else None
                        | None \<Rightarrow> None)) (\<lambda>filename.
           and_then (verify_combined D sums sig (h_release_pubkey H) filename actual_hex) (\<lambda>outc.
           Ok (case outc of
                 SVerified \<Rightarrow> Verified
               | STampered expected _ \<Rightarrow>
                   Tampered (if length expected = 64 \<and> list_all is_hexdigit expected
                             then hex_decode expected else replicate 32 0) actual
               | InvalidSignature \<Rightarrow> Tampered (replicate 32 0) actual
               | MalformedSums \<Rightarrow> Tampered (replicate 32 0) actual)))))))"

section \<open>The writer of the manifest\<close>

text \<open>
  \<^verbatim>\<open>hash_artifacts\<close> over the files the directory walk delivers, each with its path below
  \<^verbatim>\<open>dist\<close> and its contents.
\<close>

fun path_display :: "path \<Rightarrow> bytes" where
  "path_display [] = []"
| "path_display [c] = c"
| "path_display (c # d # p) = c @ [0x2F] @ path_display (d # p)"

fun join_lines :: "bytes list \<Rightarrow> bytes" where
  "join_lines [] = []"
| "join_lines [l] = l"
| "join_lines (l # k # ls) = l @ [0x0A] @ join_lines (k # ls)"

text \<open>
  \<^verbatim>\<open>Path::display\<close> shows a name that is not UTF-8 with U+FFFD in place of every maximal piece that
  begins no character; \<open>bad_len\<close> is the length of that piece.
\<close>

definition bad_len :: "bytes \<Rightarrow> nat" where
  "bad_len s =
     (case s of
        a # b # rest \<Rightarrow>
          (if 0xE0 \<le> a \<and> a \<le> 0xEF \<and> (if a = 0xE0 then 0xA0 \<le> b \<and> b \<le> 0xBF
                else if a = 0xED then 0x80 \<le> b \<and> b \<le> 0x9F else is_cont_byte b) then 2
           else if 0xF0 \<le> a \<and> a \<le> 0xF4 \<and> (if a = 0xF0 then 0x90 \<le> b \<and> b \<le> 0xBF
                else if a = 0xF4 then 0x80 \<le> b \<and> b \<le> 0x8F else is_cont_byte b)
             then (case rest of c # _ \<Rightarrow> if is_cont_byte c then 3 else 2 | [] \<Rightarrow> 2)
           else 1)
      | _ \<Rightarrow> 1)"

lemma bad_len_pos: "0 < bad_len s"
  by (auto simp: bad_len_def split: list.splits)

definition first_char :: "bytes \<Rightarrow> nat option" where
  "first_char s = find (\<lambda>n. n \<le> length s \<and> utf8_valid (take n s)) [1 ..< 5]"

lemma first_char_pos: "first_char s = Some n \<Longrightarrow> 0 < n"
  by (auto simp: first_char_def find_Some_iff nth_upt)

function utf8_lossy :: "bytes \<Rightarrow> bytes" where
  "utf8_lossy s =
     (if s = [] then []
      else case first_char s of
          Some n \<Rightarrow> take n s @ utf8_lossy (drop n s)
        | None \<Rightarrow> [0xEF, 0xBF, 0xBD] @ utf8_lossy (drop (bad_len s) s))"
  by pat_completeness auto
termination
  by (relation "measure length") (use bad_len_pos first_char_pos in \<open>auto simp: length_greater_0_conv\<close>)

declare utf8_lossy.simps [simp del]

lemma utf8_lossy_ascii: "\<forall>b \<in> set s. b < 0x80 \<Longrightarrow> utf8_lossy s = s"
proof (induction s)
  case Nil
  then show ?case by (simp add: utf8_lossy.simps)
next
  case (Cons a s)
  then have "first_char (a # s) = Some 1"
    by (simp add: first_char_def upt_conv_Cons)
  with Cons show ?case by (simp add: utf8_lossy.simps [of "a # s"])
qed

definition manifest_line :: "(bytes \<Rightarrow> bytes) \<Rightarrow> path \<times> bytes \<Rightarrow> bytes" where
  "manifest_line sha = (\<lambda>(rel, content). hex_of (sha content) @ ascii ''  '' @ utf8_lossy (path_display rel))"

definition hash_artifacts :: "(bytes \<Rightarrow> bytes) \<Rightarrow> (path \<times> bytes) list \<Rightarrow> bytes" where
  "hash_artifacts sha files =
     (let files = filter (\<lambda>(rel, _). path_file_name rel \<noteq> Some (ascii ''SHA256SUMS'')) files;
          ls = map (manifest_line sha) files
      in join_lines (sort ls) @ [0x0A])"

section \<open>Lemmas on strings\<close>

text \<open>Printable ASCII without the space: what the names of the artefacts are made of.\<close>

definition graphic :: "byte \<Rightarrow> bool" where
  "graphic b \<longleftrightarrow> 0x21 \<le> b \<and> b < 0x7F"

lemma hexdigit_graphic: "is_hexdigit b \<Longrightarrow> graphic b"
  by (auto simp: graphic_def is_hexdigit_def is_digit_def word_le_nat_alt word_less_nat_alt)

lemma graphic_ascii: "graphic b \<Longrightarrow> b < 0x80"
  by (auto simp: graphic_def word_less_nat_alt)

lemma graphic_not_special:
  assumes "graphic b"
  shows "b \<notin> set ws1" "b \<noteq> 0x0A" "b \<noteq> 0x0D" "b \<notin> {0x80, 0x81, 0x82, 0x83, 0x84, 0x85, 0x86,
    0x87, 0x88, 0x89, 0x8A, 0xA8, 0xA9, 0xAF, 0x9F, 0xA0, 0xC2, 0xE1, 0xE2, 0xE3}"
  using assms by (auto simp: graphic_def ws1_def word_le_nat_alt word_less_nat_alt)

lemma ws_len_graphic [simp]: "graphic b \<Longrightarrow> ws_len (b # s) = 0"
  using graphic_not_special [of b]
  by (auto simp: ws_len_def ws_size_def ws2_def ws3_def)

lemma ws_end_len_graphic: "graphic (last s) \<Longrightarrow> s \<noteq> [] \<Longrightarrow> ws_end_len s = 0"
proof -
  assume g: "graphic (last s)" and s: "s \<noteq> []"
  have last: "last s = last t" if "drop (length s - k) s = t" "t \<noteq> []" for k t
    using that by (metis append_take_drop_id last_append)
  have "drop (length s - 1) s = [last s]"
    using s by (metis One_nat_def append_butlast_last_id append_eq_conv_conj length_butlast)
  moreover have "drop (length s - 2) s \<notin> set ws2"
    using graphic_not_special(4) [OF g] by (auto simp: ws2_def dest!: last)
  moreover have "drop (length s - 3) s \<notin> set ws3"
    using graphic_not_special(4) [OF g] by (auto simp: ws3_def dest!: last)
  ultimately show ?thesis
    using graphic_not_special(1) [OF g] by (simp add: ws_end_len_def ws_size_def)
qed

lemma split_ws_graphic:
  "list_all graphic h \<Longrightarrow> split_ws (h @ [0x20] @ s) = Some (h, s)"
proof (induction h)
  case Nil
  have "ws_len (0x20 # s) = 1" by (simp add: ws_len_def ws_size_def ws1_def)
  then show ?case by simp
qed simp

lemma trim_start_graphic: "graphic b \<Longrightarrow> trim_start (b # s) = b # s"
  by (simp add: trim_start.simps)

lemma trim_start_space: "trim_start (0x20 # s) = trim_start s"
proof -
  have "ws_len (0x20 # s) = 1" by (simp add: ws_len_def ws_size_def ws1_def)
  then show ?thesis by (subst trim_start.simps) simp
qed

lemma trim_graphic_ends: "graphic b \<Longrightarrow> graphic (last (b # s)) \<Longrightarrow> trim (b # s) = b # s"
  by (simp add: trim_def trim_start_graphic trim_end.simps ws_end_len_graphic)

lemma parse_manifest_line:
  assumes "length h = 64" and "list_all is_hexdigit h" and "p \<noteq> []" and "list_all graphic p"
  shows "parse_sums_line (h @ ascii ''  '' @ p) = Some (h, p)"
proof -
  have h: "list_all graphic h" using assms(2) hexdigit_graphic by (auto simp: list_all_iff)
  obtain b h' where bh: "h = b # h'" using assms(1) by (cases h) auto
  obtain c p' where cp: "p = c # p'" using assms(3) by (cases p) auto
  have sp: "ascii ''  '' = [0x20, 0x20]" by (simp add: ascii_def)
  have "trim (h @ [0x20, 0x20] @ p) = h @ [0x20, 0x20] @ p"
    using trim_graphic_ends [of b "h' @ [0x20, 0x20] @ p"] h assms(3,4)
    by (auto simp: bh list_all_iff)
  moreover have "split_ws (h @ [0x20, 0x20] @ p) = Some (h, 0x20 # p)"
    using split_ws_graphic [OF h, of "0x20 # p"] by simp
  moreover have "trim_start (0x20 # p) = p"
    using assms(4) by (simp add: trim_start_space cp trim_start_graphic)
  ultimately show ?thesis
    using assms(1,2) bh by (simp add: parse_sums_line_def sp)
qed

lemma hex_digits:
  "\<forall>n \<in> set [0 ..< 16]. is_hexdigit (hex_digit n) \<and> hex_val (hex_digit n) = word_of_nat n \<and>
     ascii_lower (hex_digit n) = hex_digit n"
  by code_simp

lemma hex_digit_ok:
  assumes "n < 16"
  shows "is_hexdigit (hex_digit n)" "hex_val (hex_digit n) = word_of_nat n"
    "ascii_lower (hex_digit n) = hex_digit n"
  using hex_digits assms by auto

lemma nibbles: "unat (b :: byte) div 16 < 16" "unat b mod 16 < 16"
  "word_of_nat (unat b div 16) * 16 + word_of_nat (unat b mod 16) = b"
proof -
  show "unat b div 16 < 16" using unat_bound [of b] by simp
  show "unat b mod 16 < 16" by simp
  have "word_of_nat (unat b div 16 * 16 + unat b mod 16) = b"
    by (simp only: div_mult_mod_eq) simp
  then show "word_of_nat (unat b div 16) * 16 + word_of_nat (unat b mod 16) = b"
    by (simp only: of_nat_add of_nat_mult of_nat_numeral)
qed

lemma hex_of_facts:
  "length (hex_of bs) = 2 * length bs" "list_all is_hexdigit (hex_of bs)"
  "hex_decode (hex_of bs) = bs" "map ascii_lower (hex_of bs) = hex_of bs"
  by (induction bs) (simp_all add: hex_of_def hex_digit_ok nibbles)

lemma hex_of_inject: "hex_of a = hex_of b \<longleftrightarrow> a = b"
  by (metis hex_of_facts(3))

lemma eq_ignore_case_hex: "eq_ignore_case (hex_of a) (hex_of b) \<longleftrightarrow> a = b"
  by (simp add: eq_ignore_case_def hex_of_facts(4) hex_of_inject)

lemma str_lines_from_plain:
  "0x0A \<notin> set l \<Longrightarrow> str_lines_from cur (l @ 0x0A # s) = strip_cr (cur @ l) # str_lines_from [] s"
  by (induction l arbitrary: cur) auto

lemma str_lines_join:
  assumes "\<And>l. l \<in> set ls \<Longrightarrow> list_all graphic (filter (\<lambda>b. b \<noteq> 0x20) l)"
  shows "str_lines (join_lines ls @ [0x0A]) = (if ls = [] then [[]] else ls)"
proof -
  have ok: "0x0A \<notin> set l \<and> strip_cr l = l" if "l \<in> set ls" for l
  proof -
    have "b = 0x20 \<or> graphic b" if "b \<in> set l" for b
      using assms [OF \<open>l \<in> set ls\<close>] that by (auto simp: list_all_iff)
    then have "b \<noteq> 0x0A \<and> b \<noteq> 0x0D" if "b \<in> set l" for b
      using that graphic_not_special by fastforce
    then show ?thesis using last_in_set [of l] by (auto simp: strip_cr_def)
  qed
  have "(\<And>l. l \<in> set ls \<Longrightarrow> 0x0A \<notin> set l \<and> strip_cr l = l) \<Longrightarrow> ls \<noteq> [] \<Longrightarrow>
      str_lines_from [] (join_lines ls @ [0x0A]) = ls"
    by (induction ls rule: join_lines.induct) (auto simp: str_lines_from_plain)
  with ok show ?thesis by (auto simp: str_lines_def strip_cr_def)
qed

section \<open>What the checks mean\<close>

text \<open>The entries of a manifest, and the first one that speaks of a file name.\<close>

definition manifest_entries :: "bytes \<Rightarrow> (bytes \<times> bytes) list" where
  "manifest_entries sums = List.map_filter parse_sums_line (str_lines sums)"

definition entry_for :: "bytes \<Rightarrow> (bytes \<times> bytes) list \<Rightarrow> (bytes \<times> bytes) option" where
  "entry_for name es = find (\<lambda>(_, path). ends_with path name) es"

definition verdict_of :: "bytes \<Rightarrow> bytes \<Rightarrow> (bytes \<times> bytes) option \<Rightarrow> signature_check" where
  "verdict_of name h e =
     (case e of
        None \<Rightarrow> STampered (ascii ''absent from SHA256SUMS for '' @ name) h
      | Some (listed, _) \<Rightarrow> if eq_ignore_case listed h then SVerified else STampered listed h)"

lemma check_lines_entry:
  "check_lines ls name h = verdict_of name h (entry_for name (List.map_filter parse_sums_line ls))"
  by (induction ls)
    (auto simp: entry_for_def verdict_of_def List.map_filter_def split: option.splits)

definition signature_ok :: "ed_lib \<Rightarrow> bytes \<Rightarrow> bytes \<Rightarrow> bytes \<Rightarrow> bool" where
  "signature_ok D sums sig key \<longleftrightarrow>
     length sig = 64 \<and> ed_key_error D key = None \<and> ed_verify D key sums sig"

lemma verify_combined_signed:
  "signature_ok D sums sig key \<Longrightarrow> utf8_valid sums \<Longrightarrow>
   verify_combined D sums sig key name h = Ok (verdict_of name h (entry_for name (manifest_entries sums)))"
  by (simp add: verify_combined_def verify_signature_def signature_ok_def SIGNATURE_LEN_def
      check_lines_entry manifest_entries_def)

lemma verdict_of_Verified_iff:
  "verdict_of name h e = SVerified \<longleftrightarrow>
   (case e of None \<Rightarrow> False | Some (listed, _) \<Rightarrow> eq_ignore_case listed h)"
  by (auto simp: verdict_of_def split: option.splits if_splits)

text \<open>
  C24. A file passes the signed-manifest check exactly when the signature over the manifest
  verifies under the release key, the manifest is text, and the first entry whose path ends with
  the file's name lists the file's hash. Nothing else makes a file pass.
\<close>

theorem verified_iff_signed_and_listed:
  "verify_combined D sums sig key name h = Ok SVerified \<longleftrightarrow>
     signature_ok D sums sig key \<and> utf8_valid sums \<and>
     (case entry_for name (manifest_entries sums) of
        None \<Rightarrow> False | Some (listed, _) \<Rightarrow> eq_ignore_case listed h)"
  by (auto simp: verify_combined_def verify_signature_def signature_ok_def SIGNATURE_LEN_def
      check_lines_entry manifest_entries_def verdict_of_Verified_iff outcome_simps
      split: option.splits)

section \<open>The manifests that are written\<close>

definition plain_path :: "path \<Rightarrow> bool" where
  "plain_path p \<longleftrightarrow> p \<noteq> [] \<and> last p \<noteq> ascii ''SHA256SUMS'' \<and> last p \<noteq> ascii ''..'' \<and>
     (\<forall>c \<in> set p. c \<noteq> [] \<and> list_all graphic c)"

lemma path_display_graphic:
  "\<forall>c \<in> set p. c \<noteq> [] \<and> list_all graphic c \<Longrightarrow> list_all graphic (path_display p)"
  by (induction p rule: path_display.induct) (auto simp: graphic_def)

lemma path_display_Nil_iff: "\<forall>c \<in> set p. c \<noteq> [] \<Longrightarrow> path_display p = [] \<longleftrightarrow> p = []"
  by (induction p rule: path_display.induct) auto

lemma plain_path_lossy: "plain_path p \<Longrightarrow> utf8_lossy (path_display p) = path_display p"
  using path_display_graphic [of p] graphic_ascii
  by (intro utf8_lossy_ascii) (auto simp: plain_path_def list_all_iff)

definition sha_ok :: "(bytes \<Rightarrow> bytes) \<Rightarrow> bool" where
  "sha_ok sha \<longleftrightarrow> (\<forall>x. length (sha x) = 32)"

lemma parse_written_line:
  assumes "sha_ok sha" and "plain_path rel"
  shows "parse_sums_line (manifest_line sha (rel, c)) = Some (hex_of (sha c), path_display rel)"
  using assms
  by (simp add: manifest_line_def parse_manifest_line hex_of_facts sha_ok_def plain_path_lossy plain_path_def
      path_display_graphic path_display_Nil_iff)

lemma manifest_line_graphic:
  "plain_path rel \<Longrightarrow> list_all graphic (filter (\<lambda>b. b \<noteq> 0x20) (manifest_line sha (rel, c)))"
  using path_display_graphic [of rel] hex_of_facts(2) [of "sha c"] hexdigit_graphic
  by (auto simp: manifest_line_def plain_path_lossy plain_path_def list_all_iff ascii_def)

lemma map_filter_perm:
  "mset xs = mset ys \<Longrightarrow> mset (List.map_filter f xs) = mset (List.map_filter f ys)"
  by (simp add: List.map_filter_def mset_map)

lemma join_lines_utf8:
  "(\<And>l b. l \<in> set ls \<Longrightarrow> b \<in> set l \<Longrightarrow> b < 0x80) \<Longrightarrow> b \<in> set (join_lines ls) \<Longrightarrow> b < 0x80"
  by (induction ls rule: join_lines.induct) auto

lemma written_manifest:
  assumes sha: "sha_ok sha" and plain: "\<forall>(rel, c) \<in> set files. plain_path rel"
  shows "mset (manifest_entries (hash_artifacts sha files)) =
      mset (map (\<lambda>(rel, c). (hex_of (sha c), path_display rel)) files)"
    and "utf8_valid (hash_artifacts sha files)"
proof -
  let ?ls = "map (manifest_line sha) files"
  have f: "filter (\<lambda>(rel, _). path_file_name rel \<noteq> Some (ascii ''SHA256SUMS'')) files = files"
    by (rule filter_True) (use plain in \<open>auto simp: plain_path_def path_file_name_def\<close>)
  have g: "list_all graphic (filter (\<lambda>b. b \<noteq> 0x20) l)" if "l \<in> set ?ls" for l
    using plain that manifest_line_graphic by fastforce
  have wr: "hash_artifacts sha files = join_lines (sort ?ls) @ [0x0A]"
    by (simp add: hash_artifacts_def f)
  have "str_lines (hash_artifacts sha files) = (if files = [] then [[]] else sort ?ls)"
    unfolding wr using str_lines_join [of "sort ?ls"] g set_empty [of "sort ?ls"] by simp
  moreover have "parse_sums_line [] = None"
    by (simp add: parse_sums_line_def trim_def trim_start.simps trim_end.simps ws_len_def
        ws_end_len_def ws_size_def ws2_def ws3_def)
  ultimately have "manifest_entries (hash_artifacts sha files) =
      List.map_filter parse_sums_line (sort ?ls)"
    by (simp add: manifest_entries_def List.map_filter_def)
  then have "mset (manifest_entries (hash_artifacts sha files)) =
      mset (List.map_filter parse_sums_line ?ls)"
    by (simp add: map_filter_perm)
  moreover have "List.map_filter parse_sums_line ?ls =
      map (\<lambda>(rel, c). (hex_of (sha c), path_display rel)) files"
    using plain parse_written_line [OF sha]
    by (induction files) (auto simp: List.map_filter_def)
  ultimately show "mset (manifest_entries (hash_artifacts sha files)) =
      mset (map (\<lambda>(rel, c). (hex_of (sha c), path_display rel)) files)" by simp
  have "b < 0x80" if "l \<in> set (sort ?ls)" and "b \<in> set l" for l b
    using g [of l] that graphic_ascii by (cases "b = 0x20") (auto simp: list_all_iff)
  then show "utf8_valid (hash_artifacts sha files)"
    unfolding wr using join_lines_utf8 [of "sort ?ls"] by (auto intro!: utf8_valid_ascii)
qed

lemma entry_for_listed:
  assumes "mset es = mset (map (\<lambda>(rel, c). (hex_of (sha c), path_display rel)) files)"
    and "(rel, c) \<in> set files" and "ends_with (path_display rel) name"
  obtains rel0 c0 where "(rel0, c0) \<in> set files" "ends_with (path_display rel0) name"
    "entry_for name es = Some (hex_of (sha c0), path_display rel0)"
proof -
  have es: "set es = (\<lambda>(rel, c). (hex_of (sha c), path_display rel)) ` set files"
    using mset_eq_setD [OF assms(1)] by simp
  have "entry_for name es \<noteq> None"
    using assms(2,3) unfolding entry_for_def find_None_iff es by force
  then obtain h p where hp: "entry_for name es = Some (h, p)" by auto
  then have "(h, p) \<in> set es" "ends_with p name"
    by (auto simp: entry_for_def find_Some_iff) (metis nth_mem)
  with that hp show thesis by (auto simp: es)
qed

lemma entry_for_unique:
  assumes "mset es = mset (map (\<lambda>(rel, c). (hex_of (sha c), path_display rel)) files)"
    and "(rel, c) \<in> set files" and "ends_with (path_display rel) name"
    and "\<And>x. x \<in> set files \<Longrightarrow> ends_with (path_display (fst x)) name \<Longrightarrow> x = (rel, c)"
  shows "entry_for name es = Some (hex_of (sha c), path_display rel)"
proof -
  obtain rel0 c0 where "(rel0, c0) \<in> set files" "ends_with (path_display rel0) name"
    "entry_for name es = Some (hex_of (sha c0), path_display rel0)"
    by (rule entry_for_listed [OF assms(1-3)])
  then show ?thesis using assms(4) [of "(rel0, c0)"] by simp
qed

text \<open>
  A signed release checks out: for a manifest written by \<^verbatim>\<open>hash_artifacts\<close> over files with
  plain names and signed with the release key, a file whose name ends the path of exactly one
  artefact is accepted with the contents it was listed with, and any contents of another hash are
  reported as tampered.
\<close>

theorem signed_release_checks_out:
  assumes "sha_ok sha" and "\<forall>(rel, c) \<in> set files. plain_path rel"
    and "signature_ok D (hash_artifacts sha files) sig key"
    and "(rel, c) \<in> set files" and "ends_with (path_display rel) name"
    and "\<And>x. x \<in> set files \<Longrightarrow> ends_with (path_display (fst x)) name \<Longrightarrow> x = (rel, c)"
  shows "verify_combined D (hash_artifacts sha files) sig key name (hex_of (sha c')) =
    Ok (if sha c' = sha c then SVerified else STampered (hex_of (sha c)) (hex_of (sha c')))"
  using entry_for_unique [OF written_manifest(1) [OF assms(1,2)] assms(4-6)]
    verify_combined_signed [OF assms(3) written_manifest(2) [OF assms(1,2)]]
  by (simp add: verdict_of_def eq_ignore_case_hex)

text \<open>A hash function and a signature scheme for the examples.\<close>

definition demo_sha :: "bytes \<Rightarrow> bytes" where
  "demo_sha bs = replicate 32 (word_of_nat (length bs))"

definition demo_ed :: ed_lib where
  "demo_ed = \<lparr> ed_key_error = \<lambda>_. None, ed_verify = \<lambda>k m s. s = k @ k \<rparr>"

lemma demo_signature: "signature_ok demo_ed sums (replicate 64 1) (replicate 32 1)"
proof -
  have "replicate 64 (1 :: byte) = replicate 32 1 @ replicate 32 1"
    by (simp flip: replicate_add)
  then show ?thesis by (simp add: signature_ok_def demo_ed_def)
qed

lemma demo_sha_ok: "sha_ok demo_sha"
  by (simp add: sha_ok_def demo_sha_def)

definition linux_lib :: path where "linux_lib = [ascii ''linux-x86_64'', ascii ''lib.so'']"
definition android_lib :: path where "android_lib = [ascii ''android'', ascii ''lib.so'']"
definition windows_lib :: path where "windows_lib = [ascii ''windows'', ascii ''lib.dll'']"

lemmas demo_paths = linux_lib_def android_lib_def windows_lib_def

lemma demo_paths_ok:
  "plain_path linux_lib" "plain_path android_lib" "plain_path windows_lib"
  "ends_with (path_display linux_lib) (ascii ''lib.so'')"
  "ends_with (path_display android_lib) (ascii ''lib.so'')"
  "\<not> ends_with (path_display windows_lib) (ascii ''lib.so'')"
  by (simp_all add: demo_paths plain_path_def ascii_def graphic_def ends_with_def)

theorem signed_release_checks_out_witness:
  "verify_combined demo_ed (hash_artifacts demo_sha [(linux_lib, [1]), (windows_lib, [1, 2])])
     (replicate 64 1) (replicate 32 1) (ascii ''lib.so'') (hex_of (demo_sha [1])) = Ok SVerified"
proof -
  let ?files = "[(linux_lib, [1]), (windows_lib, [1, 2])]"
  have u: "x = (linux_lib, [1])" if "x \<in> set ?files"
    and "ends_with (path_display (fst x)) (ascii ''lib.so'')" for x
    using that demo_paths_ok(6) by auto
  have p: "\<forall>(rel, c) \<in> set ?files. plain_path rel" and m: "(linux_lib, [1]) \<in> set ?files"
    using demo_paths_ok by auto
  show ?thesis
    using signed_release_checks_out [OF demo_sha_ok p demo_signature m demo_paths_ok(4) u] by simp
qed

text \<open>
  C39. The basename alone does not identify an artefact. In any release that holds two artefacts of
  the same name and different hashes, as it does for the Linux library and the four Android libraries,
  one artefact of that name is the one the check compares with, whatever else the release holds:
  contents of its hash are verified and all others are reported as tampered, so at least one of the
  two genuine files is rejected on every check.
\<close>

theorem same_name_artefacts_one_rejected:
  assumes "sha_ok sha" and "\<forall>(rel, c) \<in> set files. plain_path rel"
    and "(p1, c1) \<in> set files" and "(p2, c2) \<in> set files"
    and "ends_with (path_display p1) name" and "ends_with (path_display p2) name"
    and "sha c1 \<noteq> sha c2" and "signature_ok D (hash_artifacts sha files) sig key"
  shows "\<exists>p0 c0. (p0, c0) \<in> set files \<and> ends_with (path_display p0) name \<and>
    (\<forall>c. verify_combined D (hash_artifacts sha files) sig key name (hex_of (sha c)) =
       Ok (if sha c = sha c0 then SVerified else STampered (hex_of (sha c0)) (hex_of (sha c)))) \<and>
    (verify_combined D (hash_artifacts sha files) sig key name (hex_of (sha c1)) =
       Ok (STampered (hex_of (sha c0)) (hex_of (sha c1))) \<or>
     verify_combined D (hash_artifacts sha files) sig key name (hex_of (sha c2)) =
       Ok (STampered (hex_of (sha c0)) (hex_of (sha c2))))"
proof -
  obtain p0 c0 where 0: "(p0, c0) \<in> set files" "ends_with (path_display p0) name"
    and e: "entry_for name (manifest_entries (hash_artifacts sha files)) = Some (hex_of (sha c0), path_display p0)"
    by (rule entry_for_listed [OF written_manifest(1) [OF assms(1,2)] assms(3,5)])
  have v: "verify_combined D (hash_artifacts sha files) sig key name (hex_of (sha c)) =
      Ok (if sha c = sha c0 then SVerified else STampered (hex_of (sha c0)) (hex_of (sha c)))" for c
    using verify_combined_signed [OF assms(8) written_manifest(2) [OF assms(1,2)]]
    by (auto simp: e verdict_of_def eq_ignore_case_hex)
  show ?thesis
    by (rule exI [of _ p0], rule exI [of _ c0]) (use 0 v assms(7) in auto)
qed

text \<open>The five libraries of one name that a release for Linux and Android holds, and a sixth file.\<close>

definition demo_five_libs :: "(path \<times> bytes) list" where
  "demo_five_libs = (windows_lib, [9]) # zip
     ([ascii ''linux-x86_64'', ascii ''libmcpix_uniffi.so''] #
      map (\<lambda>abi. [ascii ''android'', ascii ''jniLibs'', ascii abi, ascii ''libmcpix_uniffi.so''])
        [''arm64-v8a'', ''armeabi-v7a'', ''x86_64'', ''x86''])
     (map (\<lambda>n. replicate n 1) [1, 2, 3, 4, 5])"

theorem same_name_artefacts_one_rejected_witness:
  "let check = (\<lambda>c. verify_combined demo_ed (hash_artifacts demo_sha demo_five_libs) (replicate 64 1)
       (replicate 32 1) (ascii ''libmcpix_uniffi.so'') (hex_of (demo_sha c))) in
   \<exists>c0. check c0 = Ok SVerified \<and>
     (check [1] = Ok (STampered (hex_of (demo_sha c0)) (hex_of (demo_sha [1]))) \<or>
      check [1, 1] = Ok (STampered (hex_of (demo_sha c0)) (hex_of (demo_sha [1, 1]))))"
proof -
  let ?p1 = "[ascii ''linux-x86_64'', ascii ''libmcpix_uniffi.so'']"
  let ?p2 = "[ascii ''android'', ascii ''jniLibs'', ascii ''arm64-v8a'', ascii ''libmcpix_uniffi.so'']"
  have plain: "\<forall>(rel, c) \<in> set demo_five_libs. plain_path rel"
    by (simp add: demo_five_libs_def demo_paths_ok(3)) (simp add: plain_path_def ascii_def graphic_def)
  have m: "(?p1, [1]) \<in> set demo_five_libs" "(?p2, [1, 1]) \<in> set demo_five_libs"
    by (simp_all add: demo_five_libs_def numeral_eq_Suc)
  have n: "ends_with (path_display ?p1) (ascii ''libmcpix_uniffi.so'')"
    "ends_with (path_display ?p2) (ascii ''libmcpix_uniffi.so'')"
    by (simp_all add: ascii_def ends_with_def)
  have d: "demo_sha [1] \<noteq> demo_sha [1, 1]" by (simp add: demo_sha_def)
  from same_name_artefacts_one_rejected [OF demo_sha_ok plain m n d demo_signature]
  show ?thesis unfolding Let_def by force
qed

lemma stamped_equal: "sha_ok sha \<Longrightarrow> verify_bytes sha bs (Some (hex_of (sha bs))) = Ok Verified"
  by (simp add: verify_bytes_def hex_of_facts sha_ok_def)

text \<open>
  The hash that the release writes into a build is the one the build's check reads: the
  check without a manifest accepts the contents with the stamped hash and reports any other hash
  with both values, and the hexadecimal digits in between lose nothing.
\<close>

theorem stamped_hash_checks_out:
  assumes "sha_ok sha"
  shows "verify_bytes sha bs (Some (hex_of (sha bs'))) =
    Ok (if sha bs = sha bs' then Verified else Tampered (sha bs') (sha bs))"
  using assms by (simp add: verify_bytes_def hex_of_facts sha_ok_def)

theorem stamped_hash_checks_out_witness:
  "verify_bytes demo_sha [1] (Some (hex_of (demo_sha [1, 2]))) =
     Ok (Tampered (demo_sha [1, 2]) (demo_sha [1]))"
  using stamped_hash_checks_out [OF demo_sha_ok, of "[1]" "[1, 2]"] by (simp add: demo_sha_def)

section \<open>The self-check\<close>

lemma read_file_Ok_iff [outcome_simps]: "read_file H p = Ok bs \<longleftrightarrow> h_read H p = Ok bs"
  by (simp add: read_file_def outcome_simps)

lemma verify_bytes_Verified:
  "verify_bytes sha bs e = Ok Verified \<Longrightarrow> \<exists>hex. e = Some hex \<and> hex_decode hex = sha bs"
  by (auto simp: verify_bytes_def Let_def split: option.splits if_splits)

text \<open>
  A library that reports itself verified rests on the release key or on the hash stamped into
  the build: either no manifest lies beside it and its own bytes have the stamped hash, or a
  manifest does, signed under the release key, in which the first entry for its file name lists
  the hash of its bytes; a development build, without a stamped hash, never reports it.
\<close>

theorem self_check_verified_sound:
  assumes "verify_self D sha H expected = Ok Verified"
  shows "\<exists>path bs hex. locate_self H = Ok path \<and> h_read H path = Ok bs \<and> expected = Some hex \<and>
    (case locate_sums H path of
       None \<Rightarrow> hex_decode hex = sha bs
     | Some (sums_path, sig_path) \<Rightarrow> (\<exists>sums sig name.
         h_read H sums_path = Ok sums \<and> h_read H sig_path = Ok sig \<and>
         path_file_name path = Some name \<and>
         verify_combined D sums sig (h_release_pubkey H) name (hex_of (sha bs)) = Ok SVerified))"
proof -
  from assms obtain path bs where 1: "locate_self H = Ok path" "h_read H path = Ok bs"
    by (auto simp: verify_self_def outcome_simps)
  show ?thesis
  proof (cases "locate_sums H path")
    case None
    with assms 1 have "verify_bytes sha bs expected = Ok Verified"
      by (simp add: verify_self_def read_file_def)
    with verify_bytes_Verified 1 None show ?thesis by fastforce
  next
    case (Some ps)
    with assms 1 show ?thesis
      by (cases ps)
        (auto simp: verify_self_def read_file_def outcome_simps Let_def
          split: if_splits option.splits signature_check.splits, metis signature_check.exhaust)
  qed
qed

text \<open>
  What the self-check does with and without a manifest: when none is found beside a release
  build, the stamped hash alone makes the answer \<open>Verified\<close>; when one is found, the value of the
  stamped hash plays no role.
\<close>

theorem self_check_policy:
  assumes "locate_self H = Ok path" and "h_read H path = Ok bs" and "sha_ok sha"
  shows "case locate_sums H path of
      None \<Rightarrow> verify_self D sha H (Some (hex_of (sha bs))) = Ok Verified
    | Some _ \<Rightarrow> verify_self D sha H (Some hex) = verify_self D sha H (Some (hex_of (sha bs)))"
  using assms stamped_equal
  by (auto simp: verify_self_def read_file_def split: option.splits)

definition demo_host :: "path list \<Rightarrow> host" where
  "demo_host files =
     \<lparr> h_self_path_var = None, h_current_exe = Ok linux_lib,
       h_exists = \<lambda>p. p \<in> set files,
       h_read = \<lambda>p. if p = linux_lib then Ok [1]
          else if last p = ascii ''SHA256SUMS'' then Ok (hash_artifacts demo_sha [(linux_lib, [1])])
          else Ok (replicate 64 1),
       h_display = path_display, h_release_pubkey = replicate 32 1 \<rparr>"

theorem self_check_policy_witness:
  "verify_self demo_ed demo_sha (demo_host []) (Some (hex_of (demo_sha [1]))) = Ok Verified"
  using self_check_policy [of "demo_host []" linux_lib "[1]" demo_sha demo_ed] demo_sha_ok
  by (simp add: demo_host_def locate_self_def locate_sums_def path_parent_def linux_lib_def
      List.map_filter_def)

theorem self_check_verified_sound_witness:
  "\<exists>path bs hex. locate_self (demo_host []) = Ok path \<and> h_read (demo_host []) path = Ok bs \<and>
     Some (hex_of (demo_sha [1])) = Some hex"
proof -
  have "verify_self demo_ed demo_sha (demo_host []) (Some (hex_of (demo_sha [1]))) = Ok Verified"
    by (simp add: verify_self_def demo_host_def locate_self_def locate_sums_def path_parent_def
        linux_lib_def List.map_filter_def read_file_def stamped_equal demo_sha_ok)
  from self_check_verified_sound [OF this] show ?thesis by blast
qed

end
