(* ===== verification/Release.thy ===== *)
theory Release
  imports Integrity
begin

text \<open>
  The release tasks of \<^verbatim>\<open>xtask/src/main.rs\<close>: \<^verbatim>\<open>walk\<close>, \<^verbatim>\<open>hash_artifacts\<close>, \<^verbatim>\<open>gen_release_key\<close> and
  \<^verbatim>\<open>sign_artifacts\<close>, over the part of the file system they touch.

  A directory is the listing \<^verbatim>\<open>read_dir\<close> delivers, and the tree is finite (no link leads back into
  it); every access may fail with a message. Signing and hashing are third-party parameters.
\<close>

section \<open>The directory walk\<close>

datatype node =
    File "bytes + bytes"
  | Dir listing
  | Unreadable bytes
and listing =
    LEnd
  | LFails bytes
  | LEntry bytes node listing

type_synonym 'a task = "(bytes, 'a) outcome"

fun walk ::
    "(path \<Rightarrow> bytes) \<Rightarrow> (path \<Rightarrow> bytes + bytes \<Rightarrow> 's \<Rightarrow> 's task) \<Rightarrow> path \<Rightarrow> node \<Rightarrow> 's \<Rightarrow> 's task"
  and walk_entries ::
    "(path \<Rightarrow> bytes) \<Rightarrow> (path \<Rightarrow> bytes + bytes \<Rightarrow> 's \<Rightarrow> 's task) \<Rightarrow> path \<Rightarrow> listing \<Rightarrow> 's \<Rightarrow> 's task" where
  "walk display f rel (File c) s =
     Err (ascii ''read_dir '' @ display rel @ ascii '': Not a directory (os error 20)'')"
| "walk display f rel (Unreadable e) s = Err (ascii ''read_dir '' @ display rel @ ascii '': '' @ e)"
| "walk display f rel (Dir entries) s = walk_entries display f rel entries s"
| "walk_entries display f rel LEnd s = Ok s"
| "walk_entries display f rel (LFails e) s = Err e"
| "walk_entries display f rel (LEntry name n entries) s =
     and_then (case n of File c \<Rightarrow> f (rel @ [name]) c s
               | _ \<Rightarrow> walk display f (rel @ [name]) n s)
       (walk_entries display f rel entries)"

text \<open>What \<^verbatim>\<open>dist\<close> holds and what the tasks write beside it.\<close>

record build_host =
  bh_dist :: "node option"
  bh_sign_key :: "bytes option"
  bh_release_pub :: "bytes option"
  bh_release_priv :: "bytes option"

text \<open>
  A file directly in a directory, and a write that succeeded (it never does where the name is a
  directory's).
\<close>

fun listed :: "bytes \<Rightarrow> listing \<Rightarrow> (bytes + bytes) option" where
  "listed name (LEntry n d rest) =
     (if n = name
      then Some (case d of File c \<Rightarrow> c | _ \<Rightarrow> Inl (ascii ''Is a directory (os error 21)''))
      else listed name rest)"
| "listed name _ = None"

fun file_in :: "bytes \<Rightarrow> node \<Rightarrow> (bytes + bytes) option" where
  "file_in name (Dir l) = listed name l"
| "file_in name _ = None"

fun put_file :: "bytes \<Rightarrow> bytes \<Rightarrow> listing \<Rightarrow> listing" where
  "put_file name c (LEntry n d rest) =
     (if n = name then LEntry n (File (Inr c)) rest else LEntry n d (put_file name c rest))"
| "put_file name c LEnd = LEntry name (File (Inr c)) LEnd"
| "put_file name c (LFails e) = LFails e"

fun write_in :: "bytes \<Rightarrow> bytes \<Rightarrow> node \<Rightarrow> node" where
  "write_in name c (Dir l) = Dir (put_file name c l)"
| "write_in name c d = d"

definition SUMS :: bytes where "SUMS = ascii ''SHA256SUMS''"
definition SUMS_SIG :: bytes where "SUMS_SIG = ascii ''SHA256SUMS.sig''"

section \<open>The tasks\<close>

definition em_dash :: bytes where "em_dash = [0xE2, 0x80, 0x94]"

text \<open>The closure that \<^verbatim>\<open>hash_artifacts\<close> hands to \<^verbatim>\<open>walk\<close>.\<close>

definition hash_entry ::
  "(bytes \<Rightarrow> bytes) \<Rightarrow> path \<Rightarrow> bytes + bytes \<Rightarrow> bytes list \<Rightarrow> bytes list task" where
  "hash_entry sha rel content ls =
     (if path_file_name rel = Some SUMS then Ok ls
      else case content of
          Inl e \<Rightarrow> Err e
        | Inr bs \<Rightarrow> Ok (ls @ [manifest_line sha (rel, bs)]))"

text \<open>
  \<open>io\<close> is the outcome of a write: \<open>None\<close>, or the message of its failure and what it left: the file as it
  was, or other contents, since \<^verbatim>\<open>fs::write\<close> truncates first and may stop half way.
\<close>

type_synonym write_io = "(bytes \<times> bytes option) option"

definition left_in :: "bytes \<Rightarrow> bytes option \<Rightarrow> node \<Rightarrow> node" where
  "left_in name left d = (case left of None \<Rightarrow> d | Some c \<Rightarrow> write_in name c d)"

definition hash_task ::
  "(path \<Rightarrow> bytes) \<Rightarrow> (bytes \<Rightarrow> bytes) \<Rightarrow> write_io \<Rightarrow> build_host \<Rightarrow> unit task \<times> build_host" where
  "hash_task display sha io H =
     (case bh_dist H of
        None \<Rightarrow> (Err (ascii ''no dist/ '' @ em_dash @ ascii '' run `cargo xtask build-all` first''), H)
      | Some dist \<Rightarrow>
          st_then (walk display (hash_entry sha) [] dist [], H) (\<lambda>ls H.
          case io of
            Some (e, left) \<Rightarrow> (Err e, H \<lparr> bh_dist := Some (left_in SUMS left dist) \<rparr>)
          | None \<Rightarrow>
              (Ok (), H \<lparr> bh_dist := Some (write_in SUMS (join_lines (sort ls) @ [0x0A]) dist) \<rparr>)))"

record sign_lib =
  sk_public :: "bytes \<Rightarrow> bytes"
  sk_sign :: "bytes \<Rightarrow> bytes \<Rightarrow> bytes"

text \<open>
  Generating a key: \<open>rng\<close> is the seed the operating system delivers (its failure is a panic in the
  library), \<open>io\<close> the outcomes of the two directory creations and the two writes.
\<close>

definition gen_release_key ::
  "sign_lib \<Rightarrow> bytes \<Rightarrow> bytes option \<Rightarrow> bytes option \<times> bytes option \<times> write_io \<times> write_io \<Rightarrow>
   build_host \<Rightarrow> unit task \<times> build_host" where
  "gen_release_key S pub_display rng = (\<lambda>(io1, io2, io3, io4) H.
     case io1 of Some e \<Rightarrow> (Err e, H) | None \<Rightarrow>
     (case io2 of Some e \<Rightarrow> (Err e, H) | None \<Rightarrow>
      if bh_release_pub H \<noteq> None
      then (Err (ascii ''release.pub already exists at '' @ pub_display @ ascii '' '' @ em_dash
              @ ascii '' refusing to overwrite. Rotation must be explicit: delete the file first and re-run.''), H)
      else case rng of None \<Rightarrow> (Panic, H) | Some seed \<Rightarrow>
       (case io3 of
          Some (e, None) \<Rightarrow> (Err e, H)
        | Some (e, Some left) \<Rightarrow> (Err e, H \<lparr> bh_release_pub := Some left \<rparr>)
        | None \<Rightarrow>
        let H = H \<lparr> bh_release_pub := Some (sk_public S seed) \<rparr> in
        (case io4 of
           Some (e, None) \<Rightarrow> (Err e, H)
         | Some (e, Some left) \<Rightarrow> (Err e, H \<lparr> bh_release_priv := Some left \<rparr>)
         | None \<Rightarrow> (Ok (), H \<lparr> bh_release_priv := Some seed \<rparr>)))))"

text \<open>\<^verbatim>\<open>u8::from_str_radix(s, 16)\<close> on one or two bytes, which takes a leading plus sign.\<close>

definition u8_from_hex :: "bytes \<Rightarrow> byte task" where
  "u8_from_hex s =
     (let digits = (if length s > 1 \<and> hd s = 0x2B then tl s else s) in
      if s = [] then Err (ascii ''cannot parse integer from empty string'')
      else if \<not> list_all is_hexdigit digits then Err (ascii ''invalid digit found in string'')
      else Ok (foldl (\<lambda>a d. a * 16 + hex_val d) 0 digits))"

fun key_bytes :: "(bytes \<Rightarrow> bytes) \<Rightarrow> bytes \<Rightarrow> bytes task" where
  "key_bytes utf8_err (a # b # rest) =
     (if \<not> utf8_valid [a, b] then Err (utf8_err [a, b])
      else and_then (u8_from_hex [a, b]) (\<lambda>x. and_then (key_bytes utf8_err rest) (\<lambda>xs. Ok (x # xs))))"
| "key_bytes utf8_err s =
     (if s = [] then Ok []
      else if \<not> utf8_valid s then Err (utf8_err s)
      else and_then (u8_from_hex s) (\<lambda>x. Ok [x]))"

definition sign_artifacts ::
  "sign_lib \<Rightarrow> (bytes \<Rightarrow> bytes) \<Rightarrow> bytes \<Rightarrow> write_io \<Rightarrow> build_host \<Rightarrow> unit task \<times> build_host" where
  "sign_artifacts S utf8_err sums_display io H =
     (case Option.bind (bh_dist H) (file_in SUMS) of
        None \<Rightarrow> (Err (sums_display @ ascii '' not found '' @ em_dash
                   @ ascii '' run `cargo xtask hash-artifacts` first''), H)
      | Some sums \<Rightarrow>
         (case bh_sign_key H of
            None \<Rightarrow> (Err (ascii ''MCPIX_SIGN_PRIVKEY_HEX env var unset '' @ em_dash
                @ ascii '' pass the 64-char hex seed of the release private key (in CI: from secret)''), H)
          | Some key_hex \<Rightarrow>
              if length key_hex \<noteq> 64
              then (Err (ascii ''MCPIX_SIGN_PRIVKEY_HEX must be 64 hex chars, got ''
                      @ show_nat (length key_hex)), H)
              else
                st_then (key_bytes utf8_err key_hex, H) (\<lambda>seed H.
                case sums of
                  Inl e \<Rightarrow> (Err e, H)
                | Inr bs \<Rightarrow>
                    (case io of
                       Some (e, left) \<Rightarrow>
                         (Err e, H \<lparr> bh_dist := map_option (left_in SUMS_SIG left) (bh_dist H) \<rparr>)
                     | None \<Rightarrow> (Ok (), H \<lparr> bh_dist :=
                         map_option (write_in SUMS_SIG (sk_sign S seed bs)) (bh_dist H) \<rparr>)))))"

section \<open>What the walk delivers\<close>

text \<open>
  The files of a tree, and the trees every part of which can be read, the old manifests apart:
  those are not opened.
\<close>

fun tree_files :: "path \<Rightarrow> node \<Rightarrow> (path \<times> bytes) list"
  and listing_files :: "path \<Rightarrow> listing \<Rightarrow> (path \<times> bytes) list" where
  "tree_files rel (File c) = (case c of Inr bs \<Rightarrow> [(rel, bs)] | Inl e \<Rightarrow> [])"
| "tree_files rel (Dir entries) = listing_files rel entries"
| "tree_files rel (Unreadable e) = []"
| "listing_files rel (LEntry name n entries) =
     tree_files (rel @ [name]) n @ listing_files rel entries"
| "listing_files rel LEnd = []"
| "listing_files rel (LFails e) = []"

fun readable :: "node \<Rightarrow> bool" and all_readable :: "listing \<Rightarrow> bool" where
  "readable (File c) \<longleftrightarrow> \<not> isl c"
| "readable (Dir entries) \<longleftrightarrow> all_readable entries"
| "readable (Unreadable e) \<longleftrightarrow> False"
| "all_readable LEnd \<longleftrightarrow> True"
| "all_readable (LFails e) \<longleftrightarrow> False"
| "all_readable (LEntry name n entries) \<longleftrightarrow>
     (readable n \<or> name = SUMS \<and> (case n of File c \<Rightarrow> True | _ \<Rightarrow> False)) \<and> all_readable entries"

definition is_artefact :: "path \<times> bytes \<Rightarrow> bool" where
  "is_artefact f \<longleftrightarrow> path_file_name (fst f) \<noteq> Some SUMS"

lemma hash_entry_Ok:
  "hash_entry sha rel (Inr c) ls = Ok (ls @ map (manifest_line sha) (filter is_artefact [(rel, c)]))"
  by (simp add: hash_entry_def is_artefact_def)

lemma hash_entry_SUMS: "hash_entry sha (rel @ [SUMS]) c ls = Ok ls"
  by (simp add: hash_entry_def path_file_name_def SUMS_def ascii_def)

lemma not_artefact: "\<not> is_artefact (rel @ [SUMS], c)"
  by (simp add: is_artefact_def path_file_name_def SUMS_def ascii_def)

text \<open>One entry of a directory: a file goes to the closure, anything else to the walk.\<close>

abbreviation entry_walk where
  "entry_walk display sha rel n ls \<equiv>
     (case n of File c \<Rightarrow> hash_entry sha rel c ls | _ \<Rightarrow> walk display (hash_entry sha) rel n ls)"

lemma walk_tree_files:
  "readable n \<Longrightarrow> entry_walk display sha rel n ls =
    Ok (ls @ map (manifest_line sha) (filter is_artefact (tree_files rel n)))"
  "all_readable l \<Longrightarrow> walk_entries display (hash_entry sha) rel l ls =
    Ok (ls @ map (manifest_line sha) (filter is_artefact (listing_files rel l)))"
proof (induction rel n and rel l arbitrary: ls and ls rule: tree_files_listing_files.induct)
  case (1 rel c)
  then show ?case by (cases c) (auto simp: hash_entry_Ok)
next
  case (4 rel name n l)
  then show ?case
  proof (cases "readable n")
    case True
    with 4 show ?thesis by (cases n) simp_all
  next
    case False
    with 4(3) obtain c where "n = File c" "name = SUMS" "all_readable l"
      by (auto split: node.splits)
    with 4(2) show ?thesis by (simp add: hash_entry_SUMS not_artefact split: sum.splits)
  qed
qed simp_all

lemma walk_unreadable:
  "\<not> readable n \<Longrightarrow> (\<nexists>p c. n = File c \<and> rel = p @ [SUMS]) \<Longrightarrow> rel \<noteq> [] \<Longrightarrow>
    \<exists>e. entry_walk display sha rel n ls = Err e"
  "\<not> all_readable l \<Longrightarrow> \<exists>e. walk_entries display (hash_entry sha) rel l ls = Err e"
proof (induction rel n and rel l arbitrary: ls and ls rule: tree_files_listing_files.induct)
  case (1 rel c)
  then obtain e where c: "c = Inl e" by (cases c) auto
  have "last rel \<noteq> SUMS"
    using 1(2,3) append_butlast_last_id [of rel] by metis
  then have "path_file_name rel \<noteq> Some SUMS"
    by (simp add: path_file_name_def)
  with c show ?case by (simp add: hash_entry_def)
next
  case (4 rel name n l)
  show ?case
  proof (cases "readable n \<or> name = SUMS \<and> (case n of File c \<Rightarrow> True | _ \<Rightarrow> False)")
    case True
    then have "\<exists>ls'. entry_walk display sha (rel @ [name]) n ls = Ok ls'"
      using walk_tree_files(1) [where n = n and rel = "rel @ [name]"]
      by (auto simp: hash_entry_SUMS split: node.splits)
    moreover have "\<not> all_readable l" using 4(3) True by simp
    ultimately show ?thesis using 4(2) by auto
  next
    case False
    then have "\<exists>e. entry_walk display sha (rel @ [name]) n ls = Err e"
      by (intro 4(1)) auto
    then show ?thesis by auto
  qed
qed simp_all

lemma hash_artifacts_artefacts:
  "hash_artifacts sha files = join_lines (sort (map (manifest_line sha) (filter is_artefact files))) @ [0x0A]"
  "hash_artifacts sha (filter is_artefact files) = hash_artifacts sha files"
proof -
  have "(\<lambda>(rel, _). path_file_name rel \<noteq> Some (ascii ''SHA256SUMS'')) = is_artefact"
    by (auto simp: is_artefact_def SUMS_def)
  then show "hash_artifacts sha files =
      join_lines (sort (map (manifest_line sha) (filter is_artefact files))) @ [0x0A]"
    and "hash_artifacts sha (filter is_artefact files) = hash_artifacts sha files"
    by (simp_all add: hash_artifacts_def)
qed

lemma hash_task_readable:
  assumes "bh_dist H = Some (Dir l)" and "all_readable l"
  shows "hash_task display sha None H =
    (Ok (), H \<lparr> bh_dist := Some (Dir (put_file SUMS (hash_artifacts sha (listing_files [] l)) l)) \<rparr>)"
  using assms by (simp add: hash_task_def walk_tree_files(2) hash_artifacts_artefacts(1))

text \<open>
  C26. The manifest is complete or the task fails: \<^verbatim>\<open>hash-artifacts\<close> over a tree that can be
  read, the old manifests apart, ends and writes the manifest of all its artefacts at every depth;
  if any directory or file of the tree cannot be read it returns an error and writes nothing.
\<close>

theorem hash_task_complete_or_error:
  assumes "bh_dist H = Some (Dir l)"
  shows "(all_readable l \<longrightarrow> hash_task display sha None H =
      (Ok (), H \<lparr> bh_dist := Some (Dir (put_file SUMS (hash_artifacts sha (listing_files [] l)) l)) \<rparr>)) \<and>
    (\<not> all_readable l \<longrightarrow> (\<exists>e. hash_task display sha None H = (Err e, H)))"
  using hash_task_readable [OF assms] walk_unreadable(2) [of l display sha "[]" "[]"] assms
  by (auto simp: hash_task_def)

lemma put_file_listed:
  "all_readable l \<Longrightarrow> listed name (put_file name c l) = Some (Inr c)"
  "name \<noteq> name' \<Longrightarrow> listed name' (put_file name c l) = listed name' l"
  "all_readable l \<Longrightarrow> all_readable (put_file name c l)"
  by (induction l rule: put_file.induct) auto

section \<open>A key read back from its hexadecimal digits\<close>

lemma hexdigit_plain: "is_hexdigit b \<Longrightarrow> b < 0x80 \<and> b \<noteq> 0x2B"
  using hexdigit_graphic graphic_ascii by (auto simp: is_hexdigit_def is_digit_def)

lemma u8_from_hex_digits:
  assumes "a < 16" and "b < 16"
  shows "u8_from_hex [hex_digit a, hex_digit b] = Ok (word_of_nat a * 16 + word_of_nat b)"
  using hexdigit_plain [OF hex_digit_ok(1) [OF assms(1)]] assms
  by (simp add: u8_from_hex_def hex_digit_ok)

lemma key_bytes_hex_of: "key_bytes utf8_err (hex_of bs) = Ok bs"
proof (induction bs)
  case Nil
  then show ?case by (simp add: hex_of_def)
next
  case (Cons b bs)
  let ?h = "[hex_digit (unat b div 16), hex_digit (unat b mod 16)]"
  have "\<forall>d \<in> set ?h. d < 0x80"
    using hexdigit_plain hex_digit_ok(1) nibbles(1,2) [of b] by simp
  then have "utf8_valid ?h" by (intro utf8_valid_ascii) auto
  moreover have "hex_of (b # bs) = ?h @ hex_of bs" by (simp add: hex_of_def)
  ultimately show ?case
    using Cons u8_from_hex_digits [OF nibbles(1,2), of b b] by (simp add: nibbles(3))
qed

section \<open>A release, from the key to the check\<close>

text \<open>What Ed25519 documents of a key pair and its signatures.\<close>

definition signs_for :: "sign_lib \<Rightarrow> ed_lib \<Rightarrow> bool" where
  "signs_for S D \<longleftrightarrow> (\<forall>seed m. length seed = 32 \<longrightarrow>
     signature_ok D m (sk_sign S seed m) (sk_public S seed))"

text \<open>The tree a release is made from, and the artefacts of it.\<close>

definition artefacts :: "listing \<Rightarrow> (path \<times> bytes) list" where
  "artefacts l = filter is_artefact (listing_files [] l)"

definition release_tree :: "build_host \<Rightarrow> listing \<Rightarrow> bool" where
  "release_tree H l \<longleftrightarrow> bh_dist H = Some (Dir l) \<and> all_readable l \<and>
     (\<forall>(rel, c) \<in> set (artefacts l). plain_path rel)"

definition only_one :: "bytes \<Rightarrow> path \<times> bytes \<Rightarrow> (path \<times> bytes) list \<Rightarrow> bool" where
  "only_one name f files \<longleftrightarrow> f \<in> set files \<and> ends_with (path_display (fst f)) name \<and>
     (\<forall>x \<in> set files. ends_with (path_display (fst x)) name \<longrightarrow> x = f)"

lemma SUMS_neq [simp]: "SUMS \<noteq> SUMS_SIG" "SUMS_SIG \<noteq> SUMS"
  by (simp_all add: SUMS_def SUMS_SIG_def ascii_def)

lemma hash_then_sign:
  assumes t: "release_tree H l" and k: "bh_sign_key H = Some (hex_of seed)" "length seed = 32"
  obtains H1 l2 where
    "hash_task display sha None H = (Ok (), H1)"
    "sign_artifacts S utf8_err sums_display None H1 = (Ok (), H \<lparr> bh_dist := Some (Dir l2) \<rparr>)"
    "listed SUMS l2 = Some (Inr (hash_artifacts sha (artefacts l)))"
    "listed SUMS_SIG l2 = Some (Inr (sk_sign S seed (hash_artifacts sha (artefacts l))))"
proof -
  let ?m = "hash_artifacts sha (artefacts l)"
  let ?l1 = "put_file SUMS ?m l"
  let ?l2 = "put_file SUMS_SIG (sk_sign S seed ?m) ?l1"
  have l: "bh_dist H = Some (Dir l)" "all_readable l" using t by (simp_all add: release_tree_def)
  have h: "hash_task display sha None H = (Ok (), H \<lparr> bh_dist := Some (Dir ?l1) \<rparr>)"
    using hash_task_readable [OF l] by (simp add: artefacts_def hash_artifacts_artefacts(2))
  have "sign_artifacts S utf8_err sums_display None (H \<lparr> bh_dist := Some (Dir ?l1) \<rparr>) =
      (Ok (), H \<lparr> bh_dist := Some (Dir ?l2) \<rparr>)"
    using k by (simp add: sign_artifacts_def put_file_listed l(2) key_bytes_hex_of hex_of_facts)
  with h show thesis
    by (rule that) (simp_all add: put_file_listed l(2))
qed

lemma signed_tree_verdict:
  assumes "sha_ok sha" and "signs_for S D" and "length seed = 32"
    and "\<forall>(rel, c) \<in> set files. plain_path rel" and "only_one name f files"
  shows "verify_combined D (hash_artifacts sha files) (sk_sign S seed (hash_artifacts sha files))
      (sk_public S seed) name (hex_of (sha c')) =
    Ok (if sha c' = sha (snd f) then SVerified else STampered (hex_of (sha (snd f))) (hex_of (sha c')))"
proof -
  obtain rel c where f: "f = (rel, c)" by (cases f)
  have s: "signature_ok D (hash_artifacts sha files) (sk_sign S seed (hash_artifacts sha files))
      (sk_public S seed)"
    using assms(2,3) by (simp add: signs_for_def)
  have u: "(rel, c) \<in> set files" "ends_with (path_display rel) name"
      "\<And>x. x \<in> set files \<Longrightarrow> ends_with (path_display (fst x)) name \<Longrightarrow> x = (rel, c)"
    using assms(5) by (auto simp: only_one_def f)
  show ?thesis
    using entry_for_unique [OF written_manifest(1) [OF assms(1,4)] u]
      verify_combined_signed [OF s written_manifest(2) [OF assms(1,4)]]
    by (simp add: verdict_of_def eq_ignore_case_hex f)
qed

text \<open>
  C25. A release checks out: after \<^verbatim>\<open>gen-release-key\<close>, and after \<^verbatim>\<open>hash-artifacts\<close> and
  \<^verbatim>\<open>sign-artifacts\<close> with the private key it printed, all three tasks have succeeded, and every
  artefact under \<^verbatim>\<open>dist\<close> whose name is its own passes the check of the published manifest,
  signature and public key with its contents, and fails it with any contents of another hash.
\<close>

theorem release_pipeline_checks_out:
  assumes "sha_ok sha" and "signs_for S D" and "length seed = 32"
    and "bh_release_pub H = None" and "release_tree H l" and "only_one name f (artefacts l)"
    and "gen_release_key S pub_display (Some seed) (None, None, None, None) H = (r0, H0)"
    and "hash_task display sha None (H0 \<lparr> bh_sign_key := Some (hex_of seed) \<rparr>) = (r1, H1)"
    and "sign_artifacts S utf8_err sums_display None H1 = (r2, H2)"
  shows "r0 = Ok () \<and> r1 = Ok () \<and> r2 = Ok () \<and>
    (\<exists>sums sig key. Option.bind (bh_dist H2) (file_in SUMS) = Some (Inr sums) \<and>
       Option.bind (bh_dist H2) (file_in SUMS_SIG) = Some (Inr sig) \<and> bh_release_pub H2 = Some key \<and>
       (\<forall>c'. verify_combined D sums sig key name (hex_of (sha c')) =
          Ok (if sha c' = sha (snd f) then SVerified
              else STampered (hex_of (sha (snd f))) (hex_of (sha c')))))"
proof -
  have g: "r0 = Ok ()" "H0 = H \<lparr> bh_release_pub := Some (sk_public S seed), bh_release_priv := Some seed \<rparr>"
    using assms(4,7) by (simp_all add: gen_release_key_def)
  let ?H = "H0 \<lparr> bh_sign_key := Some (hex_of seed) \<rparr>"
  have t: "release_tree ?H l" using assms(5) by (simp add: release_tree_def g(2))
  have k: "bh_sign_key ?H = Some (hex_of seed)" by simp
  have plain: "\<forall>(rel, c) \<in> set (artefacts l). plain_path rel"
    using assms(5) by (simp add: release_tree_def)
  show ?thesis
    by (rule hash_then_sign [OF t k assms(3), of display sha S utf8_err sums_display])
      (use assms(8,9) g signed_tree_verdict [OF assms(1-3) plain assms(6)] in auto)
qed

text \<open>A release tree and a signature scheme for the examples.\<close>

definition demo_dist :: listing where
  "demo_dist = LEntry (ascii ''linux'') (Dir (LEntry (ascii ''lib.so'') (File (Inr [1])) LEnd))
     (LEntry SUMS (File (Inl [])) (LEntry SUMS_SIG (File (Inr [7])) LEnd))"

definition demo_host :: build_host where
  "demo_host = \<lparr> bh_dist = Some (Dir demo_dist), bh_sign_key = None, bh_release_pub = None,
     bh_release_priv = None \<rparr>"

definition demo_sign :: sign_lib where
  "demo_sign = \<lparr> sk_public = (\<lambda>s. s), sk_sign = (\<lambda>s m. s @ s) \<rparr>"

lemma demo_release:
  "signs_for demo_sign demo_ed"
  "artefacts demo_dist = [([ascii ''linux'', ascii ''lib.so''], [1]), ([SUMS_SIG], [7])]"
  "all_readable demo_dist"
  by (simp_all add: signs_for_def signature_ok_def demo_sign_def demo_ed_def demo_dist_def
      artefacts_def is_artefact_def path_file_name_def SUMS_def SUMS_SIG_def ascii_def)

lemma demo_release_tree:
  "release_tree (demo_host \<lparr> bh_release_pub := k, bh_sign_key := k', bh_release_priv := k'' \<rparr>) demo_dist"
  "only_one (ascii ''lib.so'') ([ascii ''linux'', ascii ''lib.so''], [1]) (artefacts demo_dist)"
  "only_one SUMS_SIG ([SUMS_SIG], [7]) (artefacts demo_dist)"
  using demo_release(3)
  by (simp_all add: release_tree_def demo_host_def demo_release(2) plain_path_def ascii_def
      graphic_def only_one_def ends_with_def SUMS_def SUMS_SIG_def)

theorem hash_task_complete_or_error_witness:
  "fst (hash_task path_display demo_sha None demo_host) = Ok () \<and>
   fst (hash_task path_display demo_sha None (demo_host \<lparr> bh_dist := Some (Dir (LFails []))\<rparr>)) \<noteq> Ok ()"
proof -
  have h: "bh_dist demo_host = Some (Dir demo_dist)"
    "bh_dist (demo_host \<lparr> bh_dist := Some (Dir (LFails []))\<rparr>) = Some (Dir (LFails []))"
    by (simp_all add: demo_host_def)
  show ?thesis
    using hash_task_complete_or_error [OF h(1), of path_display demo_sha]
      hash_task_complete_or_error [OF h(2), of path_display demo_sha] demo_release(3)
    by auto
qed

theorem release_pipeline_checks_out_witness:
  "fst (sign_artifacts demo_sign (\<lambda>_. []) [] None (snd (hash_task path_display demo_sha None
     (snd (gen_release_key demo_sign [] (Some (replicate 32 5)) (None, None, None, None) demo_host)
        \<lparr> bh_sign_key := Some (hex_of (replicate 32 5)) \<rparr>)))) = Ok ()"
proof -
  have t: "release_tree demo_host demo_dist" "bh_release_pub demo_host = None"
      "length (replicate 32 (5 :: byte)) = 32"
    using demo_release_tree(1) [of None None None] by (simp_all add: demo_host_def)
  show ?thesis
    using release_pipeline_checks_out [OF demo_sha_ok demo_release(1) t(3,2,1) demo_release_tree(2)
        surjective_pairing surjective_pairing surjective_pairing] by blast
qed

text \<open>
  Signing a second time into the same \<^verbatim>\<open>dist\<close> publishes a manifest that is false: the walk
  leaves out the old manifest but not the old signature, so the new manifest lists the hash of a
  signature file that the task then overwrites, and the published signature file fails the check
  of the published manifest.
\<close>

theorem second_release_lists_the_stale_signature:
  assumes "sha_ok sha" and "signs_for S D" and "length seed = 32"
    and "bh_sign_key H = Some (hex_of seed)" and "release_tree H l"
    and "only_one SUMS_SIG ([SUMS_SIG], old) (artefacts l)"
    and "hash_task display sha None H = (r1, H1)"
    and "sign_artifacts S utf8_err sums_display None H1 = (r2, H2)"
    and "sums = hash_artifacts sha (artefacts l)" and "sig = sk_sign S seed sums"
    and "sha sig \<noteq> sha old"
  shows "r1 = Ok () \<and> r2 = Ok () \<and>
    Option.bind (bh_dist H2) (file_in SUMS) = Some (Inr sums) \<and>
    Option.bind (bh_dist H2) (file_in SUMS_SIG) = Some (Inr sig) \<and>
    verify_combined D sums sig (sk_public S seed) SUMS_SIG (hex_of (sha sig)) =
      Ok (STampered (hex_of (sha old)) (hex_of (sha sig)))"
proof -
  have plain: "\<forall>(rel, c) \<in> set (artefacts l). plain_path rel"
    using assms(5) by (simp add: release_tree_def)
  show ?thesis
    by (rule hash_then_sign [OF assms(5,4,3), of display sha S utf8_err sums_display])
      (use assms(7-11) signed_tree_verdict [OF assms(1-3) plain assms(6)] in auto)
qed

theorem second_release_lists_the_stale_signature_witness:
  "verify_combined demo_ed (hash_artifacts demo_sha (artefacts demo_dist)) (replicate 64 5)
     (replicate 32 5) SUMS_SIG (hex_of (demo_sha (replicate 64 5))) =
   Ok (STampered (hex_of (demo_sha [7])) (hex_of (demo_sha (replicate 64 5))))"
proof -
  let ?H = "demo_host \<lparr> bh_release_pub := None, bh_sign_key := Some (hex_of (replicate 32 5)),
    bh_release_priv := None \<rparr>"
  have l: "length (replicate 32 (5 :: byte)) = 32" by simp
  have k: "bh_sign_key ?H = Some (hex_of (replicate 32 5))" by simp
  have s: "sk_sign demo_sign (replicate 32 5) m = replicate 64 5" for m
    by (simp add: demo_sign_def flip: replicate_add)
  have p: "sk_public demo_sign (replicate 32 5) = replicate 32 5"
    by (simp add: demo_sign_def)
  have n: "demo_sha (replicate 64 5) \<noteq> demo_sha [7]"
    by (simp add: demo_sha_def)
  show ?thesis
    using second_release_lists_the_stale_signature [OF demo_sha_ok demo_release(1) l k
        demo_release_tree(1,3) surjective_pairing surjective_pairing refl s [symmetric] n]
    by (simp add: p)
qed

end
