(* ===== verification/Xtask.thy ===== *)
theory Xtask
  imports Release "HOL-Library.Sublist"
begin

text \<open>
  The build and packaging tasks of \<^verbatim>\<open>xtask/src/main.rs\<close> and its dispatcher, over the tree of the
  workspace and the commands they spawn.

  Paths are relative to the root of the workspace. A spawned program may do anything to the tree
  (\<open>t_spawn\<close>), every file operation may fail with a message and leave any tree behind (\<open>t_io\<close>); what is written to the
  terminal is left out. \<open>ws_log\<close> records the commands that were spawned.
\<close>

section \<open>The tree of the workspace\<close>

fun entry :: "bytes \<Rightarrow> listing \<Rightarrow> node option" where
  "entry name (LEntry n d rest) = (if n = name then Some d else entry name rest)"
| "entry name _ = None"

fun set_entry :: "bytes \<Rightarrow> node \<Rightarrow> listing \<Rightarrow> listing" where
  "set_entry name m (LEntry n d rest) =
     (if n = name then LEntry n m rest else LEntry n d (set_entry name m rest))"
| "set_entry name m LEnd = LEntry name m LEnd"
| "set_entry name m (LFails e) = LFails e"

fun node_at :: "path \<Rightarrow> node \<Rightarrow> node option" where
  "node_at [] n = Some n"
| "node_at (c # p) (Dir l) = (case entry c l of Some n \<Rightarrow> node_at p n | None \<Rightarrow> None)"
| "node_at (c # p) _ = None"

fun set_at :: "path \<Rightarrow> node \<Rightarrow> node \<Rightarrow> node" where
  "set_at [] m n = m"
| "set_at (c # p) m (Dir l) =
     Dir (set_entry c (set_at p m (case entry c l of Some n \<Rightarrow> n | None \<Rightarrow> Dir LEnd)) l)"
| "set_at (c # p) m n = n"

definition exists_at :: "path \<Rightarrow> node \<Rightarrow> bool" where
  "exists_at p tree \<longleftrightarrow> node_at p tree \<noteq> None"

definition make_dirs :: "path \<Rightarrow> node \<Rightarrow> node" where
  "make_dirs p tree = (if exists_at p tree then tree else set_at p (Dir LEnd) tree)"

fun remove_entry :: "bytes \<Rightarrow> listing \<Rightarrow> listing" where
  "remove_entry name (LEntry n d rest) = (if n = name then rest else LEntry n d (remove_entry name rest))"
| "remove_entry name l = l"

definition remove_at :: "path \<Rightarrow> node \<Rightarrow> node" where
  "remove_at p tree =
     (case node_at (butlast p) tree of
        Some (Dir l) \<Rightarrow> set_at (butlast p) (Dir (remove_entry (last p) l)) tree
      | _ \<Rightarrow> tree)"

section \<open>Commands and file operations\<close>

record command =
  c_program :: bytes
  c_args :: "bytes list"
  c_cwd :: "path option"

record proc_out =
  p_success :: bool
  p_status :: bytes
  p_stdout :: bytes
  p_stderr :: bytes

datatype io_op = MkDir path | CopyFile path path | WriteFile path | RemoveDir path

record toolchain =
  t_var :: "bytes \<Rightarrow> bytes option"
  t_macos :: bool
  t_spawn :: "command \<Rightarrow> node \<Rightarrow> (bytes + proc_out) \<times> node"
  t_io :: "io_op \<Rightarrow> node \<Rightarrow> (bytes \<times> node) option"
  t_show :: "command \<Rightarrow> bytes"
  t_display :: "path \<Rightarrow> bytes"

record workspace =
  ws_tree :: node
  ws_log :: "command list"

definition spawn :: "toolchain \<Rightarrow> command \<Rightarrow> workspace \<Rightarrow> (bytes + proc_out) \<times> workspace" where
  "spawn T c W =
     (case t_spawn T c (ws_tree W) of
        (r, tree) \<Rightarrow> (r, W \<lparr> ws_tree := tree, ws_log := ws_log W @ [c] \<rparr>))"

definition dist_path :: path where "dist_path = [ascii ''dist'']"

definition cargo :: "toolchain \<Rightarrow> string list \<Rightarrow> command" where
  "cargo T args =
     \<lparr> c_program = (case t_var T (ascii ''CARGO'') of Some p \<Rightarrow> p | None \<Rightarrow> ascii ''cargo''),
       c_args = map ascii args, c_cwd = None \<rparr>"

definition run :: "toolchain \<Rightarrow> command \<Rightarrow> workspace \<Rightarrow> unit task \<times> workspace" where
  "run T c W =
     (case spawn T c W of (r, W) \<Rightarrow>
       (case r of
          Inl e \<Rightarrow> Err (ascii ''failed to spawn: '' @ t_show T c @ ascii '': '' @ e)
        | Inr out \<Rightarrow>
            if \<not> p_success out
            then Err (ascii ''command failed ('' @ p_status out @ ascii ''): '' @ t_show T c)
            else Ok (), W))"

text \<open>The other shape: \<^verbatim>\<open>status().map_err(..)?\<close> and a message of its own for a failure.\<close>

definition run_or ::
  "toolchain \<Rightarrow> command \<Rightarrow> bytes \<Rightarrow> (bytes \<Rightarrow> bytes) \<Rightarrow> workspace \<Rightarrow> unit task \<times> workspace" where
  "run_or T c spawn_msg fail_msg W =
     (case spawn T c W of (r, W) \<Rightarrow>
       (case r of
          Inl e \<Rightarrow> Err (spawn_msg @ e)
        | Inr out \<Rightarrow> if \<not> p_success out then Err (fail_msg (p_status out)) else Ok (), W))"

text \<open>A file operation: the message of its failure and the tree it left, or its effect.\<close>

definition io ::
  "toolchain \<Rightarrow> io_op \<Rightarrow> bytes \<Rightarrow> (node \<Rightarrow> node) \<Rightarrow> workspace \<Rightarrow> unit task \<times> workspace" where
  "io T op msg eff W =
     (case t_io T op (ws_tree W) of
        Some (e, tree) \<Rightarrow> (Err (msg @ e), W \<lparr> ws_tree := tree \<rparr>)
      | None \<Rightarrow> (Ok (), W \<lparr> ws_tree := eff (ws_tree W) \<rparr>))"

definition mkdir :: "toolchain \<Rightarrow> path \<Rightarrow> workspace \<Rightarrow> unit task \<times> workspace" where
  "mkdir T p = io T (MkDir p) (ascii ''mkdir '' @ t_display T p @ ascii '': '') (make_dirs p)"

definition copy_node :: "path \<Rightarrow> path \<Rightarrow> node \<Rightarrow> node" where
  "copy_node src dst tree =
     (case node_at src tree of Some n \<Rightarrow> set_at dst n tree | None \<Rightarrow> tree)"

definition copy_into :: "toolchain \<Rightarrow> path \<Rightarrow> path \<Rightarrow> workspace \<Rightarrow> path task \<times> workspace" where
  "copy_into T src dst_dir W =
     st_then (mkdir T dst_dir W) (\<lambda>_ W.
     let dst = dst_dir @ [last src] in
     st_then (io T (CopyFile src dst)
                (ascii ''copy '' @ t_display T src @ ascii '' -> '' @ t_display T dst @ ascii '': '')
                (copy_node src dst) W) (\<lambda>_ W. (Ok dst, W)))"

definition target_dir :: "string \<Rightarrow> string \<Rightarrow> path" where
  "target_dir target profile = [ascii ''target'', ascii target, ascii profile]"

text \<open>\<^verbatim>\<open>root.join("a/b/c")\<close>: the components.\<close>

definition ws_path :: "string list \<Rightarrow> path" where
  "ws_path = map ascii"

definition with_args :: "command \<Rightarrow> bytes list \<Rightarrow> command" where
  "with_args c as = c \<lparr> c_args := c_args c @ as \<rparr>"

definition in_dir :: "path \<Rightarrow> command \<Rightarrow> command" where
  "in_dir d c = c \<lparr> c_cwd := Some d \<rparr>"

definition program :: "string \<Rightarrow> string list \<Rightarrow> command" where
  "program p args = \<lparr> c_program = ascii p, c_args = map ascii args, c_cwd = None \<rparr>"

section \<open>Bindings\<close>

fun first_existing :: "node \<Rightarrow> path list \<Rightarrow> path option" where
  "first_existing tree [] = None"
| "first_existing tree (p # ps) = (if exists_at p tree then Some p else first_existing tree ps)"

definition cdylib_path :: "bytes \<Rightarrow> workspace \<Rightarrow> path" where
  "cdylib_path crate_name W =
     (let lib_name = map (\<lambda>b. if b = 0x2D then 0x5F else b) crate_name;
          debug = ws_path [''target'', ''debug''];
          with_ext = (\<lambda>ext. [debug @ [ascii ''lib'' @ lib_name @ ascii ''.'' @ ascii ext],
                             debug @ [lib_name @ ascii ''.'' @ ascii ext]])
      in case first_existing (ws_tree W) (concat (map with_ext [''so'', ''dylib'', ''dll''])) of
           Some p \<Rightarrow> p
         | None \<Rightarrow> debug @ [ascii ''lib'' @ lib_name @ ascii ''.so''])"

definition swift_out :: path where
  "swift_out = ws_path [''bindings'', ''swift'', ''Sources'', ''MCPixSDK'']"
definition kotlin_out :: path where
  "kotlin_out = ws_path [''bindings'', ''kotlin'', ''src'', ''main'', ''kotlin'']"
definition c_out :: path where "c_out = ws_path [''bindings'', ''c'', ''include'']"

definition bindgen :: "toolchain \<Rightarrow> path \<Rightarrow> string \<Rightarrow> path \<Rightarrow> command" where
  "bindgen T uniffi_lib lang out =
     with_args (cargo T [''run'', ''-p'', ''uniffi-bindgen'', ''--'', ''generate'', ''--library''])
       [t_display T uniffi_lib, ascii ''--language'', ascii lang, ascii ''--out-dir'', t_display T out]"

definition gen_bindings :: "toolchain \<Rightarrow> workspace \<Rightarrow> unit task \<times> workspace" where
  "gen_bindings T W =
     st_then (mkdir T swift_out W) (\<lambda>_ W.
     st_then (mkdir T kotlin_out W) (\<lambda>_ W.
     st_then (mkdir T c_out W) (\<lambda>_ W.
     st_then (run T (cargo T [''build'', ''-p'', ''mcpix-uniffi'', ''-p'', ''mcpix-ffi'']) W) (\<lambda>_ W.
     let uniffi_lib = cdylib_path (ascii ''mcpix_uniffi'') W in
     if \<not> exists_at uniffi_lib (ws_tree W)
     then (Err (ascii ''uniffi cdylib not found: '' @ t_display T uniffi_lib), W)
     else
       st_then (run T (bindgen T uniffi_lib ''swift'' swift_out) W) (\<lambda>_ W.
       st_then (run T (bindgen T uniffi_lib ''kotlin'' kotlin_out) W) (\<lambda>_ W.
       run T (cargo T [''build'', ''-p'', ''mcpix-ffi'']) W))))))"

definition check_bindings :: "toolchain \<Rightarrow> workspace \<Rightarrow> unit task \<times> workspace" where
  "check_bindings T W =
     st_then (gen_bindings T W) (\<lambda>_ W.
     run_or T (in_dir [] (program ''git'' [''diff'', ''--quiet'', ''--exit-code'', ''--'', ''bindings/'']))
       [] (\<lambda>_. ascii ''bindings drift detected '' @ em_dash @ ascii '' run `cargo xtask gen-bindings` and commit'') W)"

section \<open>Builds\<close>

definition build_target ::
  "toolchain \<Rightarrow> string \<Rightarrow> string list \<Rightarrow> workspace \<Rightarrow> unit task \<times> workspace" where
  "build_target T target packages =
     run T (cargo T ([''build'', ''--release'', ''--target'', target]
       @ concat (map (\<lambda>p. [''-p'', p]) packages)))"

definition c_header :: path where
  "c_header = ws_path [''bindings'', ''c'', ''include'', ''mcpix.h'']"

text \<open>The three copies into a directory of \<^verbatim>\<open>dist\<close> that the Linux and the Windows build share.\<close>

fun copy_all :: "toolchain \<Rightarrow> path list \<Rightarrow> path \<Rightarrow> workspace \<Rightarrow> unit task \<times> workspace" where
  "copy_all T [] out W = (Ok (), W)"
| "copy_all T (src # srcs) out W =
     st_then (copy_into T src out W) (\<lambda>_ W. copy_all T srcs out W)"

definition build_linux :: "toolchain \<Rightarrow> workspace \<Rightarrow> unit task \<times> workspace" where
  "build_linux T W =
     (let target = ''x86_64-unknown-linux-gnu'' in
      st_then (build_target T target [''mcpix-uniffi'', ''mcpix-ffi''] W) (\<lambda>_ W.
      let out = dist_path @ [ascii ''linux-x86_64'']; src = target_dir target ''release'' in
      st_then (mkdir T out W) (\<lambda>_ W.
      copy_all T [src @ [ascii ''libmcpix_uniffi.so''], src @ [ascii ''libmcpix_ffi.so''], c_header] out W)))"

definition build_windows :: "toolchain \<Rightarrow> workspace \<Rightarrow> unit task \<times> workspace" where
  "build_windows T W =
     (let target = ''x86_64-pc-windows-gnu'' in
      st_then (build_target T target [''mcpix-uniffi'', ''mcpix-ffi''] W) (\<lambda>_ W.
      let out = dist_path @ [ascii ''windows-x86_64'']; src = target_dir target ''release'' in
      st_then (mkdir T out W) (\<lambda>_ W.
      copy_all T [src @ [ascii ''mcpix_uniffi.dll''], src @ [ascii ''mcpix_ffi.dll''], c_header] out W)))"

definition ANDROID_ABIS :: "(string \<times> string) list" where
  "ANDROID_ABIS =
     [(''arm64-v8a'', ''aarch64-linux-android''), (''armeabi-v7a'', ''armv7-linux-androideabi''),
      (''x86_64'', ''x86_64-linux-android''), (''x86'', ''i686-linux-android'')]"

definition android_libs :: path where
  "android_libs = dist_path @ ws_path [''android'', ''jniLibs'']"

definition build_android :: "toolchain \<Rightarrow> workspace \<Rightarrow> unit task \<times> workspace" where
  "build_android T W =
     (if t_var T (ascii ''ANDROID_NDK_HOME'') = None
      then (Err (ascii ''ANDROID_NDK_HOME unset '' @ em_dash
              @ ascii '' install Android NDK r25+ and export the path''), W)
      else
        let cmd = cargo T (''ndk'' # concat (map (\<lambda>(abi, _). [''-t'', abi]) ANDROID_ABIS) @ [''-o'']);
            cmd = with_args cmd [t_display T android_libs];
            cmd = with_args cmd (map ascii [''--'', ''build'', ''--release'', ''-p'', ''mcpix-uniffi''])
        in st_then (run T cmd W) (\<lambda>_ W.
           st_then (copy_into T c_header (dist_path @ ws_path [''android'', ''include'']) W) (\<lambda>_ W.
           (Ok (), W))))"

definition IOS_TARGETS :: "(string \<times> string) list" where
  "IOS_TARGETS =
     [(''device'', ''aarch64-apple-ios''), (''simulator-arm64'', ''aarch64-apple-ios-sim''),
      (''simulator-x86_64'', ''x86_64-apple-ios'')]"

fun build_targets ::
  "toolchain \<Rightarrow> (string \<times> string) list \<Rightarrow> workspace \<Rightarrow> unit task \<times> workspace" where
  "build_targets T [] W = (Ok (), W)"
| "build_targets T ((_, target) # ts) W =
     st_then (build_target T target [''mcpix-uniffi''] W) (\<lambda>_ W. build_targets T ts W)"

definition build_ios :: "toolchain \<Rightarrow> workspace \<Rightarrow> unit task \<times> workspace" where
  "build_ios T W =
     (if \<not> t_macos T
      then (Err (ascii ''iOS build requires macOS host (lipo + xcodebuild)''), W)
      else build_targets T IOS_TARGETS W)"

section \<open>Packages\<close>

text \<open>\<^verbatim>\<open>if p.exists() { fs::remove_dir_all(p).ok(); }\<close>\<close>

definition clear_dir :: "toolchain \<Rightarrow> path \<Rightarrow> workspace \<Rightarrow> workspace" where
  "clear_dir T p W =
     (if exists_at p (ws_tree W) then snd (io T (RemoveDir p) [] (remove_at p) W) else W)"

definition package_xcframework :: "toolchain \<Rightarrow> workspace \<Rightarrow> unit task \<times> workspace" where
  "package_xcframework T W =
     (if \<not> t_macos T
      then (Err (ascii ''XCFramework packaging requires macOS (xcodebuild)''), W)
      else
        let out = dist_path @ [ascii ''ios''] in
        st_then (mkdir T out W) (\<lambda>_ W.
        let lib = (\<lambda>target. target_dir target ''release'' @ [ascii ''libmcpix_uniffi.a'']);
            device_a = lib ''aarch64-apple-ios'';
            sim_arm_a = lib ''aarch64-apple-ios-sim'';
            sim_x86_a = lib ''x86_64-apple-ios'';
            sim_combined = out @ [ascii ''libmcpix_uniffi-sim.a'']
        in
        st_then (run T (with_args (program ''lipo'' [''-create''])
                   [t_display T sim_arm_a, t_display T sim_x86_a, ascii ''-output'', t_display T sim_combined]) W) (\<lambda>_ W.
        let headers = out @ [ascii ''Headers'']; W = clear_dir T headers W in
        st_then (mkdir T headers W) (\<lambda>_ W.
        st_then (copy_into T (swift_out @ [ascii ''mcpix_uniffiFFI.h'']) headers W) (\<lambda>_ W.
        let src = swift_out @ [ascii ''mcpix_uniffiFFI.modulemap''];
            dst = headers @ [ascii ''module.modulemap'']
        in
        st_then (io T (CopyFile src dst) (ascii ''copy modulemap: '') (copy_node src dst) W) (\<lambda>_ W.
        let xcfwk = out @ [ascii ''MCPixSDKFFI.xcframework'']; W = clear_dir T xcfwk W in
        run T (with_args (program ''xcodebuild'' [''-create-xcframework''])
          [ascii ''-library'', t_display T device_a, ascii ''-headers'', t_display T headers,
           ascii ''-library'', t_display T sim_combined, ascii ''-headers'', t_display T headers,
           ascii ''-output'', t_display T xcfwk]) W))))))"

fun listing_names :: "listing \<Rightarrow> bytes list" where
  "listing_names (LEntry n d rest) = n # listing_names rest"
| "listing_names _ = []"

text \<open>\<^verbatim>\<open>p.extension() == Some("aar")\<close>.\<close>

definition is_aar :: "bytes \<Rightarrow> bool" where
  "is_aar name \<longleftrightarrow> ends_with name (ascii ''.aar'') \<and> length name > 4"

definition package_aar :: "toolchain \<Rightarrow> (path \<Rightarrow> bytes) \<Rightarrow> workspace \<Rightarrow> unit task \<times> workspace" where
  "package_aar T read_dir_err W =
     (let aar_proj = ws_path [''bindings'', ''kotlin'', ''aar''] in
      if \<not> exists_at android_libs (ws_tree W)
      then (Err (ascii ''expected jniLibs at '' @ t_display T android_libs @ ascii '' '' @ em_dash
              @ ascii '' run `cargo xtask build-android` first''), W)
      else
        st_then (run_or T (in_dir aar_proj (with_args (program ''gradle'' [''assembleRelease'', ''--no-daemon''])
                     [ascii ''-Pjnilibs.dir='' @ t_display T android_libs]))
                   (ascii ''gradle: '') (\<lambda>status. ascii ''gradle assembleRelease failed: '' @ status) W) (\<lambda>_ W.
        let outputs = aar_proj @ ws_path [''build'', ''outputs'', ''aar''] in
        case node_at outputs (ws_tree W) of
          Some (Dir l) \<Rightarrow>
            (case find is_aar (listing_names l) of
               None \<Rightarrow> (Err (ascii ''no .aar produced in '' @ t_display T outputs), W)
             | Some name \<Rightarrow>
                 st_then (copy_into T (outputs @ [name]) (dist_path @ [ascii ''android'']) W) (\<lambda>_ W.
                 (Ok (), W)))
        | _ \<Rightarrow> (Err (ascii ''read_dir '' @ t_display T outputs @ ascii '': '' @ read_dir_err outputs), W)))"

definition package_nuget :: "toolchain \<Rightarrow> workspace \<Rightarrow> unit task \<times> workspace" where
  "package_nuget T W =
     (let csproj = ws_path [''bindings'', ''dotnet'', ''MCPixSDK.csproj''] in
      if \<not> exists_at csproj (ws_tree W) then (Err (ascii ''missing '' @ t_display T csproj), W)
      else run T (with_args (program ''dotnet'' [''pack''])
             [t_display T csproj, ascii ''-c'', ascii ''Release'', ascii ''-o'',
              t_display T (dist_path @ [ascii ''nuget''])]) W)"

definition build_all :: "toolchain \<Rightarrow> workspace \<Rightarrow> unit task \<times> workspace" where
  "build_all T W =
     st_then (build_linux T W) (\<lambda>_ W.
     let W = snd (build_windows T W);
         W = snd (build_android T W);
         W = (if t_macos T then snd (package_xcframework T (snd (build_ios T W))) else W)
     in (Ok (), W))"

section \<open>The hermetic build, the corpus and the browser demonstration\<close>

definition vendor_command :: "toolchain \<Rightarrow> command" where
  "vendor_command T = in_dir [] (cargo T [''vendor'', ''--locked'', ''vendor''])"

definition hermetic_build :: "toolchain \<Rightarrow> path \<Rightarrow> string list \<Rightarrow> command" where
  "hermetic_build T config targets =
     in_dir [] (with_args (cargo T ([''build'', ''--workspace''] @ targets
         @ [''--frozen'', ''--locked'', ''--offline'', ''--config'']))
       [ascii ''include=['' @ [0x22] @ t_display T config @ [0x22] @ ascii '']''])"

definition hermetic_config :: path where
  "hermetic_config = ws_path [''.cargo'', ''config.hermetic.toml'']"

definition verify_hermetic :: "toolchain \<Rightarrow> (bytes \<Rightarrow> bytes) \<Rightarrow> workspace \<Rightarrow> unit task \<times> workspace" where
  "verify_hermetic T lossy W =
     st_then (io T (MkDir (ws_path [''.cargo''])) (ascii ''mkdir .cargo: '')
                (make_dirs (ws_path [''.cargo''])) W) (\<lambda>_ W.
     case spawn T (vendor_command T) W of (r, W) \<Rightarrow>
       (case r of
          Inl e \<Rightarrow> (Err (ascii ''cargo vendor failed to spawn: '' @ e), W)
        | Inr out \<Rightarrow>
            if \<not> p_success out
            then (Err (ascii ''cargo vendor failed: '' @ lossy (p_stderr out)), W)
            else
              st_then (io T (WriteFile hermetic_config)
                         (ascii ''write '' @ t_display T hermetic_config @ ascii '': '')
                         (set_at hermetic_config (File (Inr (p_stdout out)))) W) (\<lambda>_ W.
              st_then (run_or T (hermetic_build T hermetic_config [])
                         (ascii ''cargo build hermetic failed to spawn: '')
                         (\<lambda>_. ascii ''cargo build hermetic falhou '' @ em_dash
                            @ ascii '' alguma dep tentou rede ou est'' @ [0xC3, 0xA1]
                            @ ascii '' faltando do vendor'') W) (\<lambda>_ W.
              run_or T (hermetic_build T hermetic_config [''--all-targets''])
                (ascii ''cargo build --all-targets hermetic failed: '')
                (\<lambda>_. ascii ''cargo build --all-targets hermetic falhou'') W))))"

definition fuzz_replay :: "toolchain \<Rightarrow> workspace \<Rightarrow> unit task \<times> workspace" where
  "fuzz_replay T =
     run_or T (in_dir [] (cargo T [''test'', ''-p'', ''mcpix-core'', ''--test'', ''corpus_replay'', ''--'', ''--nocapture'']))
       (ascii ''cargo test: '')
       (\<lambda>_. ascii ''fuzz corpus replay failed '' @ em_dash @ ascii '' see output above'')"

definition wasm_input :: path where
  "wasm_input = ws_path [''target'', ''wasm32-unknown-unknown'', ''release'', ''mcpix_wasm.wasm'']"

definition build_wasm :: "toolchain \<Rightarrow> workspace \<Rightarrow> unit task \<times> workspace" where
  "build_wasm T W =
     st_then (run_or T (in_dir [] (cargo T [''build'', ''--release'', ''--target'',
                 ''wasm32-unknown-unknown'', ''-p'', ''mcpix-wasm'']))
                (ascii ''cargo build wasm32: '') (\<lambda>_. ascii ''cargo build wasm32 failed'') W) (\<lambda>_ W.
     if \<not> exists_at wasm_input (ws_tree W)
     then (Err (ascii ''wasm artifact not found at '' @ t_display T wasm_input), W)
     else
       let out_dir = ws_path [''examples'', ''web-demo'', ''pkg''] in
       st_then (io T (MkDir out_dir) (ascii ''mkdir pkg/: '') (make_dirs out_dir) W) (\<lambda>_ W.
       run_or T (in_dir [] (with_args (program ''wasm-bindgen'' [''--target'', ''web'', ''--out-dir''])
                  [t_display T out_dir, t_display T wasm_input]))
         (ascii ''spawn wasm-bindgen (instale com `cargo install wasm-bindgen-cli --version 0.2.121`): '')
         (\<lambda>_. ascii ''wasm-bindgen failed'') W))"

section \<open>The dispatcher\<close>

record release_lib =
  rl_sign :: sign_lib
  rl_sha :: "bytes \<Rightarrow> bytes"
  rl_utf8_err :: "bytes \<Rightarrow> bytes"
  rl_lossy :: "bytes \<Rightarrow> bytes"
  rl_read_dir_err :: "path \<Rightarrow> bytes"
  rl_rng :: "bytes option"

definition release_pub :: path where
  "release_pub = ws_path [''crates'', ''mcpix-core'', ''trusted_keys'', ''release.pub'']"

definition release_priv :: path where
  "release_priv = ws_path [''target'', ''release-key.priv'']"

text \<open>
  What the release tasks see of the workspace, and what they leave in it. The directories that
  \<^verbatim>\<open>gen_release_key\<close> creates are there: the build of xtask itself makes the one, the
  repository holds the other.
\<close>

definition key_file :: "path \<Rightarrow> node \<Rightarrow> bytes option" where
  "key_file p tree =
     (case node_at p tree of None \<Rightarrow> None | Some (File (Inr c)) \<Rightarrow> Some c | Some _ \<Rightarrow> Some [])"

definition host_of :: "toolchain \<Rightarrow> workspace \<Rightarrow> build_host" where
  "host_of T W =
     \<lparr> bh_dist = node_at dist_path (ws_tree W),
       bh_sign_key = t_var T (ascii ''MCPIX_SIGN_PRIVKEY_HEX''),
       bh_release_pub = key_file release_pub (ws_tree W),
       bh_release_priv = key_file release_priv (ws_tree W) \<rparr>"

definition put_key :: "path \<Rightarrow> bytes option \<Rightarrow> bytes option \<Rightarrow> node \<Rightarrow> node" where
  "put_key p old new tree =
     (if new = old then tree
      else case new of Some c \<Rightarrow> set_at p (File (Inr c)) tree | None \<Rightarrow> tree)"

definition with_host ::
  "toolchain \<Rightarrow> (build_host \<Rightarrow> unit task \<times> build_host) \<Rightarrow> workspace \<Rightarrow> unit task \<times> workspace" where
  "with_host T k W =
     (let H = host_of T W in
      case k H of (r, H') \<Rightarrow>
        let tree = ws_tree W;
            tree = (case bh_dist H' of Some d \<Rightarrow> set_at dist_path d tree | None \<Rightarrow> tree);
            tree = put_key release_pub (bh_release_pub H) (bh_release_pub H') tree;
            tree = put_key release_priv (bh_release_priv H) (bh_release_priv H') tree
        in (r, W \<lparr> ws_tree := tree \<rparr>))"

definition mkdir_err :: "toolchain \<Rightarrow> path \<Rightarrow> workspace \<Rightarrow> bytes option" where
  "mkdir_err T p W =
     map_option (\<lambda>(e, _). ascii ''mkdir '' @ t_display T p @ ascii '': '' @ e) (t_io T (MkDir p) (ws_tree W))"

definition write_err :: "toolchain \<Rightarrow> path \<Rightarrow> workspace \<Rightarrow> write_io" where
  "write_err T p W =
     map_option (\<lambda>(e, tree).
       (e, case node_at p tree of Some (File (Inr c)) \<Rightarrow> Some c | _ \<Rightarrow> None))
       (t_io T (WriteFile p) (ws_tree W))"

lemma write_err_None_iff [simp]: "write_err T p W = None \<longleftrightarrow> t_io T (WriteFile p) (ws_tree W) = None"
  by (simp add: write_err_def)

definition xtask_hash :: "release_lib \<Rightarrow> toolchain \<Rightarrow> workspace \<Rightarrow> unit task \<times> workspace" where
  "xtask_hash R T W =
     with_host T (hash_task (t_display T) (rl_sha R) (write_err T (dist_path @ [SUMS]) W)) W"

definition xtask_gen_key :: "release_lib \<Rightarrow> toolchain \<Rightarrow> workspace \<Rightarrow> unit task \<times> workspace" where
  "xtask_gen_key R T W =
     with_host T (gen_release_key (rl_sign R) (t_display T release_pub) (rl_rng R)
       (mkdir_err T (butlast release_pub) W, mkdir_err T (butlast release_priv) W,
        write_err T release_pub W, write_err T release_priv W)) W"

definition xtask_sign :: "release_lib \<Rightarrow> toolchain \<Rightarrow> workspace \<Rightarrow> unit task \<times> workspace" where
  "xtask_sign R T W =
     with_host T (sign_artifacts (rl_sign R) (rl_utf8_err R) (t_display T (dist_path @ [SUMS]))
       (write_err T (dist_path @ [SUMS_SIG]) W)) W"

datatype exit_code = SUCCESS | FAILURE

fun exit_of :: "unit task \<times> workspace \<Rightarrow> exit_code task \<times> workspace" where
  "exit_of (Ok u, W) = (Ok SUCCESS, W)"
| "exit_of (Err e, W) = (Ok FAILURE, W)"
| "exit_of (Panic, W) = (Panic, W)"

definition tasks :: "release_lib \<Rightarrow> toolchain \<Rightarrow> (bytes \<times> (workspace \<Rightarrow> unit task \<times> workspace)) list" where
  "tasks R T = map (\<lambda>(name, task). (ascii name, task))
     [(''gen-bindings'', gen_bindings T), (''check-bindings'', check_bindings T),
      (''build-linux'', build_linux T), (''build-windows'', build_windows T),
      (''build-android'', build_android T), (''build-ios'', build_ios T),
      (''package-aar'', package_aar T (rl_read_dir_err R)),
      (''package-xcframework'', package_xcframework T), (''package-nuget'', package_nuget T),
      (''build-all'', build_all T), (''hash-artifacts'', xtask_hash R T),
      (''gen-release-key'', xtask_gen_key R T), (''sign-artifacts'', xtask_sign R T),
      (''build-wasm'', build_wasm T), (''fuzz-replay'', fuzz_replay T),
      (''verify-hermetic'', verify_hermetic T (rl_lossy R))]"

definition xtask_main ::
  "release_lib \<Rightarrow> toolchain \<Rightarrow> bytes option \<Rightarrow> workspace \<Rightarrow> exit_code task \<times> workspace" where
  "xtask_main R T cmd W =
     (case cmd of
        None \<Rightarrow> (Ok SUCCESS, W)
      | Some name \<Rightarrow>
          (case map_of (tasks R T) name of
             Some task \<Rightarrow> exit_of (task W)
           | None \<Rightarrow>
              if name = ascii ''--help'' \<or> name = ascii ''-h'' then (Ok SUCCESS, W)
              else exit_of (Err (ascii ''unknown command: '' @ name), W)))"

section \<open>The tree after an operation\<close>

fun closed_listing :: "listing \<Rightarrow> bool" where
  "closed_listing (LEntry n d rest) = closed_listing rest"
| "closed_listing LEnd = True"
| "closed_listing (LFails e) = False"

fun reach :: "path \<Rightarrow> node \<Rightarrow> bool" where
  "reach [] n = True"
| "reach (c # p) (Dir l) \<longleftrightarrow>
     closed_listing l \<and> reach p (case entry c l of Some n \<Rightarrow> n | None \<Rightarrow> Dir LEnd)"
| "reach (c # p) _ = False"

definition apart :: "path \<Rightarrow> path \<Rightarrow> bool" where
  "apart p q \<longleftrightarrow> \<not> prefix p q \<and> \<not> prefix q p"

lemma entry_set_entry:
  "entry c (set_entry c m l) = (if entry c l = None \<and> \<not> closed_listing l then None else Some m)"
  "c \<noteq> d \<Longrightarrow> entry d (set_entry c m l) = entry d l"
  by (induction c m l rule: set_entry.induct) auto

lemma closed_set_entry [simp]: "closed_listing (set_entry c m l) = closed_listing l"
  by (induction c m l rule: set_entry.induct) auto

lemma node_at_set_at: "reach p n \<Longrightarrow> node_at p (set_at p m n) = Some m"
  by (induction p m n rule: set_at.induct) (auto simp: entry_set_entry split: option.splits)

lemma node_at_fresh: "p \<noteq> [] \<Longrightarrow> node_at p (Dir LEnd) = None"
  by (cases p) auto

lemma node_at_set_at_other:
  "apart p q \<Longrightarrow> node_at q (set_at p m n) = node_at q n"
proof (induction p m n arbitrary: q rule: set_at.induct)
  case (2 c p m l)
  then obtain d q' where q: "q = d # q'" by (cases q) (auto simp: apart_def)
  show ?case
  proof (cases "c = d")
    case True
    then have a: "apart p q'" "q' \<noteq> []" using 2(2) by (auto simp: apart_def q)
    then show ?thesis
      using True 2(1) [OF a(1)] node_at_fresh [OF a(2)]
      by (auto simp: q entry_set_entry split: option.splits)
  qed (simp add: q entry_set_entry)
qed (auto simp: apart_def)

lemma reach_fresh [simp]: "reach p (Dir LEnd)"
  by (induction p) auto

lemma reach_append: "reach (p @ q) n \<Longrightarrow> reach p n"
  by (induction p n rule: reach.induct) (auto split: option.splits)

section \<open>What the operating system promises\<close>

text \<open>
  A file operation that reports no error found what it needs: the source of a copy is a file that
  can be read, and every directory on the way to the target is one or can be made.
\<close>

definition io_ok :: "toolchain \<Rightarrow> bool" where
  "io_ok T \<longleftrightarrow>
     (\<forall>p tree. t_io T (MkDir p) tree = None \<longrightarrow> reach p tree) \<and>
     (\<forall>p tree. t_io T (WriteFile p) tree = None \<longrightarrow> reach p tree) \<and>
     (\<forall>src dst tree. t_io T (CopyFile src dst) tree = None \<longrightarrow>
        reach dst tree \<and> (\<exists>c. node_at src tree = Some (File (Inr c))))"

lemma io_ok_copy:
  "io_ok T \<Longrightarrow> t_io T (CopyFile src dst) tree = None \<Longrightarrow>
    reach dst tree \<and> (\<exists>c. node_at src tree = Some (File (Inr c)))"
  by (simp add: io_ok_def)

lemma io_Ok_iff:
  "io T op msg eff W = (Ok u, W') \<longleftrightarrow>
     t_io T op (ws_tree W) = None \<and> W' = W \<lparr> ws_tree := eff (ws_tree W) \<rparr>"
  by (auto simp: io_def split: option.splits)

lemma mkdir_Ok:
  assumes "mkdir T p W = (Ok u, W')" and "io_ok T"
  shows "exists_at p (ws_tree W')" "ws_log W' = ws_log W"
    "apart p q \<Longrightarrow> node_at q (ws_tree W') = node_at q (ws_tree W)"
    "exists_at p (ws_tree W) \<Longrightarrow> W' = W"
proof -
  from assms have t: "reach p (ws_tree W)" and W': "W' = W \<lparr> ws_tree := make_dirs p (ws_tree W) \<rparr>"
    by (auto simp: mkdir_def io_Ok_iff io_ok_def)
  show "exists_at p (ws_tree W')" "ws_log W' = ws_log W"
    "apart p q \<Longrightarrow> node_at q (ws_tree W') = node_at q (ws_tree W)"
    "exists_at p (ws_tree W) \<Longrightarrow> W' = W"
    using node_at_set_at [OF t]
    by (auto simp: W' make_dirs_def exists_at_def node_at_set_at_other)
qed

lemma copy_into_Ok:
  assumes "copy_into T src d W = (Ok x, W')" and "io_ok T" and "exists_at d (ws_tree W)"
  obtains c where "node_at src (ws_tree W) = Some (File (Inr c))"
    "W' = W \<lparr> ws_tree := set_at (d @ [last src]) (File (Inr c)) (ws_tree W) \<rparr>"
    "reach (d @ [last src]) (ws_tree W)"
proof -
  from assms(1) obtain u W1 where m: "mkdir T d W = (Ok u, W1)"
    and c: "t_io T (CopyFile src (d @ [last src])) (ws_tree W1) = None"
      "W' = W1 \<lparr> ws_tree := copy_node src (d @ [last src]) (ws_tree W1) \<rparr>"
    by (auto simp: copy_into_def outcome_simps Let_def io_Ok_iff)
  have "W1 = W" by (rule mkdir_Ok(4) [OF m assms(2,3)])
  with c(1) assms(2) obtain bs where bs: "node_at src (ws_tree W) = Some (File (Inr bs))"
    and "reach (d @ [last src]) (ws_tree W)"
    using \<open>W1 = W\<close> io_ok_copy by blast
  with c(2) \<open>W1 = W\<close> show thesis by (intro that) (simp_all add: copy_node_def)
qed

lemma node_at_append:
  "node_at (p @ q) n = (case node_at p n of None \<Rightarrow> None | Some k \<Rightarrow> node_at q k)"
  by (induction p n rule: node_at.induct) (auto split: option.splits)

lemma exists_below:
  "reach (p @ q) n \<Longrightarrow> exists_at p (set_at (p @ q) m n)"
  using node_at_set_at [of "p @ q" n m]
  by (auto simp: exists_at_def node_at_append split: option.splits)

lemma apart_simps:
  "apart d q \<Longrightarrow> apart (d @ p) q" "apart d q \<Longrightarrow> apart q d"
  "apart (d @ [f]) (d @ [g]) \<longleftrightarrow> f \<noteq> g"
  by (auto simp: apart_def prefix_def append_eq_append_conv2)

lemma copy_all_Ok:
  assumes "copy_all T srcs d W = (Ok u, W')" and "io_ok T" and "exists_at d (ws_tree W)"
    and "distinct (map last srcs)" and "\<forall>s \<in> set srcs. apart d s"
  shows "(\<forall>s \<in> set srcs. \<exists>c. node_at s (ws_tree W) = Some (File (Inr c)) \<and>
      node_at (d @ [last s]) (ws_tree W') = Some (File (Inr c))) \<and> ws_log W' = ws_log W \<and>
    (\<forall>q. apart d q \<or> (\<exists>g. q = d @ [g] \<and> g \<notin> last ` set srcs) \<longrightarrow>
      node_at q (ws_tree W') = node_at q (ws_tree W))"
  using assms(1,3-5)
proof (induction srcs arbitrary: W)
  case (Cons s srcs)
  obtain x W1 where c: "copy_into T s d W = (Ok x, W1)" and r: "copy_all T srcs d W1 = (Ok u, W')"
    using Cons.prems(1) by (auto simp: outcome_simps)
  from c assms(2) Cons.prems(2) obtain bs where bs: "node_at s (ws_tree W) = Some (File (Inr bs))"
    and W1: "W1 = W \<lparr> ws_tree := set_at (d @ [last s]) (File (Inr bs)) (ws_tree W) \<rparr>"
    and t: "reach (d @ [last s]) (ws_tree W)"
    by (rule copy_into_Ok)
  have keep: "node_at q (ws_tree W1) = node_at q (ws_tree W)"
    if "apart d q \<or> (\<exists>g. q = d @ [g] \<and> g \<noteq> last s)" for q
    using that by (auto simp: W1 node_at_set_at_other apart_simps)
  have new: "node_at (d @ [last s]) (ws_tree W1) = Some (File (Inr bs))"
    by (simp add: W1 node_at_set_at t)
  have ex: "exists_at d (ws_tree W1)" by (simp add: W1 exists_below t)
  have "(\<forall>s \<in> set srcs. \<exists>c. node_at s (ws_tree W1) = Some (File (Inr c)) \<and>
      node_at (d @ [last s]) (ws_tree W') = Some (File (Inr c))) \<and> ws_log W' = ws_log W1 \<and>
    (\<forall>q. apart d q \<or> (\<exists>g. q = d @ [g] \<and> g \<notin> last ` set srcs) \<longrightarrow>
      node_at q (ws_tree W') = node_at q (ws_tree W1))"
    by (rule Cons.IH [OF r ex]) (use Cons.prems(3,4) in auto)
  then show ?case
    using keep new bs Cons.prems(3,4) by (auto simp: W1)
qed simp

section \<open>What the Linux build leaves in dist\<close>

lemma run_Ok_iff:
  "run T c W = (Ok u, W') \<longleftrightarrow>
     (\<exists>out tree. t_spawn T c (ws_tree W) = (Inr out, tree) \<and> p_success out \<and>
       W' = W \<lparr> ws_tree := tree, ws_log := ws_log W @ [c] \<rparr>)"
  by (auto simp: run_def spawn_def split: prod.splits sum.splits)

definition linux_out :: path where "linux_out = dist_path @ [ascii ''linux-x86_64'']"

definition linux_target :: path where
  "linux_target = target_dir ''x86_64-unknown-linux-gnu'' ''release''"

definition linux_command :: "toolchain \<Rightarrow> command" where
  "linux_command T = cargo T [''build'', ''--release'', ''--target'', ''x86_64-unknown-linux-gnu'',
     ''-p'', ''mcpix-uniffi'', ''-p'', ''mcpix-ffi'']"

definition linux_libs :: "bytes set" where
  "linux_libs = {ascii ''libmcpix_uniffi.so'', ascii ''libmcpix_ffi.so''}"

lemma apart_heads: "c \<noteq> d \<Longrightarrow> apart (c # p) (d # q)"
  by (simp add: apart_def)

lemma linux_sources:
  "apart linux_out (linux_target @ [name])" "apart linux_out c_header"
  by (simp_all add: linux_out_def dist_path_def linux_target_def target_dir_def c_header_def
      ws_path_def ascii_def apart_heads)

definition linux_srcs :: "path list" where
  "linux_srcs = [linux_target @ [ascii ''libmcpix_uniffi.so''],
     linux_target @ [ascii ''libmcpix_ffi.so''], c_header]"

lemma build_linux_eq:
  "build_linux T W =
     st_then (run T (linux_command T) W) (\<lambda>_ W.
     st_then (mkdir T linux_out W) (\<lambda>_ W. copy_all T linux_srcs linux_out W))"
  by (simp add: build_linux_def build_target_def Let_def linux_command_def linux_out_def
      linux_target_def linux_srcs_def del: copy_all.simps)

lemma build_linux_publishes:
  assumes "build_linux T W = (Ok u, W')" and "io_ok T"
  obtains out tree where "t_spawn T (linux_command T) (ws_tree W) = (Inr out, tree)" "p_success out"
    "\<forall>name \<in> linux_libs. \<exists>c. node_at (linux_target @ [name]) tree = Some (File (Inr c)) \<and>
       node_at (linux_out @ [name]) (ws_tree W') = Some (File (Inr c))"
proof -
  let ?srcs = linux_srcs
  obtain u1 W1 v W2 where r: "run T (linux_command T) W = (Ok u1, W1)"
    and m: "mkdir T linux_out W1 = (Ok v, W2)" and c: "copy_all T ?srcs linux_out W2 = (Ok u, W')"
    using assms(1) unfolding build_linux_eq by (auto simp: outcome_simps)
  obtain out tree where sp: "t_spawn T (linux_command T) (ws_tree W) = (Inr out, tree)"
    "p_success out" and t1: "ws_tree W1 = tree"
    using r by (auto simp: run_Ok_iff)
  have d: "distinct (map last ?srcs)" "\<forall>s \<in> set ?srcs. apart linux_out s"
    using linux_sources by (simp_all add: linux_srcs_def c_header_def ws_path_def ascii_def)
  note copied = copy_all_Ok [OF c assms(2) mkdir_Ok(1) [OF m assms(2)] d]
  show thesis
  proof (rule that [OF sp], rule ballI)
    fix name assume "name \<in> linux_libs"
    then show "\<exists>c. node_at (linux_target @ [name]) tree = Some (File (Inr c)) \<and>
       node_at (linux_out @ [name]) (ws_tree W') = Some (File (Inr c))"
      using copied mkdir_Ok(3) [OF m assms(2) linux_sources(1)] by (auto simp: linux_libs_def linux_srcs_def t1)
  qed
qed

section \<open>The release tasks on the workspace\<close>

lemma put_key_same [simp]: "put_key p k k tree = tree"
  by (simp add: put_key_def)

lemma dist_apart: "apart dist_path release_pub" "apart dist_path release_priv"
  by (simp_all add: dist_path_def release_pub_def release_priv_def ws_path_def ascii_def apart_heads)

lemma with_host_dist:
  assumes "k (host_of T W) = (r, host_of T W \<lparr> bh_dist := Some d \<rparr>)" and "reach dist_path (ws_tree W)"
  shows "with_host T k W = (r, W \<lparr> ws_tree := set_at dist_path d (ws_tree W) \<rparr>)"
    "host_of T (W \<lparr> ws_tree := set_at dist_path d (ws_tree W) \<rparr>) = host_of T W \<lparr> bh_dist := Some d \<rparr>"
  using assms(2)
  by (simp_all add: with_host_def assms(1) Let_def)
    (simp add: host_of_def key_file_def node_at_set_at node_at_set_at_other dist_apart)

lemma listed_entry: "listed name l = Some (Inr c) \<longleftrightarrow> entry name l = Some (File (Inr c))"
  by (induction name l rule: listed.induct) (auto split: node.splits)

lemma entry_files:
  "entry c l = Some m \<Longrightarrow> set (tree_files (pre @ [c]) m) \<subseteq> set (listing_files pre l)"
  by (induction c l rule: entry.induct) (auto split: if_splits)

lemma node_at_tree_files:
  "node_at p n = Some (File (Inr c)) \<Longrightarrow> (pre @ p, c) \<in> set (tree_files pre n)"
proof (induction p n arbitrary: pre rule: node_at.induct)
  case (2 d p l)
  then obtain m where m: "entry d l = Some m" "node_at p m = Some (File (Inr c))"
    by (auto split: option.splits)
  with entry_files [OF m(1), of pre] 2(1) [OF m, of "pre @ [d]"] show ?case by auto
qed auto


section \<open>Properties\<close>

lemma hash_task_Ok:
  assumes "hash_task display sha e H = (Ok u, H')" and "bh_dist H = Some (Dir l)" and "all_readable l"
  shows "e = None \<and>
    H' = H \<lparr> bh_dist := Some (Dir (put_file SUMS (hash_artifacts sha (artefacts l)) l)) \<rparr>"
  using assms
  by (cases e)
    (auto simp: hash_task_def walk_tree_files(2) hash_artifacts_artefacts artefacts_def)

lemma sign_artifacts_Ok:
  assumes "sign_artifacts S utf8_err d e H = (Ok u, H')" and "bh_sign_key H = Some (hex_of seed)"
    and "bh_dist H = Some (Dir l)" and "listed SUMS l = Some (Inr sums)"
  shows "e = None \<and> H' = H \<lparr> bh_dist := Some (Dir (put_file SUMS_SIG (sk_sign S seed sums) l)) \<rparr>"
  using assms
  by (cases e) (auto simp: sign_artifacts_def key_bytes_hex_of hex_of_facts split: if_splits)

lemma put_file_entry:
  assumes "all_readable l"
  shows "entry name (put_file name c l) = Some (File (Inr c))"
  using put_file_listed(1) [OF assms] by (simp add: listed_entry)

lemma with_host_Ok:
  assumes "with_host T k W = (Ok u, W')"
  obtains H' where "k (host_of T W) = (Ok u, H')"
  using assms by (auto simp: with_host_def Let_def split: prod.splits)

lemma write_reaches:
  assumes "io_ok T" and "t_io T (WriteFile (p @ q)) tree = None"
  shows "reach p tree"
  using assms reach_append [of p q tree] by (simp add: io_ok_def)

lemma host_of_simps [simp]:
  "bh_dist (host_of T W) = node_at dist_path (ws_tree W)"
  "bh_sign_key (host_of T W) = t_var T (ascii ''MCPIX_SIGN_PRIVKEY_HEX'')"
  by (simp_all add: host_of_def)

lemma xtask_hash_Ok:
  assumes "xtask_hash R T W = (Ok u, W')" and "io_ok T"
    and "node_at dist_path (ws_tree W) = Some (Dir l)" and "all_readable l"
  shows "node_at dist_path (ws_tree W') =
    Some (Dir (put_file SUMS (hash_artifacts (rl_sha R) (artefacts l)) l))"
proof -
  let ?k = "hash_task (t_display T) (rl_sha R) (write_err T (dist_path @ [SUMS]) W)"
  have w: "with_host T ?k W = (Ok u, W')" using assms(1) by (simp add: xtask_hash_def)
  then obtain H' where k: "?k (host_of T W) = (Ok u, H')" by (rule with_host_Ok)
  have d: "bh_dist (host_of T W) = Some (Dir l)" using assms(3) by simp
  note h = hash_task_Ok [OF k d assms(4)]
  have r: "reach dist_path (ws_tree W)" using write_reaches [OF assms(2)] h [unfolded write_err_None_iff] by blast
  from with_host_dist(1) [where k = ?k, OF k [unfolded conjunct2 [OF h]] r] w
  show ?thesis by (auto simp: node_at_set_at r)
qed

lemma xtask_sign_Ok:
  assumes "xtask_sign R T W = (Ok u, W')" and "io_ok T"
    and "node_at dist_path (ws_tree W) = Some (Dir l)" and "listed SUMS l = Some (Inr sums)"
    and "t_var T (ascii ''MCPIX_SIGN_PRIVKEY_HEX'') = Some (hex_of seed)"
  shows "node_at dist_path (ws_tree W') =
    Some (Dir (put_file SUMS_SIG (sk_sign (rl_sign R) seed sums) l))"
proof -
  let ?k = "sign_artifacts (rl_sign R) (rl_utf8_err R) (t_display T (dist_path @ [SUMS]))
    (write_err T (dist_path @ [SUMS_SIG]) W)"
  have w: "with_host T ?k W = (Ok u, W')" using assms(1) by (simp add: xtask_sign_def)
  then obtain H' where k: "?k (host_of T W) = (Ok u, H')" by (rule with_host_Ok)
  have d: "bh_dist (host_of T W) = Some (Dir l)" "bh_sign_key (host_of T W) = Some (hex_of seed)"
    using assms(3,5) by simp_all
  note h = sign_artifacts_Ok [OF k d(2,1) assms(4)]
  have r: "reach dist_path (ws_tree W)" using write_reaches [OF assms(2)] h [unfolded write_err_None_iff] by blast
  from with_host_dist(1) [where k = ?k, OF k [unfolded conjunct2 [OF h]] r] w
  show ?thesis by (auto simp: node_at_set_at r)
qed

lemma artefact_of_file:
  assumes "node_at p (Dir l) = Some (File (Inr c))" and "p \<noteq> []" and "last p \<noteq> SUMS"
  shows "(p, c) \<in> set (artefacts l)"
  using node_at_tree_files [OF assms(1), of "[]"] assms(2,3)
  by (simp add: artefacts_def is_artefact_def path_file_name_def)

text \<open>
  What the Linux build compiles is what a receiver's self-check accepts: when
  \<^verbatim>\<open>build-linux\<close>, \<^verbatim>\<open>hash-artifacts\<close> and \<^verbatim>\<open>sign-artifacts\<close> all succeed, cargo ran
  and succeeded, and the library it left under \<^verbatim>\<open>target\<close> passes the check of the manifest and
  signature published in \<^verbatim>\<open>dist\<close>, as long as no other artefact of the release has its name.
\<close>

theorem linux_release_checks_out:
  assumes ok: "sha_ok (rl_sha R)" "signs_for (rl_sign R) D" "length seed = 32" "io_ok T"
    and key: "t_var T (ascii ''MCPIX_SIGN_PRIVKEY_HEX'') = Some (hex_of seed)"
    and run: "build_linux T W0 = (Ok u0, W1)" "xtask_hash R T W1 = (Ok u1, W2)"
      "xtask_sign R T W2 = (Ok u2, W3)"
    and tree: "release_tree (host_of T W1) l" and name: "name \<in> linux_libs"
    and one: "\<And>x y. x \<in> set (artefacts l) \<Longrightarrow> y \<in> set (artefacts l) \<Longrightarrow>
      ends_with (path_display (fst x)) name \<Longrightarrow> ends_with (path_display (fst y)) name \<Longrightarrow> x = y"
  shows "\<exists>out tree lib sums sig.
    t_spawn T (linux_command T) (ws_tree W0) = (Inr out, tree) \<and> p_success out \<and>
    node_at (linux_target @ [name]) tree = Some (File (Inr lib)) \<and>
    node_at (dist_path @ [SUMS]) (ws_tree W3) = Some (File (Inr sums)) \<and>
    node_at (dist_path @ [SUMS_SIG]) (ws_tree W3) = Some (File (Inr sig)) \<and>
    verify_combined D sums sig (sk_public (rl_sign R) seed) name (hex_of (rl_sha R lib)) = Ok SVerified"
proof -
  from run(1) ok(4) obtain out tree where sp: "t_spawn T (linux_command T) (ws_tree W0) = (Inr out, tree)"
    "p_success out" and pub: "\<forall>name \<in> linux_libs. \<exists>c. node_at (linux_target @ [name]) tree = Some (File (Inr c)) \<and>
        node_at (linux_out @ [name]) (ws_tree W1) = Some (File (Inr c))"
    by (rule build_linux_publishes)
  obtain lib where lib: "node_at (linux_target @ [name]) tree = Some (File (Inr lib))"
    "node_at (linux_out @ [name]) (ws_tree W1) = Some (File (Inr lib))"
    using pub name by blast
  have l: "node_at dist_path (ws_tree W1) = Some (Dir l)" "all_readable l"
    and plain: "\<forall>(rel, c) \<in> set (artefacts l). plain_path rel"
    using tree by (simp_all add: release_tree_def)
  let ?f = "([ascii ''linux-x86_64'', name], lib)"
  let ?m = "hash_artifacts (rl_sha R) (artefacts l)"
  have "node_at [ascii ''linux-x86_64'', name] (Dir l) = Some (File (Inr lib))"
    using lib(2) l(1) by (simp add: linux_out_def node_at_append del: node_at.simps)
  then have mem: "?f \<in> set (artefacts l)"
    using name by (intro artefact_of_file) (auto simp: linux_libs_def SUMS_def ascii_def)
  have e: "ends_with (path_display (fst ?f)) name" by (simp add: ends_with_def)
  have "x = ?f" if "x \<in> set (artefacts l)" and "ends_with (path_display (fst x)) name" for x
    by (rule one [OF that(1) mem that(2) e])
  with mem e have only: "only_one name ?f (artefacts l)"
    unfolding only_one_def by blast
  note h = xtask_hash_Ok [OF run(2) ok(4) l]
  have s: "listed SUMS (put_file SUMS ?m l) = Some (Inr ?m)" by (rule put_file_listed(1) [OF l(2)])
  note g = xtask_sign_Ok [OF run(3) ok(4) h s key]
  have "listed SUMS (put_file SUMS_SIG (sk_sign (rl_sign R) seed ?m) (put_file SUMS ?m l)) = Some (Inr ?m)"
    using s by (simp add: put_file_listed(2))
  then have entries: "entry SUMS (put_file SUMS_SIG (sk_sign (rl_sign R) seed ?m) (put_file SUMS ?m l)) =
      Some (File (Inr ?m))"
    "entry SUMS_SIG (put_file SUMS_SIG (sk_sign (rl_sign R) seed ?m) (put_file SUMS ?m l)) =
      Some (File (Inr (sk_sign (rl_sign R) seed ?m)))"
    using put_file_entry [OF put_file_listed(3) [OF l(2)]] by (simp_all add: listed_entry)
  have "node_at (dist_path @ [SUMS]) (ws_tree W3) = Some (File (Inr ?m))"
    "node_at (dist_path @ [SUMS_SIG]) (ws_tree W3) = Some (File (Inr (sk_sign (rl_sign R) seed ?m)))"
    using entries by (simp_all add: node_at_append g)
  then show ?thesis
    using sp lib(1) signed_tree_verdict [OF ok(1-3) plain only, of lib] by auto
qed

text \<open>A toolchain whose file operations check what they need, and a cargo that builds two libraries.\<close>

fun checked_io :: "io_op \<Rightarrow> node \<Rightarrow> (bytes \<times> node) option" where
  "checked_io (MkDir p) tree = (if reach p tree then None else Some ([], tree))"
| "checked_io (WriteFile p) tree = (if reach p tree then None else Some ([], tree))"
| "checked_io (CopyFile src dst) tree =
     (case node_at src tree of
        Some (File (Inr c)) \<Rightarrow> if reach dst tree then None else Some ([], tree)
      | _ \<Rightarrow> Some ([], tree))"
| "checked_io (RemoveDir p) tree = None"

definition demo_tools :: toolchain where
  "demo_tools = \<lparr>
     t_var = (\<lambda>v. if v = ascii ''MCPIX_SIGN_PRIVKEY_HEX'' then Some (hex_of (replicate 32 5)) else None),
     t_macos = False,
     t_spawn = (\<lambda>c tree.
       (Inr \<lparr> p_success = True, p_status = [], p_stdout = [9], p_stderr = [] \<rparr>,
        set_at (linux_target @ [ascii ''libmcpix_uniffi.so'']) (File (Inr [1]))
          (set_at (linux_target @ [ascii ''libmcpix_ffi.so'']) (File (Inr [1, 2])) tree))),
     t_io = checked_io, t_show = (\<lambda>_. []), t_display = path_display \<rparr>"

definition demo_ws :: workspace where
  "demo_ws = \<lparr> ws_tree = set_at c_header (File (Inr [3])) (Dir LEnd), ws_log = [] \<rparr>"

definition demo_lib :: release_lib where
  "demo_lib = \<lparr> rl_sign = demo_sign, rl_sha = demo_sha, rl_utf8_err = (\<lambda>_. []), rl_lossy = (\<lambda>b. b),
     rl_read_dir_err = (\<lambda>_. []), rl_rng = None \<rparr>"

definition demo_published :: listing where
  "demo_published = LEntry (ascii ''linux-x86_64'') (Dir
     (LEntry (ascii ''libmcpix_uniffi.so'') (File (Inr [1]))
     (LEntry (ascii ''libmcpix_ffi.so'') (File (Inr [1, 2]))
     (LEntry (ascii ''mcpix.h'') (File (Inr [3])) LEnd)))) LEnd"

lemma demo_tools_ok: "io_ok demo_tools"
  by (auto simp: io_ok_def demo_tools_def split: if_splits option.splits node.splits sum.splits)

lemma demo_build:
  "fst (build_linux demo_tools demo_ws) = Ok () \<and>
   node_at dist_path (ws_tree (snd (build_linux demo_tools demo_ws))) = Some (Dir demo_published)"
  by code_simp

lemma demo_hash_sign:
  "let W = snd (build_linux demo_tools demo_ws) in
   fst (xtask_hash demo_lib demo_tools W) = Ok () \<and>
   fst (xtask_sign demo_lib demo_tools (snd (xtask_hash demo_lib demo_tools W))) = Ok ()"
  by code_simp

theorem linux_release_checks_out_witness:
  "\<exists>lib sums sig. verify_combined demo_ed sums sig (replicate 32 5) (ascii ''libmcpix_ffi.so'')
     (hex_of (demo_sha lib)) = Ok SVerified"
proof -
  let ?W1 = "snd (build_linux demo_tools demo_ws)"
  let ?W2 = "snd (xtask_hash demo_lib demo_tools ?W1)"
  let ?W3 = "snd (xtask_sign demo_lib demo_tools ?W2)"
  have d: "rl_sha demo_lib = demo_sha" "rl_sign demo_lib = demo_sign"
    "sk_public demo_sign (replicate 32 5) = replicate 32 5"
    by (simp_all add: demo_lib_def demo_sign_def)
  have runs: "build_linux demo_tools demo_ws = (Ok (), ?W1)"
    "xtask_hash demo_lib demo_tools ?W1 = (Ok (), ?W2)"
    "xtask_sign demo_lib demo_tools ?W2 = (Ok (), ?W3)"
    using demo_build demo_hash_sign by (simp_all add: prod_eq_iff Let_def)
  have a: "artefacts demo_published = map (\<lambda>(f, c). ([ascii ''linux-x86_64'', ascii f], c))
      [(''libmcpix_uniffi.so'', [1]), (''libmcpix_ffi.so'', [1, 2]), (''mcpix.h'', [3])]"
    by (simp add: artefacts_def demo_published_def is_artefact_def path_file_name_def SUMS_def ascii_def)
  have r: "all_readable demo_published" by (simp add: demo_published_def)
  have t: "release_tree (host_of demo_tools ?W1) demo_published"
    using demo_build r by (simp add: release_tree_def a plain_path_def ascii_def graphic_def)
  have one: "x = y" if "x \<in> set (artefacts demo_published)" "y \<in> set (artefacts demo_published)"
    "ends_with (path_display (fst x)) (ascii ''libmcpix_ffi.so'')"
    "ends_with (path_display (fst y)) (ascii ''libmcpix_ffi.so'')" for x y
    using that by (auto simp: a ends_with_def ascii_def)
  have n: "ascii ''libmcpix_ffi.so'' \<in> linux_libs" by (simp add: linux_libs_def)
  have k: "t_var demo_tools (ascii ''MCPIX_SIGN_PRIVKEY_HEX'') = Some (hex_of (replicate 32 5))"
    by (simp add: demo_tools_def)
  have l: "length (replicate 32 (5 :: byte)) = 32" by simp
  from linux_release_checks_out [where R = demo_lib and D = demo_ed, unfolded d,
      OF demo_sha_ok demo_release(1) l demo_tools_ok k runs t n one]
  show ?thesis by (auto simp: d)
qed

lemma run_or_Ok_iff:
  "run_or T c m f W = (Ok u, W') \<longleftrightarrow>
     (\<exists>out tree. t_spawn T c (ws_tree W) = (Inr out, tree) \<and> p_success out \<and>
       W' = W \<lparr> ws_tree := tree, ws_log := ws_log W @ [c] \<rparr>)"
  by (auto simp: run_or_def spawn_def split: prod.splits sum.splits)

text \<open>
  A hermetic build that is reported was made offline: when \<^verbatim>\<open>verify-hermetic\<close> succeeds it
  has spawned exactly three commands, in order: the vendoring, and two builds that carry
  \<^verbatim>\<open>--frozen\<close>, \<^verbatim>\<open>--locked\<close> and \<^verbatim>\<open>--offline\<close>; all three succeeded, and the first build ran
  with the configuration file holding what the vendoring had printed.
\<close>

theorem hermetic_build_was_offline:
  assumes "verify_hermetic T lossy W = (Ok (), W')" and "io_ok T"
  shows "\<exists>vendor b1 b2 v t1 o1 t2 o2 t3.
    ws_log W' = ws_log W @ [vendor, b1, b2] \<and>
    {ascii ''--frozen'', ascii ''--locked'', ascii ''--offline''} \<subseteq> set (c_args b1) \<inter> set (c_args b2) \<and>
    t_spawn T vendor (make_dirs (ws_path [''.cargo'']) (ws_tree W)) = (Inr v, t1) \<and> p_success v \<and>
    node_at hermetic_config (set_at hermetic_config (File (Inr (p_stdout v))) t1) =
      Some (File (Inr (p_stdout v))) \<and>
    t_spawn T b1 (set_at hermetic_config (File (Inr (p_stdout v))) t1) = (Inr o1, t2) \<and> p_success o1 \<and>
    t_spawn T b2 t2 = (Inr o2, t3) \<and> p_success o2 \<and> ws_tree W' = t3"
proof -
  let ?dir = "make_dirs (ws_path [''.cargo'']) (ws_tree W)"
  let ?b1 = "hermetic_build T hermetic_config []"
  let ?b2 = "hermetic_build T hermetic_config [''--all-targets'']"
  obtain v t1 where v: "t_spawn T (vendor_command T) ?dir = (Inr v, t1)" "p_success v"
    and w: "t_io T (WriteFile hermetic_config) t1 = None"
    and rest: "\<exists>u W1. run_or T ?b1 (ascii ''cargo build hermetic failed to spawn: '')
        (\<lambda>_. ascii ''cargo build hermetic falhou '' @ em_dash
           @ ascii '' alguma dep tentou rede ou est'' @ [0xC3, 0xA1] @ ascii '' faltando do vendor'')
        (W \<lparr> ws_log := ws_log W @ [vendor_command T],
           ws_tree := set_at hermetic_config (File (Inr (p_stdout v))) t1 \<rparr>) = (Ok u, W1) \<and>
      run_or T ?b2 (ascii ''cargo build --all-targets hermetic failed: '')
        (\<lambda>_. ascii ''cargo build --all-targets hermetic falhou'') W1 = (Ok (), W')"
    using assms(1)
    by (auto simp: verify_hermetic_def spawn_def outcome_simps io_Ok_iff
        split: prod.splits sum.splits if_splits)
  have r: "reach hermetic_config t1" using w assms(2) by (simp add: io_ok_def)
  have flags: "{ascii ''--frozen'', ascii ''--locked'', ascii ''--offline''} \<subseteq>
      set (c_args (hermetic_build T hermetic_config ts))" for ts
    by (simp add: hermetic_build_def in_dir_def with_args_def cargo_def)
  from rest obtain o1 t2 o2 t3 where
    "t_spawn T ?b1 (set_at hermetic_config (File (Inr (p_stdout v))) t1) = (Inr o1, t2)" "p_success o1"
    "t_spawn T ?b2 t2 = (Inr o2, t3)" "p_success o2" "ws_tree W' = t3"
    "ws_log W' = ws_log W @ [vendor_command T, ?b1, ?b2]"
    by (auto simp: run_or_Ok_iff)
  then show ?thesis
    using v node_at_set_at [OF r] flags [of "[]"] flags [of "[''--all-targets'']"] by blast
qed

theorem hermetic_build_was_offline_witness:
  "length (ws_log (snd (verify_hermetic demo_tools (\<lambda>b. b) demo_ws))) = 3"
proof -
  have "fst (verify_hermetic demo_tools (\<lambda>b. b) demo_ws) = Ok ()" by code_simp
  then have "verify_hermetic demo_tools (\<lambda>b. b) demo_ws =
      (Ok (), snd (verify_hermetic demo_tools (\<lambda>b. b) demo_ws))"
    by (simp add: prod_eq_iff)
  from hermetic_build_was_offline [OF this demo_tools_ok] show ?thesis
    by (auto simp: demo_ws_def)
qed

text \<open>
  Only the Linux build decides \<^verbatim>\<open>build-all\<close>: the program ends with success exactly when
  that build succeeds, whatever becomes of the builds for the other platforms.
\<close>

theorem build_all_needs_only_linux:
  "fst (xtask_main R T (Some (ascii ''build-all'')) W) = Ok SUCCESS \<longleftrightarrow>
   fst (build_linux T W) = Ok ()"
proof -
  have "map_of (tasks R T) (ascii ''build-all'') = Some (build_all T)"
    by (simp add: tasks_def ascii_def)
  then show ?thesis
    by (cases "build_linux T W"; cases "fst (build_linux T W)")
      (auto simp: xtask_main_def build_all_def Let_def)
qed

end
