(* ===== verification/BuildScripts.thy ===== *)
theory BuildScripts
  imports Xtask
begin

text \<open>
  The build scripts that cargo runs before it compiles: \<^verbatim>\<open>mcpix-ffi/build.rs\<close>, which writes the C
  header, and \<^verbatim>\<open>embedded/build.rs\<close> and \<^verbatim>\<open>embedded-uno-q/build.rs\<close>, the same text twice, which put the
  memory layout where the linker looks for it.

  They act on the file system (a tree, paths from its root) and print lines for cargo, which are the
  value of a run. cbindgen is third-party: it reads a configuration and generates a header or an
  error. The toolchain record of the tasks says which file operation fails.
\<close>

record 'c cbindgen =
  cb_config :: "path \<Rightarrow> node \<Rightarrow> bytes + 'c"
  cb_generate :: "path \<Rightarrow> 'c \<Rightarrow> node \<Rightarrow> bytes + bytes"
  cb_write :: "path \<Rightarrow> bytes \<Rightarrow> node \<Rightarrow> node"

text \<open>The variables that cargo sets hold paths; \<^verbatim>\<open>CARGO_PUBLISH\<close> is only looked up.\<close>

type_synonym cargo_env = "string \<Rightarrow> path option"

definition HEADER_PATH :: path where
  "HEADER_PATH = [ascii ''bindings'', ascii ''c'', ascii ''include'', ascii ''mcpix.h'']"

definition ffi_build ::
  "cargo_env \<Rightarrow> toolchain \<Rightarrow> 'c cbindgen \<Rightarrow> node \<Rightarrow> bytes list task \<times> node" where
  "ffi_build V T C tree =
     (if V ''CARGO_PUBLISH'' \<noteq> None then (Ok [], tree)
      else
        case V ''CARGO_MANIFEST_DIR'' of
          None \<Rightarrow> (Panic, tree)
        | Some crate_dir \<Rightarrow>
            if length crate_dir < 2 then (Panic, tree)
            else
              let workspace_dir = butlast (butlast crate_dir);
                  header_out = workspace_dir @ HEADER_PATH;
                  tree = (case t_io T (MkDir (butlast header_out)) tree of
                      None \<Rightarrow> make_dirs (butlast header_out) tree
                    | Some e \<Rightarrow> tree)
              in (case cb_config C (crate_dir @ [ascii ''cbindgen.toml'']) tree of
                    Inl e \<Rightarrow> (Panic, tree)
                  | Inr config \<Rightarrow>
                      (case cb_generate C crate_dir config tree of
                         Inr bindings \<Rightarrow>
                           (Ok [ascii ''cargo:rerun-if-changed=src/'',
                                ascii ''cargo:rerun-if-changed=cbindgen.toml''],
                            cb_write C header_out bindings tree)
                       | Inl e \<Rightarrow> (Ok [ascii ''cargo:warning=cbindgen skipped: '' @ e], tree))))"

text \<open>cargo runs a script in the directory \<open>cwd\<close> of its package.\<close>

definition device_build :: "cargo_env \<Rightarrow> toolchain \<Rightarrow> path \<Rightarrow> node \<Rightarrow> bytes list task \<times> node" where
  "device_build V T cwd tree =
     (case V ''OUT_DIR'' of
        None \<Rightarrow> (Panic, tree)
      | Some out_dir \<Rightarrow>
          let src = cwd @ [ascii ''memory.x'']; dst = out_dir @ [ascii ''memory.x''] in
          (case t_io T (CopyFile src dst) tree of
             Some e \<Rightarrow> (Panic, tree)
           | None \<Rightarrow>
               (Ok [ascii ''cargo:rustc-link-search='' @ t_display T out_dir,
                    ascii ''cargo:rerun-if-changed=memory.x'', ascii ''cargo:rerun-if-changed=build.rs''],
                copy_node src dst tree)))"

text \<open>The script of the second device, \<^verbatim>\<open>embedded-uno-q/build.rs\<close>, is the same.\<close>

definition uno_q_build :: "cargo_env \<Rightarrow> toolchain \<Rightarrow> path \<Rightarrow> node \<Rightarrow> bytes list task \<times> node" where
  "uno_q_build V T cwd tree = device_build V T cwd tree"

section \<open>Facts\<close>

text \<open>A header that cannot be generated never stops the build, and the tree keeps its old header.\<close>

lemma ffi_build_survives_cbindgen:
  assumes "V ''CARGO_PUBLISH'' = None" and "V ''CARGO_MANIFEST_DIR'' = Some (ws @ [a, b])"
    and "t_io T (MkDir (butlast (ws @ HEADER_PATH))) tree = Some m"
    and "cb_config C (ws @ [a, b, ascii ''cbindgen.toml'']) tree = Inr config"
    and "cb_generate C (ws @ [a, b]) config tree = Inl e"
  shows "ffi_build V T C tree = (Ok [ascii ''cargo:warning=cbindgen skipped: '' @ e], tree)"
  using assms by (simp add: ffi_build_def butlast_append)

text \<open>A device build that goes on has the layout of its package in the output directory.\<close>

lemma device_build_places_memory_x:
  assumes "io_ok T" and "V ''OUT_DIR'' = Some out_dir" and "device_build V T cwd tree = (Ok lines, tree')"
  shows "\<exists>c. node_at (cwd @ [ascii ''memory.x'']) tree = Some (File (Inr c)) \<and>
    node_at (out_dir @ [ascii ''memory.x'']) tree' = Some (File (Inr c))"
proof -
  let ?src = "cwd @ [ascii ''memory.x'']" and ?dst = "out_dir @ [ascii ''memory.x'']"
  have ok: "t_io T (CopyFile ?src ?dst) tree = None" and tree': "tree' = copy_node ?src ?dst tree"
    using assms(2,3) by (auto simp: device_build_def Let_def split: option.splits)
  from ok assms(1) obtain c where "reach ?dst tree" "node_at ?src tree = Some (File (Inr c))"
    unfolding io_ok_def by blast
  then show ?thesis by (simp add: tree' copy_node_def node_at_set_at)
qed

end
