(* ===== verification/PayerBank.thy ===== *)
theory PayerBank
  imports CoreState BankReceivers
begin

text \<open>
  \<^verbatim>\<open>mcpix-bank-payer-mock/src/lib.rs\<close>: the bank of the payer. It takes the public field of a
  charge, looks the seed up at the bank of the receiver and recomputes the confirmation code.
\<close>

record payment_request =
  pr_instrument_string :: bytes
  pr_amount_cents :: u64
  pr_counter :: u64
  pr_requester :: requester

record payment_receipt =
  py_receiver_seed_id :: seed_id
  py_counter_used :: u64
  py_amount_cents :: u64
  py_identifier :: bytes
  py_note :: bytes

record payment_request_windowed =
  pw_instrument_string :: bytes
  pw_amount_cents :: u64
  pw_current_quantum :: u64
  pw_tolerance_windows :: u32
  pw_requester :: requester

record windowed_payment_receipt =
  wr_receiver_seed_id :: seed_id
  wr_amount_cents :: u64
  wr_candidates :: "(u64 \<times> bytes) list"
  wr_note :: bytes

definition process_payment ::
  "crypto_lib \<Rightarrow> ('e, 'b) bank_ops \<Rightarrow> 'e \<Rightarrow> payment_request \<Rightarrow> 'b \<Rightarrow> payment_receipt mcpix" where
  "process_payment L bank e req b =
     (if \<not> is_protocol_field (pr_instrument_string req) then Err TransportFieldPrefix
      else
        and_then (parse (pr_instrument_string req)) (\<lambda>parsed.
        and_then (lookup_seed bank e (pf_seed_id parsed) (pr_requester req) b) (\<lambda>seed.
        and_then (apply_recover_c2 L seed (pr_counter req) (pf_c1 parsed)) (\<lambda>c2.
        and_then (c2_as_str c2) (\<lambda>identifier.
        Ok \<lparr> py_receiver_seed_id = pf_seed_id parsed, py_counter_used = pr_counter req,
             py_amount_cents = pr_amount_cents req, py_identifier = identifier,
             py_note = ascii ''settled via institutional substitution'' \<rparr>)))))"

text \<open>The loop over \<^verbatim>\<open>lo..=hi\<close>, which pushes one candidate per counter.\<close>

fun collect_candidates :: "('a \<Rightarrow> ('e, 'c) outcome) \<Rightarrow> 'a list \<Rightarrow> ('e, 'c list) outcome" where
  "collect_candidates f [] = Ok []"
| "collect_candidates f (t # ts) =
     and_then (f t) (\<lambda>c. and_then (collect_candidates f ts) (\<lambda>cs. Ok (c # cs)))"

definition inclusive_range :: "u64 \<Rightarrow> u64 \<Rightarrow> u64 list" where
  "inclusive_range lo hi = map word_of_nat [unat lo ..< Suc (unat hi)]"

text \<open>
  The vector of the candidates is reserved in advance; that the memory for it is there (a tolerance
  of 32 bits asks for up to \<open>2 ^ 33\<close> of them) is not modelled.
\<close>

definition process_payment_windowed ::
  "crypto_lib \<Rightarrow> ('e, 'b) bank_ops \<Rightarrow> 'e \<Rightarrow> payment_request_windowed \<Rightarrow> 'b \<Rightarrow>
   windowed_payment_receipt mcpix" where
  "process_payment_windowed L bank e req b =
     (if \<not> is_protocol_field (pw_instrument_string req) then Err TransportFieldPrefix
      else
        and_then (parse (pw_instrument_string req)) (\<lambda>parsed.
        and_then (lookup_seed bank e (pf_seed_id parsed) (pw_requester req) b) (\<lambda>seed.
        let tol = ucast (pw_tolerance_windows req);
            lo = saturating_sub (pw_current_quantum req) tol;
            hi = saturating_add (pw_current_quantum req) tol
        in and_then (collect_candidates (\<lambda>t.
             and_then (apply_recover_c2 L seed t (pf_c1 parsed)) (\<lambda>c2.
             and_then (c2_as_str c2) (\<lambda>s. Ok (t, s)))) (inclusive_range lo hi)) (\<lambda>candidates.
           Ok \<lparr> wr_receiver_seed_id = pf_seed_id parsed, wr_amount_cents = pw_amount_cents req,
                wr_candidates = candidates,
                wr_note = ascii ''settled via institutional substitution (windowed)'' \<rparr>))))"

section \<open>Lemmas\<close>

lemma collect_candidates_Ok:
  "(\<And>t. t \<in> set ts \<Longrightarrow> f t = Ok (g t)) \<Longrightarrow> collect_candidates f ts = Ok (map g ts)"
  by (induction ts) auto

lemma unat_in_range: "n \<le> unat hi \<Longrightarrow> unat (word_of_nat n :: u64) = n" for hi :: u64
proof -
  assume "n \<le> unat hi"
  then have "n < 2 ^ LENGTH(64)" using unat_bound [of hi] by (rule le_less_trans)
  then show ?thesis by (simp add: unat_of_nat)
qed

lemma set_inclusive_range: "set (inclusive_range lo hi) = {t. lo \<le> t \<and> t \<le> hi}"
proof (rule set_eqI)
  fix t :: u64
  have "t \<in> set (inclusive_range lo hi) \<longleftrightarrow> (\<exists>n. unat lo \<le> n \<and> n \<le> unat hi \<and> t = word_of_nat n)"
    by (auto simp: inclusive_range_def less_Suc_eq_le simp del: upt_Suc)
  also have "\<dots> \<longleftrightarrow> lo \<le> t \<and> t \<le> hi"
  proof
    assume "\<exists>n. unat lo \<le> n \<and> n \<le> unat hi \<and> t = word_of_nat n"
    then show "lo \<le> t \<and> t \<le> hi" by (auto simp: word_le_nat_alt unat_in_range)
  next
    assume "lo \<le> t \<and> t \<le> hi"
    then show "\<exists>n. unat lo \<le> n \<and> n \<le> unat hi \<and> t = word_of_nat n"
      by (intro exI [of _ "unat t"]) (simp add: word_le_nat_alt)
  qed
  finally show "t \<in> set (inclusive_range lo hi) \<longleftrightarrow> t \<in> {t. lo \<le> t \<and> t \<le> hi}" by simp
qed

lemma inclusive_range_sorted: "sorted_wrt (<) (inclusive_range lo hi)"
proof -
  have "sorted_wrt (\<lambda>m n. (word_of_nat m :: u64) < word_of_nat n) [unat lo ..< Suc (unat hi)]"
  proof (rule sorted_wrt_mono_rel [OF _ sorted_wrt_upt])
    fix m n
    assume "m \<in> set [unat lo ..< Suc (unat hi)]" "n \<in> set [unat lo ..< Suc (unat hi)]" "m < n"
    then have "m \<le> unat hi" "n \<le> unat hi" "m < n" by auto
    then show "(word_of_nat m :: u64) < word_of_nat n"
      unfolding word_less_nat_alt by (simp only: unat_in_range)
  qed
  then show ?thesis by (simp add: inclusive_range_def sorted_wrt_map del: upt_Suc)
qed

lemma length_inclusive_range: "length (inclusive_range lo hi) = Suc (unat hi) - unat lo"
  by (simp add: inclusive_range_def del: upt_Suc)

lemma field_is_protocol:
  "seed_id_wf sid \<Longrightarrow> c1_wf c \<Longrightarrow> is_protocol_field (field_of sid c)"
  using length_field_of [of sid c]
  by (simp add: is_protocol_field_def field_len_defs starts_with_def PROTOCOL_PREFIX_def
      field_of_def)

lemma process_payment_field:
  assumes "crypto_ok L" "seed_id_wf sid" "c1_wf c" "pr_instrument_string req = field_of sid c"
    and "lookup_seed bank e sid (pr_requester req) b = Ok s"
  shows "process_payment L bank e req b =
    Ok \<lparr> py_receiver_seed_id = sid, py_counter_used = pr_counter req,
         py_amount_cents = pr_amount_cents req,
         py_identifier = c2_chars (c2_spec L s (pr_counter req) c),
         py_note = ascii ''settled via institutional substitution'' \<rparr>"
  using assms
  by (simp add: process_payment_def field_is_protocol parse_field_of apply_recover_c2_def
      derive_c2_from_c1_eq)

lemma process_payment_windowed_field:
  assumes L: "crypto_ok L" and wf: "seed_id_wf sid" "c1_wf c"
    and req: "pw_instrument_string req = field_of sid c"
    and s: "lookup_seed bank e sid (pw_requester req) b = Ok s"
  shows "process_payment_windowed L bank e req b =
    Ok \<lparr> wr_receiver_seed_id = sid, wr_amount_cents = pw_amount_cents req,
         wr_candidates = map (\<lambda>t. (t, c2_chars (c2_spec L s t c)))
           (inclusive_range (saturating_sub (pw_current_quantum req) (ucast (pw_tolerance_windows req)))
             (saturating_add (pw_current_quantum req) (ucast (pw_tolerance_windows req)))),
         wr_note = ascii ''settled via institutional substitution (windowed)'' \<rparr>"
proof -
  have "collect_candidates (\<lambda>t. and_then (apply_recover_c2 L s t c) (\<lambda>c2.
      and_then (c2_as_str c2) (\<lambda>x. Ok (t, x)))) ts =
      (Ok (map (\<lambda>t. (t, c2_chars (c2_spec L s t c))) ts) :: _ mcpix)" for ts
    using L wf(2)
    by (intro collect_candidates_Ok) (simp add: apply_recover_c2_def derive_c2_from_c1_eq)
  then show ?thesis
    using assms by (simp add: process_payment_windowed_def field_is_protocol parse_field_of Let_def)
qed

section \<open>Properties\<close>

lemma unat_ucast_u32: "unat (ucast (w :: u32) :: u64) = unat w"
proof -
  have "unat w < 2 ^ 64" using unat_bound [of w] by simp
  then show ?thesis by (simp add: unsigned_ucast_eq take_bit_nat_eq_self)
qed

text \<open>
  C23. The windowed payment offers, in ascending order, one candidate per counter within the
  tolerance of the bank's quantum, each with the code of that counter: none outside, none
  missing. There are \<open>2N + 1\<close> of them exactly when the window stays inside 64 bits.
\<close>
theorem windowed_candidates_cover_the_window:
  assumes "crypto_ok L" and "seed_id_wf sid" and "c1_wf c"
    and "pw_instrument_string req = field_of sid c"
    and "lookup_seed bank e sid (pw_requester req) b = Ok s"
    and q: "q = unat (pw_current_quantum req)" and N: "N = unat (pw_tolerance_windows req)"
  shows "\<exists>r. process_payment_windowed L bank e req b = Ok r \<and> wr_receiver_seed_id r = sid \<and>
    sorted_wrt (<) (map fst (wr_candidates r)) \<and>
    (\<forall>t code. (t, code) \<in> set (wr_candidates r) \<longleftrightarrow>
       q \<le> unat t + N \<and> unat t \<le> q + N \<and> derive_c2_from_c1 L s t c = (Ok (C2 code) :: c2 mcpix)) \<and>
    (length (wr_candidates r) = 2 * N + 1 \<longleftrightarrow> N \<le> q \<and> q + N < 2 ^ 64)"
proof -
  define lo hi where "lo = saturating_sub (pw_current_quantum req) (ucast (pw_tolerance_windows req))"
    and "hi = saturating_add (pw_current_quantum req) (ucast (pw_tolerance_windows req))"
  let ?g = "\<lambda>t. (t, c2_chars (c2_spec L s t c))"
  have lo: "unat lo = q - N" by (simp add: lo_def unat_saturating_sub unat_ucast_u32 q N)
  have hi: "unat hi = min (q + N) (2 ^ 64 - 1)"
    by (simp add: hi_def unat_saturating_add unat_ucast_u32 q N)
  have q64: "q < 2 ^ 64" using unat_bound [of "pw_current_quantum req"] q by simp
  have "(lo \<le> t \<and> t \<le> hi) = (q \<le> unat t + N \<and> unat t \<le> q + N)" for t
    using unat_bound [of t] by (auto simp: word_le_nat_alt lo hi)
  then have mem: "(t, code) \<in> set (map ?g (inclusive_range lo hi)) \<longleftrightarrow>
      q \<le> unat t + N \<and> unat t \<le> q + N \<and> derive_c2_from_c1 L s t c = (Ok (C2 code) :: c2 mcpix)"
    for t code
    using assms(1,3) by (cases "c2_spec L s t c") (auto simp: set_inclusive_range derive_c2_from_c1_eq)
  have "length (inclusive_range lo hi) = 2 * N + 1 \<longleftrightarrow> N \<le> q \<and> q + N < 2 ^ 64"
    using q64 by (auto simp: length_inclusive_range lo hi min_def)
  moreover have "sorted_wrt (<) (map fst (map ?g (inclusive_range lo hi)))"
    using inclusive_range_sorted [of lo hi] by (simp add: comp_def)
  ultimately show ?thesis
    using process_payment_windowed_field [OF assms(1-5)] mem
    by (simp add: lo_def [symmetric] hi_def [symmetric])
qed

definition demo_requester :: requester where
  "demo_requester = \<lparr> institution_id = ascii ''12345678'' \<rparr>"

definition demo_bank :: mem_bank where
  "demo_bank = [SeedId (ascii ''LOJA1'') \<mapsto> demo_seed]"

lemma demo_lookup:
  "lookup_seed mem_bank_ops () (SeedId (ascii ''LOJA1'')) rq demo_bank = Ok demo_seed"
  by (simp add: mem_bank_ops_def bank_lookup_seed_def demo_bank_def)

lemma demo_field_wf:
  "seed_id_wf (SeedId (ascii ''LOJA1''))" "c1_wf (C1 (ascii ''ABCDEFGHJK2''))"
  by (simp_all add: seed_id_wf_def c1_wf_def ascii_def is_alnum_def is_digit_def)

theorem windowed_candidates_cover_the_window_witness:
  "\<exists>r. process_payment_windowed demo_crypto mem_bank_ops ()
      \<lparr> pw_instrument_string = field_of (SeedId (ascii ''LOJA1'')) (C1 (ascii ''ABCDEFGHJK2'')),
        pw_amount_cents = 5, pw_current_quantum = 1, pw_tolerance_windows = 2,
        pw_requester = demo_requester \<rparr> demo_bank = Ok r \<and>
    length (wr_candidates r) \<noteq> 5"
  using windowed_candidates_cover_the_window [OF demo_crypto_ok demo_field_wf _ demo_lookup refl refl,
      of "\<lparr> pw_instrument_string = field_of (SeedId (ascii ''LOJA1'')) (C1 (ascii ''ABCDEFGHJK2'')),
        pw_amount_cents = 5, pw_current_quantum = 1, pw_tolerance_windows = 2,
        pw_requester = demo_requester \<rparr>"]
  by auto

text \<open>
  A field of a newer protocol version is not told apart from a foreign string here: the
  triage on the current prefix runs first, so where the parser reports
  \<open>UnsupportedProtocolVersion\<close> the payment reports \<open>TransportFieldPrefix\<close>, before any
  lookup at the bank.
\<close>
theorem payer_masks_unsupported_version:
  assumes "parse f = Err (UnsupportedProtocolVersion v)" and "pr_instrument_string req = f"
  shows "process_payment L bank e req b = Err TransportFieldPrefix"
proof -
  have "take 8 f \<noteq> version_prefix V1"
  proof
    assume p: "take 8 f = version_prefix V1"
    have len: "26 \<le> length f" "length f \<le> 35" using assms(1) parse_len [of f] by fastforce+
    have an: "\<forall>b \<in> set f. is_alnum b" using assms(1) parse_charset [OF len] by fastforce
    have "parse f = parse_v1 f" using parse_alnum [OF len an] p by simp
    moreover have "parse_v1 f \<noteq> Err (UnsupportedProtocolVersion v)"
    proof (cases "length f = 35")
      case True
      then show ?thesis
        using seed_id_new_Err_cases by (fastforce simp: parse_v1_eq [OF True an] outcome_simps)
    qed (simp add: parse_v1_len)
    ultimately show False using assms(1) by simp
  qed
  then have "\<not> is_protocol_field f"
    by (simp add: is_protocol_field_def starts_with_def PROTOCOL_PREFIX_def numeral_eq_Suc)
  with assms(2) show ?thesis by (simp add: process_payment_def)
qed

theorem payer_masks_unsupported_version_witness:
  "process_payment demo_crypto mem_bank_ops ()
     \<lparr> pr_instrument_string = ascii ''PIXOFFv2LOJA100000000000ABCDEFGHJK2'', pr_amount_cents = 5,
       pr_counter = 1, pr_requester = demo_requester \<rparr> demo_bank = Err TransportFieldPrefix"
proof -
  have "parse (ascii ''PIXOFFv2LOJA100000000000ABCDEFGHJK2'') =
    Err (UnsupportedProtocolVersion (ascii ''PIXOFFv2''))" by code_simp
  then show ?thesis by (rule payer_masks_unsupported_version) simp
qed

end
