(* ===== verification/Backup.thy ===== *)
theory Backup
  imports Crypto
begin

text \<open>
  \<^verbatim>\<open>mcpix-backup\<close> (\<^verbatim>\<open>format.rs\<close>, \<^verbatim>\<open>kdf.rs\<close>, \<^verbatim>\<open>lib.rs\<close>): the encrypted backup of a receiver.

  Argon2id, the AEAD and Base58Check are third-party: they are the fields of \<open>backup_lib\<close>, with
  \<open>backup_lib_ok\<close> for the round trips their documentation promises. A fixed-size buffer is a
  list of that length, filled slot by slot as the code does.
\<close>

record backup_lib =
  argon2_params_valid :: "u32 \<Rightarrow> u32 \<Rightarrow> u32 \<Rightarrow> bool"
  argon2id_hash :: "bytes \<Rightarrow> bytes \<Rightarrow> u32 \<Rightarrow> u32 \<Rightarrow> u32 \<Rightarrow> bytes option"
  chacha :: aead
  bs58check_encode :: "bytes \<Rightarrow> bytes"
  bs58check_decode :: "bytes \<Rightarrow> bytes option"

definition backup_lib_ok :: "backup_lib \<Rightarrow> bool" where
  "backup_lib_ok B \<longleftrightarrow> aead_ok (chacha B) \<and>
     (\<forall>blob. bs58check_decode B (bs58check_encode B blob) = Some blob)"

section \<open>Types\<close>

datatype backup_error =
    Malformed | UnsupportedVersion | DecryptFailed | KdfFailed | InvalidSeedId

type_synonym 'a backup = "(backup_error, 'a) outcome"

datatype counter_mode = Sequential | Quantized

fun mode_as_u8 :: "counter_mode \<Rightarrow> byte" where
  "mode_as_u8 Sequential = 0"
| "mode_as_u8 Quantized = 1"

definition mode_from_u8 :: "byte \<Rightarrow> counter_mode backup" where
  "mode_from_u8 b =
     (if b = 0 then Ok Sequential else if b = 1 then Ok Quantized else Err Malformed)"

record kdf_params =
  m_cost_kib :: u32
  t_cost :: u32
  p_cost :: byte

definition default_strong :: kdf_params where
  "default_strong = \<lparr> m_cost_kib = 64 * 1024, t_cost = 3, p_cost = 1 \<rparr>"

definition default_embed :: kdf_params where
  "default_embed = \<lparr> m_cost_kib = 64, t_cost = 3, p_cost = 1 \<rparr>"

record restored_state =
  rs_seed :: seed
  rs_seed_id :: seed_id
  rs_counter_mode :: counter_mode
  rs_counter_t :: u64

record export_input =
  ei_seed :: seed
  ei_seed_id :: seed_id
  ei_counter_mode :: counter_mode
  ei_counter_t :: u64

definition MAGIC :: bytes where "MAGIC = ascii ''MBKP''"
definition VERSION :: u16 where "VERSION = 0x0001"
definition KDF_ARGON2ID :: byte where "KDF_ARGON2ID = 1"
definition HEADER_LEN :: nat where "HEADER_LEN = 47"
definition PAYLOAD_LEN :: nat where "PAYLOAD_LEN = 59"
definition ENCRYPTED_PAYLOAD_LEN :: nat where "ENCRYPTED_PAYLOAD_LEN = PAYLOAD_LEN + 16"
definition TOTAL_LEN :: nat where "TOTAL_LEN = HEADER_LEN + ENCRYPTED_PAYLOAD_LEN"

lemmas backup_len_defs = HEADER_LEN_def PAYLOAD_LEN_def ENCRYPTED_PAYLOAD_LEN_def TOTAL_LEN_def

section \<open>Header\<close>

definition write_header :: "bytes \<Rightarrow> kdf_params \<Rightarrow> bytes \<Rightarrow> bytes \<Rightarrow> bytes" where
  "write_header buf params salt nonce =
     (let buf = blit 0 MAGIC buf;
          buf = blit 4 (u16_to_be VERSION) buf;
          buf = blit 6 [KDF_ARGON2ID] buf;
          buf = blit 7 (u32_to_be (m_cost_kib params)) buf;
          buf = blit 11 (u32_to_be (t_cost params)) buf;
          buf = blit 15 [p_cost params] buf;
          buf = blit 16 (replicate 3 0) buf;
          buf = blit 19 salt buf
      in blit 35 nonce buf)"

definition read_header :: "bytes \<Rightarrow> (kdf_params \<times> bytes \<times> bytes) backup" where
  "read_header buf =
     (if slice 0 4 buf \<noteq> MAGIC then Err Malformed
      else
        let version = word_from_be [buf ! 4, buf ! 5] in
        if version \<noteq> VERSION then Err UnsupportedVersion
        else if buf ! 6 \<noteq> KDF_ARGON2ID then Err UnsupportedVersion
        else
          let m_cost = word_from_be [buf ! 7, buf ! 8, buf ! 9, buf ! 10];
              t_cost = word_from_be [buf ! 11, buf ! 12, buf ! 13, buf ! 14];
              p_cost = buf ! 15
          in Ok (\<lparr> m_cost_kib = m_cost, t_cost = t_cost, p_cost = p_cost \<rparr>,
                 slice 19 35 buf, slice 35 47 buf))"

section \<open>Payload\<close>

definition write_payload :: "bytes \<Rightarrow> export_input \<Rightarrow> bytes" where
  "write_payload buf input =
     (let buf = blit 0 [0x01] buf;
          buf = blit 1 (seed_as_bytes (ei_seed input)) buf;
          sid = sid_as_str (ei_seed_id input);
          buf = blit (1 + SEED_LEN) [word_of_nat (length sid)] buf;
          sid_off = 1 + SEED_LEN + 1;
          buf = blit sid_off sid buf;
          buf = blit (sid_off + length sid) (replicate (SEED_ID_MAX_LEN - length sid) 0) buf;
          mode_off = sid_off + SEED_ID_MAX_LEN;
          buf = blit mode_off [mode_as_u8 (ei_counter_mode input)] buf
      in blit (mode_off + 1) (u64_to_be (ei_counter_t input)) buf)"

text \<open>\<^verbatim>\<open>PayloadView::parse\<close> checks the version; \<^verbatim>\<open>into_state\<close> reads the rest.\<close>

definition payload_view_parse :: "bytes \<Rightarrow> bytes backup" where
  "payload_view_parse buf = (if buf ! 0 \<noteq> 0x01 then Err UnsupportedVersion else Ok buf)"

definition payload_into_state :: "bytes \<Rightarrow> restored_state backup" where
  "payload_into_state buf =
     (let seed = seed_from_bytes (slice 1 (1 + SEED_LEN) buf);
          sid_len = unat (buf ! (1 + SEED_LEN))
      in if sid_len = 0 \<or> sid_len > SEED_ID_MAX_LEN then Err InvalidSeedId
      else
        let sid_off = 1 + SEED_LEN + 1;
            sid_str = slice sid_off (sid_off + sid_len) buf
        in if \<not> utf8_valid sid_str then Err InvalidSeedId
        else
          and_then (map_err (\<lambda>_. InvalidSeedId) (seed_id_new sid_str)) (\<lambda>sid.
          let mode_off = sid_off + SEED_ID_MAX_LEN in
          and_then (mode_from_u8 (buf ! mode_off)) (\<lambda>mode.
          let t_bytes = slice (mode_off + 1) (mode_off + 9) buf
          in Ok \<lparr> rs_seed = seed, rs_seed_id = sid, rs_counter_mode = mode,
                  rs_counter_t = word_from_be t_bytes \<rparr>)))"

section \<open>Key derivation, export and import\<close>

definition kdf_derive :: "backup_lib \<Rightarrow> bytes \<Rightarrow> bytes \<Rightarrow> kdf_params \<Rightarrow> bytes backup" where
  "kdf_derive B passphrase salt params =
     (if \<not> argon2_params_valid B (m_cost_kib params) (t_cost params) (ucast (p_cost params))
      then Err KdfFailed
      else ok_or KdfFailed
        (argon2id_hash B passphrase salt (m_cost_kib params) (t_cost params) (ucast (p_cost params))))"

text \<open>One filling of a buffer by the operating system's generator.\<close>

definition rng_fill :: "bytes + (nat \<Rightarrow> byte) \<Rightarrow> nat \<Rightarrow> bytes backup" where
  "rng_fill os n = (case os of Inl m \<Rightarrow> Err KdfFailed | Inr stream \<Rightarrow> Ok (map stream [0 ..< n]))"

definition export_with_params ::
  "backup_lib \<Rightarrow> (bytes + (nat \<Rightarrow> byte)) \<times> (bytes + (nat \<Rightarrow> byte)) \<Rightarrow> export_input \<Rightarrow> bytes \<Rightarrow>
   kdf_params \<Rightarrow> bytes backup" where
  "export_with_params B = (\<lambda>(os1, os2) input passphrase params.
     and_then (rng_fill os1 16) (\<lambda>salt.
     and_then (rng_fill os2 12) (\<lambda>nonce.
     let header = write_header (replicate HEADER_LEN 0) params salt nonce in
     and_then (kdf_derive B passphrase salt params) (\<lambda>key.
     let payload = write_payload (replicate PAYLOAD_LEN 0) input in
     and_then (ok_or KdfFailed (aead_encrypt (chacha B) key nonce payload header)) (\<lambda>ct.
     if length ct = ENCRYPTED_PAYLOAD_LEN then Ok (bs58check_encode B (header @ ct)) else Panic)))))"

definition export ::
  "backup_lib \<Rightarrow> (bytes + (nat \<Rightarrow> byte)) \<times> (bytes + (nat \<Rightarrow> byte)) \<Rightarrow> export_input \<Rightarrow> bytes \<Rightarrow>
   bytes backup" where
  "export B os input passphrase = export_with_params B os input passphrase default_strong"

definition export_for_embed ::
  "backup_lib \<Rightarrow> (bytes + (nat \<Rightarrow> byte)) \<times> (bytes + (nat \<Rightarrow> byte)) \<Rightarrow> export_input \<Rightarrow> bytes \<Rightarrow>
   bytes backup" where
  "export_for_embed B os input passphrase = export_with_params B os input passphrase default_embed"

definition export_with_params_pub ::
  "backup_lib \<Rightarrow> (bytes + (nat \<Rightarrow> byte)) \<times> (bytes + (nat \<Rightarrow> byte)) \<Rightarrow> export_input \<Rightarrow> bytes \<Rightarrow>
   kdf_params \<Rightarrow> bytes backup" where
  "export_with_params_pub B os input passphrase params = export_with_params B os input passphrase params"

definition import_backup :: "backup_lib \<Rightarrow> bytes \<Rightarrow> bytes \<Rightarrow> restored_state backup" where
  "import_backup B txt passphrase =
     and_then (ok_or Malformed (bs58check_decode B txt)) (\<lambda>blob.
     if length blob \<noteq> TOTAL_LEN then Err Malformed
     else
       let header = take HEADER_LEN blob;
           ciphertext_and_tag = drop HEADER_LEN blob
       in and_then (read_header header) (\<lambda>(params, salt, nonce).
          and_then (kdf_derive B passphrase salt params) (\<lambda>key.
          and_then (ok_or DecryptFailed
                     (aead_decrypt (chacha B) key nonce ciphertext_and_tag header)) (\<lambda>plaintext.
          if length plaintext \<noteq> PAYLOAD_LEN then Err Malformed
          else and_then (payload_view_parse plaintext) payload_into_state))))"

section \<open>The buffers as concatenations\<close>

lemma write_header_eq:
  assumes "length buf = 47" "length salt = 16" "length nonce = 12"
  shows "write_header buf params salt nonce =
    MAGIC @ u16_to_be VERSION @ [KDF_ARGON2ID] @ u32_to_be (m_cost_kib params)
      @ u32_to_be (t_cost params) @ [p_cost params] @ replicate 3 0 @ salt @ nonce"
proof -
  have "filled 47 (((((((((([] @ MAGIC) @ u16_to_be VERSION) @ [KDF_ARGON2ID])
      @ u32_to_be (m_cost_kib params)) @ u32_to_be (t_cost params)) @ [p_cost params])
      @ replicate 3 0) @ salt) @ nonce)) (write_header buf params salt nonce)"
    unfolding write_header_def Let_def
    by (intro filled_blit filled_Nil) (simp_all add: assms MAGIC_def)
  from filled_all [OF this] assms show ?thesis by (simp add: MAGIC_def)
qed

lemma length_write_header:
  "length buf = 47 \<Longrightarrow> length salt = 16 \<Longrightarrow> length nonce = 12 \<Longrightarrow>
   length (write_header buf params salt nonce) = 47"
  by (simp add: write_header_eq MAGIC_def)

lemma write_payload_eq:
  assumes "length buf = 59" "seed_wf (ei_seed input)" "seed_id_wf (ei_seed_id input)"
  shows "write_payload buf input =
    [0x01] @ seed_as_bytes (ei_seed input)
      @ [word_of_nat (length (sid_as_str (ei_seed_id input)))] @ sid_as_str (ei_seed_id input)
      @ replicate (16 - length (sid_as_str (ei_seed_id input))) 0
      @ [mode_as_u8 (ei_counter_mode input)] @ u64_to_be (ei_counter_t input)"
proof -
  have len: "length (seed_as_bytes (ei_seed input)) = 32"
    "length (sid_as_str (ei_seed_id input)) \<le> 16"
    using assms by (simp_all add: seed_wf_def seed_id_wf_def)
  have "filled 59 ((((((([] @ [0x01]) @ seed_as_bytes (ei_seed input))
      @ [word_of_nat (length (sid_as_str (ei_seed_id input)))]) @ sid_as_str (ei_seed_id input))
      @ replicate (16 - length (sid_as_str (ei_seed_id input))) 0)
      @ [mode_as_u8 (ei_counter_mode input)]) @ u64_to_be (ei_counter_t input))
      (write_payload buf input)"
    unfolding write_payload_def Let_def len_defs
    by (intro filled_blit filled_Nil) (use assms len in simp_all)
  from filled_all [OF this] len show ?thesis by simp
qed

lemma word_from_be2: "word_from_be [u16_to_be v ! 0, u16_to_be v ! 1] = v"
proof -
  have "[u16_to_be v ! 0, u16_to_be v ! 1] = u16_to_be v"
    by (rule nth_equalityI) (auto simp: less_Suc_eq numeral_eq_Suc)
  then show ?thesis by simp
qed

lemma word_from_be4:
  "word_from_be [u32_to_be v ! 0, u32_to_be v ! 1, u32_to_be v ! 2, u32_to_be v ! 3] = v"
proof -
  have "[u32_to_be v ! 0, u32_to_be v ! 1, u32_to_be v ! 2, u32_to_be v ! 3] = u32_to_be v"
    by (rule nth_equalityI) (auto simp: less_Suc_eq numeral_eq_Suc)
  then show ?thesis by simp
qed

lemma length_MAGIC [simp]: "length MAGIC = 4"
  by (simp add: MAGIC_def)

lemma read_write_header:
  assumes "length buf = 47" "length salt = 16" "length nonce = 12"
  shows "read_header (write_header buf params salt nonce) = Ok (params, salt, nonce)"
proof -
  let ?H = "write_header buf params salt nonce"
  note H = write_header_eq [OF assms, of params]
  have "slice 0 4 ?H = MAGIC" by (simp add: H slice_def)
  moreover have "word_from_be [?H ! 4, ?H ! 5] = VERSION"
    using word_from_be2 [of VERSION] by (simp add: H nth_append)
  moreover have "?H ! 6 = KDF_ARGON2ID" by (simp add: H nth_append)
  moreover have "word_from_be [?H ! 7, ?H ! 8, ?H ! 9, ?H ! 10] = m_cost_kib params"
    using word_from_be4 [of "m_cost_kib params"] by (simp add: H nth_append)
  moreover have "word_from_be [?H ! 11, ?H ! 12, ?H ! 13, ?H ! 14] = t_cost params"
    using word_from_be4 [of "t_cost params"] by (simp add: H nth_append)
  moreover have "?H ! 15 = p_cost params" by (simp add: H nth_append)
  moreover have "slice 19 35 ?H = salt" "slice 35 47 ?H = nonce"
    using assms by (simp_all add: H slice_def)
  ultimately show ?thesis by (simp add: read_header_def Let_def)
qed

lemma mode_roundtrip [simp]: "mode_from_u8 (mode_as_u8 m) = Ok m"
  by (cases m) (simp_all add: mode_from_u8_def)

definition input_wf :: "export_input \<Rightarrow> bool" where
  "input_wf i \<longleftrightarrow> seed_wf (ei_seed i) \<and> seed_id_wf (ei_seed_id i)"

definition state_of :: "export_input \<Rightarrow> restored_state" where
  "state_of i = \<lparr> rs_seed = ei_seed i, rs_seed_id = ei_seed_id i,
     rs_counter_mode = ei_counter_mode i, rs_counter_t = ei_counter_t i \<rparr>"

lemma read_write_payload:
  assumes "length buf = 59" "input_wf i"
  shows "and_then (payload_view_parse (write_payload buf i)) payload_into_state = Ok (state_of i)"
proof -
  let ?P = "write_payload buf i" and ?sid = "sid_as_str (ei_seed_id i)"
  have wf: "seed_wf (ei_seed i)" "seed_id_wf (ei_seed_id i)" using assms(2) by (simp_all add: input_wf_def)
  note P = write_payload_eq [OF assms(1) wf]
  have len: "length (seed_as_bytes (ei_seed i)) = 32" "1 \<le> length ?sid" "length ?sid \<le> 16"
    and an: "\<forall>b \<in> set ?sid. is_alnum b"
    using wf by (simp_all add: seed_wf_def seed_id_wf_def)
  have v: "?P ! 0 = 1" by (simp add: P)
  have seed: "slice 1 33 ?P = seed_as_bytes (ei_seed i)" using len by (simp add: P slice_def)
  have n: "unat (?P ! 33) = length ?sid" using len by (simp add: P nth_append unat_of_nat)
  have sid: "slice 34 (34 + length ?sid) ?P = ?sid" using len by (simp add: P slice_def)
  have mode: "?P ! 50 = mode_as_u8 (ei_counter_mode i)" using len by (simp add: P nth_append)
  have t: "slice 51 59 ?P = u64_to_be (ei_counter_t i)" using len by (simp add: P slice_def)
  have pv: "payload_view_parse ?P = Ok ?P" using v by (simp add: payload_view_parse_def)
  have l: "length ?sid \<noteq> 0" "\<not> length ?sid > 16" using len by auto
  show ?thesis
    unfolding pv and_then.simps payload_into_state_def len_defs Let_def
    using l an seed n sid mode t wf(2)
    by (simp add: utf8_valid_alnum seed_id_new_as_str state_of_def seed_from_bytes_def)
qed

lemma export_then_import:
  assumes "backup_lib_ok B" and "input_wf i"
    and "export_with_params B os i passphrase params = Ok txt"
  shows "import_backup B txt passphrase = Ok (state_of i)"
proof -
  obtain os1 os2 where os: "os = (os1, os2)" by (cases os)
  from assms(3) obtain salt nonce key ct where
    salt: "rng_fill os1 16 = Ok salt" and nonce: "rng_fill os2 12 = Ok nonce"
    and key: "kdf_derive B passphrase salt params = Ok key"
    and ct: "aead_encrypt (chacha B) key nonce (write_payload (replicate 59 0) i)
        (write_header (replicate 47 0) params salt nonce) = Some ct" "length ct = 75"
    and tx: "txt = bs58check_encode B (write_header (replicate 47 0) params salt nonce @ ct)"
    by (auto simp: os export_with_params_def outcome_simps backup_len_defs Let_def split: if_splits)
  have len: "length salt = 16" "length nonce = 12"
    using salt nonce by (auto simp: rng_fill_def split: sum.splits)
  let ?H = "write_header (replicate 47 0) params salt nonce"
  have H: "length ?H = 47" "read_header ?H = Ok (params, salt, nonce)"
    using len by (simp_all add: length_write_header read_write_header)
  have dec: "aead_decrypt (chacha B) key nonce ct ?H = Some (write_payload (replicate 59 0) i)"
    using assms(1) ct(1) by (auto simp: backup_lib_ok_def aead_ok_def)
  have wf: "seed_wf (ei_seed i)" "seed_id_wf (ei_seed_id i)" using assms(2) by (simp_all add: input_wf_def)
  have P: "length (write_payload (replicate 59 0) i) = 59"
    using wf write_payload_eq [of "replicate 59 0" i] by (simp add: seed_wf_def seed_id_wf_def)
  have b58: "bs58check_decode B txt = Some (?H @ ct)" using assms(1) tx by (simp add: backup_lib_ok_def)
  show ?thesis
    using H ct(2) key dec P read_write_payload [OF _ assms(2), of "replicate 59 0"]
    by (simp add: import_backup_def b58 backup_len_defs)
qed

section \<open>A concrete instance\<close>

definition demo_backup :: backup_lib where
  "demo_backup =
     \<lparr> argon2_params_valid = \<lambda>m t p. 0 < t, argon2id_hash = \<lambda>pass salt m t p.
         Some (replicate 32 (foldl (+) 5 (pass @ salt))),
       chacha = demo_aead, bs58check_encode = \<lambda>x. x, bs58check_decode = Some \<rparr>"

lemma demo_backup_ok [simp]: "backup_lib_ok demo_backup"
  by (simp add: backup_lib_ok_def demo_backup_def)

definition demo_input :: export_input where
  "demo_input = \<lparr> ei_seed = demo_seed, ei_seed_id = SeedId (ascii ''R1''),
     ei_counter_mode = Sequential, ei_counter_t = 41 \<rparr>"

lemma demo_input_wf [simp]: "input_wf demo_input"
  by (simp add: input_wf_def demo_input_def seed_id_wf_def ascii_def is_alnum_def is_digit_def)

lemma demo_export: "\<exists>b. export_with_params demo_backup (Inr (\<lambda>_. 3), Inr (\<lambda>_. 4)) demo_input
    (ascii ''pw'') default_embed = Ok b"
proof -
  have l: "length (write_payload (replicate 59 0) demo_input) = 59"
    using write_payload_eq [of "replicate 59 0" demo_input] demo_input_wf
    by (simp add: input_wf_def seed_wf_def seed_id_wf_def)
  then show ?thesis
    by (simp add: export_with_params_def rng_fill_def kdf_derive_def demo_backup_def default_embed_def
        demo_aead_def demo_tag_def backup_len_defs Let_def)
qed

lemma import_not_Panic: "import_backup B txt passphrase \<noteq> Panic"
proof -
  have np: "payload_into_state b \<noteq> Panic" "payload_view_parse b \<noteq> Panic" "read_header b \<noteq> Panic"
    for b
    by (auto simp: payload_into_state_def payload_view_parse_def read_header_def mode_from_u8_def
        Let_def outcome_simps split: if_splits)
  have kdf: "kdf_derive B passphrase salt params \<noteq> Panic" for salt params
    by (simp add: kdf_derive_def)
  show ?thesis
    using np kdf
    by (auto simp: import_backup_def outcome_simps Let_def payload_view_parse_def backup_len_defs
        split: if_splits)
qed

lemma import_wf:
  assumes "import_backup B txt passphrase = Ok st"
  shows "seed_wf (rs_seed st) \<and> seed_id_wf (rs_seed_id st)"
proof -
  have wf: "seed_wf (rs_seed s) \<and> seed_id_wf (rs_seed_id s)"
    if "length b = 59" "payload_into_state b = Ok s" for b s
    using that by (auto simp: payload_into_state_def Let_def outcome_simps seed_wf_def
        seed_from_bytes_def len_defs split: if_splits)
  show ?thesis
    using wf assms
    by (auto simp: import_backup_def outcome_simps Let_def payload_view_parse_def backup_len_defs
        split: if_splits)
qed

section \<open>Properties\<close>

text \<open>
  C20. What is exported is restored: importing a backup with the passphrase it was exported
  under gives back the seed, the identifier, the mode and the counter, for any Argon2id
  parameters, salt and nonce.
\<close>
theorem backup_roundtrip:
  assumes "backup_lib_ok B" and "input_wf i"
    and "export_with_params B os i passphrase params = Ok txt"
  shows "import_backup B txt passphrase = Ok (state_of i)"
  using assms by (rule export_then_import)

text \<open>
  Import never panics, whatever the text, the passphrase and the third-party functions
  return, and what it returns is well formed: a 32-byte seed and a valid identifier.
\<close>
theorem import_total_and_wf:
  "import_backup B txt passphrase \<noteq> Panic \<and>
   (import_backup B txt passphrase = Ok st \<longrightarrow> seed_wf (rs_seed st) \<and> seed_id_wf (rs_seed_id st))"
  using import_not_Panic import_wf by blast

theorem backup_roundtrip_witness:
  "\<exists>b. export_for_embed demo_backup (Inr (\<lambda>_. 3), Inr (\<lambda>_. 4)) demo_input (ascii ''pw'') = Ok b \<and>
     import_backup demo_backup b (ascii ''pw'') = Ok (state_of demo_input)"
proof -
  obtain b where b: "export_with_params demo_backup (Inr (\<lambda>_. 3), Inr (\<lambda>_. 4)) demo_input
    (ascii ''pw'') default_embed = Ok b" using demo_export by blast
  from backup_roundtrip [OF demo_backup_ok demo_input_wf b] b show ?thesis
    by (simp add: export_for_embed_def)
qed

theorem import_total_and_wf_witness:
  "\<exists>b. import_backup demo_backup b (ascii ''pw'') = Ok (state_of demo_input) \<and>
     seed_wf (rs_seed (state_of demo_input)) \<and> seed_id_wf (rs_seed_id (state_of demo_input))"
proof -
  obtain b where b: "export_with_params demo_backup (Inr (\<lambda>_. 3), Inr (\<lambda>_. 4)) demo_input
    (ascii ''pw'') default_embed = Ok b" using demo_export by blast
  note i = export_then_import [OF demo_backup_ok demo_input_wf b]
  from import_total_and_wf [of demo_backup b "ascii ''pw''" "state_of demo_input"] i
  show ?thesis by blast
qed

end
