(* ===== verification/Embed.thy ===== *)
theory Embed
  imports Backup TransportField
begin

text \<open>
  \<^verbatim>\<open>mcpix-embed\<close>: \<^verbatim>\<open>types.rs\<close>, \<^verbatim>\<open>crypto.rs\<close>, \<^verbatim>\<open>transport_field.rs\<close> and \<^verbatim>\<open>restore.rs\<close>, the second
  implementation of the protocol, for targets without an allocator. Its value types have the
  same contents as those of the core and share their datatypes; every function is translated
  from its own source, and the theorems say that it computes what the host computes.
\<close>

section \<open>Types\<close>

datatype embed_error =
    ESeedIdLength nat
  | ESeedIdCharset
  | EBufferLen nat nat
  | ETransportFieldLayout

type_synonym 'a embed = "(embed_error, 'a) outcome"

definition C1_LEN :: nat where "C1_LEN = 11"
definition C2_LEN :: nat where "C2_LEN = 11"

text \<open>\<^verbatim>\<open>heapless::Vec::extend_from_slice\<close> fails when the capacity is exceeded.\<close>

definition embed_seed_id_new :: "bytes \<Rightarrow> seed_id embed" where
  "embed_seed_id_new s =
     (if s = [] \<or> length s > SEED_ID_MAX_LEN then Err (ESeedIdLength (length s))
      else if \<not> list_all (\<lambda>b. is_alnum b \<and> b \<noteq> 0x30) s then Err ESeedIdCharset
      else if length s > SEED_ID_MAX_LEN then Err (ESeedIdLength (length s))
      else Ok (SeedId s))"

definition embed_seed_id_as_str :: "seed_id \<Rightarrow> ('e, bytes) outcome" where
  "embed_seed_id_as_str sid = (if utf8_valid (sid_as_str sid) then Ok (sid_as_str sid) else Panic)"

definition embed_seed_id_len :: "seed_id \<Rightarrow> nat" where
  "embed_seed_id_len sid = length (sid_as_str sid)"

definition embed_seed_id_is_empty :: "seed_id \<Rightarrow> bool" where
  "embed_seed_id_is_empty sid \<longleftrightarrow> sid_as_str sid = []"

definition embed_c1_as_str :: "c1 \<Rightarrow> ('e, bytes) outcome" where
  "embed_c1_as_str c = (if utf8_valid (c1_chars c) then Ok (c1_chars c) else Panic)"

definition embed_c2_as_str :: "c2 \<Rightarrow> ('e, bytes) outcome" where
  "embed_c2_as_str c = (if utf8_valid (c2_chars c) then Ok (c2_chars c) else Panic)"

text \<open>What \<^verbatim>\<open>Debug\<close> writes: the seed and \<open>C2\<close> are secrets.\<close>

definition embed_seed_debug :: "seed \<Rightarrow> bytes" where
  "embed_seed_debug s = ascii ''Seed(REDACTED)''"

definition embed_seed_id_debug :: "seed_id \<Rightarrow> ('e, bytes) outcome" where
  "embed_seed_id_debug sid =
     map_ok (\<lambda>s. ascii ''SeedId('' @ s @ ascii '')'') (embed_seed_id_as_str sid)"

definition embed_c1_debug :: "c1 \<Rightarrow> ('e, bytes) outcome" where
  "embed_c1_debug c = map_ok (\<lambda>s. ascii ''C1('' @ s @ ascii '')'') (embed_c1_as_str c)"

definition embed_c2_debug :: "c2 \<Rightarrow> bytes" where
  "embed_c2_debug c = ascii ''C2(REDACTED)''"

lemma embed_strings_Ok [simp]:
  "seed_id_wf sid \<Longrightarrow> embed_seed_id_debug sid = Ok (ascii ''SeedId('' @ sid_as_str sid @ ascii '')'')"
  "c1_wf c \<Longrightarrow> embed_c1_as_str c = Ok (c1_chars c)"
  "c1_wf c \<Longrightarrow> embed_c1_debug c = Ok (ascii ''C1('' @ c1_chars c @ ascii '')'')"
  "c2_wf d \<Longrightarrow> embed_c2_as_str d = Ok (c2_chars d)"
  by (auto simp: embed_seed_id_debug_def embed_seed_id_as_str_def embed_c1_debug_def embed_c1_as_str_def
      embed_c2_as_str_def c1_wf_def c2_wf_def seed_id_wf_def utf8_valid_alnum)

section \<open>Cryptography\<close>

definition E_ALPHANUMERIC :: bytes where
  "E_ALPHANUMERIC = ascii ''ABCDEFGHJKLMNPQRSTUVWXYZ23456789''"

definition E_DOMAIN_C1 :: bytes where "E_DOMAIN_C1 = ascii ''mcpix/v1/c1''"
definition E_DOMAIN_C2 :: bytes where "E_DOMAIN_C2 = ascii ''mcpix/v1/c2''"

function embed_refill :: "bytes \<Rightarrow> u32 \<Rightarrow> nat \<Rightarrow> nat \<Rightarrow> ('e, u32 \<times> nat \<times> nat) outcome" where
  "embed_refill bs acc bits byte_idx =
     (if bits < 5
      then and_then (index_oc bs byte_idx)
             (\<lambda>b. embed_refill bs (push_bit 8 acc OR ucast b) (bits + 8) (byte_idx + 1))
      else Ok (acc, bits, byte_idx))"
  by pat_completeness auto
termination by (relation "measure (\<lambda>(_, _, bits, _). 5 - bits)") auto

declare embed_refill.simps [simp del]

text \<open>\<open>fuel\<close> counts the slots of the \<open>N\<close>-element array that are still to be written.\<close>

fun embed_encode_loop :: "bytes \<Rightarrow> nat \<Rightarrow> u32 \<Rightarrow> nat \<Rightarrow> nat \<Rightarrow> ('e, bytes) outcome" where
  "embed_encode_loop bs 0 acc bits byte_idx = Ok []"
| "embed_encode_loop bs (Suc slots) acc bits byte_idx =
     and_then (embed_refill bs acc bits byte_idx) (\<lambda>(acc, bits, byte_idx).
       let idx = unat (drop_bit (bits - 5) acc AND 0b11111);
           bits = bits - 5;
           acc = acc AND (push_bit bits 1 - 1)
       in and_then (index_oc E_ALPHANUMERIC idx) (\<lambda>ch.
            and_then (embed_encode_loop bs slots acc bits byte_idx) (\<lambda>rest. Ok (ch # rest))))"

definition embed_encode_alphanumeric :: "nat \<Rightarrow> bytes \<Rightarrow> ('e, bytes) outcome" where
  "embed_encode_alphanumeric n bs = embed_encode_loop bs n 0 0 0"

definition embed_hmac_chunks :: "crypto_lib \<Rightarrow> seed \<Rightarrow> bytes list \<Rightarrow> bytes" where
  "embed_hmac_chunks L s chunks = hmac_sha256 L (seed_as_bytes s) (concat chunks)"

definition embed_derive_c2_from_c1 :: "crypto_lib \<Rightarrow> seed \<Rightarrow> u64 \<Rightarrow> c1 \<Rightarrow> ('e, c2) outcome" where
  "embed_derive_c2_from_c1 L s counter c1 =
     (let t = u64_to_be counter;
          c2_mac = embed_hmac_chunks L s [E_DOMAIN_C2, t, c1_chars c1]
      in map_ok C2 (embed_encode_alphanumeric C2_LEN c2_mac))"

definition embed_derive_pair :: "crypto_lib \<Rightarrow> seed \<Rightarrow> u64 \<Rightarrow> ('e, c1 \<times> c2) outcome" where
  "embed_derive_pair L s counter =
     (let t = u64_to_be counter;
          c1_mac = embed_hmac_chunks L s [E_DOMAIN_C1, t]
      in and_then (embed_encode_alphanumeric C1_LEN c1_mac) (\<lambda>c1_chars.
         let c1 = C1 c1_chars in
         and_then (embed_derive_c2_from_c1 L s counter c1) (\<lambda>c2. Ok (c1, c2))))"

definition embed_verify_c2 :: "crypto_lib \<Rightarrow> c2 \<Rightarrow> c2 \<Rightarrow> bool" where
  "embed_verify_c2 L expected presented = ct_eq L (c2_chars expected) (c2_chars presented)"

section \<open>Transport field\<close>

definition E_PROTOCOL_PREFIX :: bytes where "E_PROTOCOL_PREFIX = ascii ''PIXOFFv1''"
definition E_PROTOCOL_PREFIX_LEN :: nat where "E_PROTOCOL_PREFIX_LEN = 8"
definition E_TRANSPORT_FIELD_LEN :: nat where
  "E_TRANSPORT_FIELD_LEN = E_PROTOCOL_PREFIX_LEN + SEED_ID_MAX_LEN + C1_LEN"
definition E_SEED_ID_PAD :: byte where "E_SEED_ID_PAD = 0x30"

lemmas embed_len_defs = E_TRANSPORT_FIELD_LEN_def E_PROTOCOL_PREFIX_LEN_def SEED_ID_MAX_LEN_def
  C1_LEN_def C2_LEN_def

definition encode_into :: "seed_id \<Rightarrow> c1 \<Rightarrow> bytes \<Rightarrow> ('e, bytes) outcome" where
  "encode_into sid c out =
     (let out = blit 0 E_PROTOCOL_PREFIX out;
          sid_start = E_PROTOCOL_PREFIX_LEN;
          sid_end = sid_start + length (sid_as_str sid);
          out = blit sid_start (sid_as_str sid) out;
          out = blit sid_end
            (replicate (E_PROTOCOL_PREFIX_LEN + SEED_ID_MAX_LEN - sid_end) E_SEED_ID_PAD) out;
          c1_start = E_PROTOCOL_PREFIX_LEN + SEED_ID_MAX_LEN;
          out = blit c1_start (c1_chars c) out
      in if utf8_valid out then Ok out else Panic)"

text \<open>The loop that moves the end of the slot over its padding.\<close>

fun trim_slot_end :: "bytes \<Rightarrow> nat \<Rightarrow> nat" where
  "trim_slot_end slot 0 = 0"
| "trim_slot_end slot (Suc sid_end) =
     (if slot ! sid_end = E_SEED_ID_PAD then trim_slot_end slot sid_end else Suc sid_end)"

definition parse_into :: "bytes \<Rightarrow> (seed_id \<times> c1) embed" where
  "parse_into field =
     (if length field \<noteq> E_TRANSPORT_FIELD_LEN
      then Err (EBufferLen E_TRANSPORT_FIELD_LEN (length field))
      else if \<not> list_all is_alnum field then Err ETransportFieldLayout
      else if take E_PROTOCOL_PREFIX_LEN field \<noteq> E_PROTOCOL_PREFIX then Err ETransportFieldLayout
      else
        let sid_slot = slice E_PROTOCOL_PREFIX_LEN (E_PROTOCOL_PREFIX_LEN + SEED_ID_MAX_LEN) field;
            sid_end = trim_slot_end sid_slot (length sid_slot)
        in if \<not> utf8_valid (take sid_end sid_slot) then Err ETransportFieldLayout
           else and_then (embed_seed_id_new (take sid_end sid_slot)) (\<lambda>sid.
             and_then (copy_from_slice_oc C1_LEN
                         (drop (E_PROTOCOL_PREFIX_LEN + SEED_ID_MAX_LEN) field)) (\<lambda>c1_buf.
             Ok (sid, C1 c1_buf))))"

section \<open>Restore\<close>

text \<open>The error type of \<^verbatim>\<open>restore.rs\<close> has the cases of the host's, and so has the counter mode.\<close>

datatype restore_error =
    RMalformed | RUnsupportedVersion | RDecryptFailed | RKdfFailed | RInvalidSeedId

type_synonym 'a restore = "(restore_error, 'a) outcome"

definition E_MAGIC :: bytes where "E_MAGIC = ascii ''MBKP''"
definition E_VERSION :: u16 where "E_VERSION = 0x0001"
definition E_KDF_ARGON2ID :: byte where "E_KDF_ARGON2ID = 1"
definition E_PAYLOAD_VERSION :: byte where "E_PAYLOAD_VERSION = 0x01"
definition E_HEADER_LEN :: nat where "E_HEADER_LEN = 47"
definition E_PAYLOAD_LEN :: nat where "E_PAYLOAD_LEN = 59"
definition E_ENCRYPTED_PAYLOAD_LEN :: nat where "E_ENCRYPTED_PAYLOAD_LEN = E_PAYLOAD_LEN + 16"
definition E_TOTAL_LEN :: nat where "E_TOTAL_LEN = E_HEADER_LEN + E_ENCRYPTED_PAYLOAD_LEN"

definition embed_mode_from_u8 :: "byte \<Rightarrow> counter_mode restore" where
  "embed_mode_from_u8 b =
     (if b = 0 then Ok Sequential else if b = 1 then Ok Quantized else Err RMalformed)"

record header_fields =
  hf_m_cost_kib :: u32
  hf_t_cost :: u32
  hf_p_cost :: byte
  hf_salt :: bytes
  hf_nonce_bytes :: bytes

definition parse_header :: "bytes \<Rightarrow> header_fields restore" where
  "parse_header buf =
     (if slice 0 4 buf \<noteq> E_MAGIC then Err RMalformed
      else
        let version = word_from_be [buf ! 4, buf ! 5] in
        if version \<noteq> E_VERSION then Err RUnsupportedVersion
        else if buf ! 6 \<noteq> E_KDF_ARGON2ID then Err RUnsupportedVersion
        else Ok \<lparr> hf_m_cost_kib = word_from_be [buf ! 7, buf ! 8, buf ! 9, buf ! 10],
                  hf_t_cost = word_from_be [buf ! 11, buf ! 12, buf ! 13, buf ! 14],
                  hf_p_cost = buf ! 15, hf_salt = slice 19 35 buf,
                  hf_nonce_bytes = slice 35 47 buf \<rparr>)"

definition derive_argon2id :: "backup_lib \<Rightarrow> bytes \<Rightarrow> bytes \<Rightarrow> u32 \<Rightarrow> u32 \<Rightarrow> byte \<Rightarrow> bytes restore" where
  "derive_argon2id B passphrase salt m t p =
     (if \<not> argon2_params_valid B m t (ucast p) then Err RKdfFailed
      else ok_or RKdfFailed (argon2id_hash B passphrase salt m t (ucast p)))"

definition parse_payload :: "bytes \<Rightarrow> restored_state restore" where
  "parse_payload buf =
     (if buf ! 0 \<noteq> E_PAYLOAD_VERSION then Err RUnsupportedVersion
      else
        let seed = seed_from_bytes (slice 1 (1 + SEED_LEN) buf);
            sid_len = unat (buf ! (1 + SEED_LEN))
        in if sid_len = 0 \<or> sid_len > SEED_ID_MAX_LEN then Err RInvalidSeedId
        else
          let sid_off = 1 + SEED_LEN + 1;
              sid_str = slice sid_off (sid_off + sid_len) buf
          in if \<not> utf8_valid sid_str then Err RInvalidSeedId
          else
            and_then (map_err (\<lambda>_. RInvalidSeedId) (embed_seed_id_new sid_str)) (\<lambda>sid.
            let mode_off = sid_off + SEED_ID_MAX_LEN in
            and_then (embed_mode_from_u8 (buf ! mode_off)) (\<lambda>mode.
            let t_bytes = slice (mode_off + 1) (mode_off + 9) buf
            in Ok \<lparr> rs_seed = seed, rs_seed_id = sid, rs_counter_mode = mode,
                    rs_counter_t = word_from_be t_bytes \<rparr>)))"

definition embed_import :: "backup_lib \<Rightarrow> bytes \<Rightarrow> bytes \<Rightarrow> restored_state restore" where
  "embed_import B txt passphrase =
     and_then (ok_or RMalformed (bs58check_decode B txt)) (\<lambda>blob.
     if length blob \<noteq> E_TOTAL_LEN then Err RMalformed
     else
       let header = take E_HEADER_LEN blob in
       and_then (parse_header header) (\<lambda>h.
       and_then (derive_argon2id B passphrase (hf_salt h) (hf_m_cost_kib h) (hf_t_cost h)
                   (hf_p_cost h)) (\<lambda>key.
       and_then (ok_or RDecryptFailed
                   (aead_decrypt (chacha B) key (hf_nonce_bytes h) (drop E_HEADER_LEN blob) header))
         (\<lambda>plaintext.
       if length plaintext \<noteq> E_PAYLOAD_LEN then Err RMalformed else parse_payload plaintext))))"

section \<open>The two implementations agree\<close>

lemma embed_refill_eq: "embed_refill bs acc bits i = refill bs acc bits i"
proof (induction bs acc bits i rule: refill.induct)
  case (1 bs acc bits i)
  then show ?case
    by (cases "index_oc bs i :: ('a, byte) outcome")
      (simp_all add: embed_refill.simps [of bs acc bits i] refill.simps [of bs acc bits i])
qed

lemma embed_encode_loop_eq: "embed_encode_loop bs n acc bits i = encode_loop bs n acc bits i"
  by (induction n arbitrary: acc bits i)
    (simp_all add: embed_refill_eq E_ALPHANUMERIC_def ALPHANUMERIC_def)

lemma embed_encode_eq:
  "5 * n \<le> 8 * length bs \<Longrightarrow> embed_encode_alphanumeric n bs = Ok (encode_spec bs n)"
proof -
  assume n: "5 * n \<le> 8 * length bs"
  have "acc_inv bs 0 0 0 0" by (simp add: acc_inv_def)
  with n show ?thesis
    by (simp add: embed_encode_alphanumeric_def embed_encode_loop_eq encode_spec_def
        encode_loop_correct [where k = 0])
qed

lemma embed_domains [simp]: "E_DOMAIN_C1 = DOMAIN_C1" "E_DOMAIN_C2 = DOMAIN_C2"
  by (simp_all add: E_DOMAIN_C1_def E_DOMAIN_C2_def DOMAIN_C1_def DOMAIN_C2_def)

lemma embed_derive_c2_eq:
  "crypto_ok L \<Longrightarrow> embed_derive_c2_from_c1 L s t c = Ok (c2_spec L s t c)"
  by (simp add: embed_derive_c2_from_c1_def embed_hmac_chunks_def C2_LEN_def embed_encode_eq
      c2_spec_def)

lemma embed_derive_pair_eq:
  "crypto_ok L \<Longrightarrow> embed_derive_pair L s t = Ok (c1_spec L s t, c2_spec L s t (c1_spec L s t))"
  by (simp add: embed_derive_pair_def embed_hmac_chunks_def C1_LEN_def embed_encode_eq Let_def
      embed_derive_c2_eq c1_spec_def)

lemma embed_seed_id_new_Ok_iff [outcome_simps]:
  "embed_seed_id_new v = Ok i \<longleftrightarrow> i = SeedId v \<and> seed_id_wf (SeedId v)"
  by (cases v) (auto simp: embed_seed_id_new_def seed_id_wf_def len_defs list_all_iff)

lemma embed_seed_id_new_not_Panic [simp]: "embed_seed_id_new v \<noteq> Panic"
  by (simp add: embed_seed_id_new_def)

lemma embed_seed_id_new_map:
  "map_err (\<lambda>_. e) (embed_seed_id_new v) = map_err f (map_err (\<lambda>_. d) (seed_id_new v))"
  if "f d = e"
proof (cases "seed_id_wf (SeedId v)")
  case True
  then have "embed_seed_id_new v = Ok (SeedId v)" "seed_id_new v = Ok (SeedId v)"
    by (simp_all add: embed_seed_id_new_Ok_iff seed_id_new_Ok_iff)
  then show ?thesis by simp
next
  case False
  then obtain a b where "embed_seed_id_new v = Err a" "seed_id_new v = Err b"
    using embed_seed_id_new_not_Panic [of v] seed_id_new_not_Panic [of v]
      embed_seed_id_new_Ok_iff [of v] seed_id_new_Ok_iff [of v]
    by (metis outcome.exhaust)
  with that show ?thesis by simp
qed

lemma encode_into_eq:
  assumes "seed_id_wf sid" "c1_wf c" "length out = 35"
  shows "encode_into sid c out = Ok (field_of sid c)"
proof -
  have len: "length (sid_as_str sid) \<le> 16" "length (c1_chars c) = 11"
    using assms by (simp_all add: seed_id_wf_def c1_wf_def)
  define out' where "out' = blit 24 (c1_chars c) (blit (8 + length (sid_as_str sid))
    (replicate (16 - length (sid_as_str sid)) 0x30)
    (blit 8 (sid_as_str sid) (blit 0 E_PROTOCOL_PREFIX out)))"
  have "filled 35 (((([] @ E_PROTOCOL_PREFIX) @ sid_as_str sid)
      @ replicate (16 - length (sid_as_str sid)) 0x30) @ c1_chars c) out'"
    unfolding out'_def
    by (intro filled_blit filled_Nil) (use assms len in \<open>simp_all add: E_PROTOCOL_PREFIX_def\<close>)
  from filled_all [OF this] len have "out' = field_of sid c"
    by (simp add: E_PROTOCOL_PREFIX_def field_of_def)
  moreover have "utf8_valid (field_of sid c)"
    using field_of_alnum [OF assms(1,2)] by (rule utf8_valid_alnum)
  ultimately show ?thesis
    unfolding encode_into_def Let_def embed_len_defs E_SEED_ID_PAD_def
    by (simp add: out'_def [symmetric])
qed

lemma take_trim_slot_end:
  "n \<le> length slot \<Longrightarrow> take (trim_slot_end slot n) slot = trim_end_matches 0x30 (take n slot)"
proof (induction n)
  case 0
  show ?case by (simp add: trim_end_matches_def)
next
  case (Suc n)
  then show ?case
    by (simp add: E_SEED_ID_PAD_def take_Suc_conv_app_nth trim_end_matches_def)
qed

lemma parse_into_Ok_iff:
  "parse_into f = Ok (sid, c) \<longleftrightarrow>
   parse f = Ok \<lparr> pf_seed_id = sid, pf_c1 = c, pf_version = V1 \<rparr>"
proof (cases "length f = 35 \<and> (\<forall>b \<in> set f. is_alnum b) \<and> take 8 f = ascii ''PIXOFFv1''")
  case False
  have "parse_into f \<noteq> Ok (sid, c)"
    using False
    by (auto simp: parse_into_def embed_len_defs E_PROTOCOL_PREFIX_def list_all_iff)
  moreover have "parse f \<noteq> Ok \<lparr> pf_seed_id = sid, pf_c1 = c, pf_version = V1 \<rparr>"
  proof
    assume p: "parse f = Ok \<lparr> pf_seed_id = sid, pf_c1 = c, pf_version = V1 \<rparr>"
    then have "f = field_of sid c" "seed_id_wf sid" "c1_wf c" using parse_Ok_field_of [OF p] by auto
    then show False
      using False length_field_of [of sid c] field_of_alnum [of sid c] by (simp add: field_of_def)
  qed
  ultimately show ?thesis by simp
next
  case True
  then have len: "length f = 35" and an: "\<forall>b \<in> set f. is_alnum b"
    and pre: "take 8 f = version_prefix V1" by auto
  have slot: "take (trim_slot_end (slice 8 24 f) 16) (slice 8 24 f) = sid_slot f"
    using take_trim_slot_end [of 16 "slice 8 24 f"] len by (simp add: sid_slot_def slice_def)
  have "set (sid_slot f) \<subseteq> set f"
    unfolding sid_slot_def using set_trim_end_matches set_take_subset set_drop_subset by fast
  then have "utf8_valid (sid_slot f)" using an by (intro utf8_valid_alnum) blast
  then have "parse_into f =
      and_then (embed_seed_id_new (sid_slot f)) (\<lambda>sid. Ok (sid, C1 (drop 24 f)))"
    using len an True slot
    by (simp add: parse_into_def embed_len_defs E_PROTOCOL_PREFIX_def list_all_iff
        copy_from_slice_oc_def Let_def)
  moreover have "parse f = map_ok (\<lambda>sid. \<lparr> pf_seed_id = sid, pf_c1 = C1 (drop 24 f),
      pf_version = V1 \<rparr>) (seed_id_new (sid_slot f))"
    using parse_alnum [of f] parse_v1_eq [OF len an] len an pre by simp
  ultimately show ?thesis by (auto simp: outcome_simps)
qed

fun restore_error_of :: "backup_error \<Rightarrow> restore_error" where
  "restore_error_of Malformed = RMalformed"
| "restore_error_of UnsupportedVersion = RUnsupportedVersion"
| "restore_error_of DecryptFailed = RDecryptFailed"
| "restore_error_of KdfFailed = RKdfFailed"
| "restore_error_of InvalidSeedId = RInvalidSeedId"

lemma map_err_and_then: "map_err f (and_then r k) = and_then (map_err f r) (\<lambda>v. map_err f (k v))"
  by (cases r) auto

lemma map_err_ok_or: "map_err f (ok_or e p) = ok_or (f e) p"
  by (cases p) auto

lemma embed_mode_eq: "embed_mode_from_u8 b = map_err restore_error_of (mode_from_u8 b)"
  by (simp add: embed_mode_from_u8_def mode_from_u8_def)

lemma derive_argon2id_eq:
  "derive_argon2id B pass salt (m_cost_kib p) (t_cost p) (p_cost p) =
   map_err restore_error_of (kdf_derive B pass salt p)"
  by (simp add: derive_argon2id_def kdf_derive_def map_err_ok_or)

lemma parse_payload_eq:
  "parse_payload buf = map_err restore_error_of (and_then (payload_view_parse buf) payload_into_state)"
proof (cases "buf ! 0 = 1")
  case False
  then show ?thesis
    by (simp add: parse_payload_def payload_view_parse_def E_PAYLOAD_VERSION_def)
next
  case True
  let ?sid = "slice (1 + 32 + 1) (1 + 32 + 1 + unat (buf ! (1 + 32))) buf"
  have "map_err (\<lambda>_. RInvalidSeedId) (embed_seed_id_new ?sid) =
      map_err restore_error_of (map_err (\<lambda>_. InvalidSeedId) (seed_id_new ?sid))"
    by (rule embed_seed_id_new_map) simp
  with True show ?thesis
    by (simp add: parse_payload_def payload_view_parse_def E_PAYLOAD_VERSION_def
        payload_into_state_def len_defs Let_def map_err_and_then embed_mode_eq)
qed

lemma parse_header_eq:
  "parse_header buf = map_ok (\<lambda>(p, salt, nonce).
     \<lparr> hf_m_cost_kib = m_cost_kib p, hf_t_cost = t_cost p, hf_p_cost = p_cost p, hf_salt = salt,
       hf_nonce_bytes = nonce \<rparr>) (map_err restore_error_of (read_header buf))"
  by (simp add: parse_header_def read_header_def Let_def E_MAGIC_def MAGIC_def E_VERSION_def
      VERSION_def E_KDF_ARGON2ID_def KDF_ARGON2ID_def)

lemma embed_import_eq:
  "embed_import B txt pass = map_err restore_error_of (import_backup B txt pass)"
proof (cases "bs58check_decode B txt")
  case None
  then show ?thesis by (simp add: embed_import_def import_backup_def)
next
  case (Some blob)
  note b58 = this
  show ?thesis
  proof (cases "length blob = 122")
    case False
    with b58 show ?thesis
      by (simp add: embed_import_def import_backup_def E_TOTAL_LEN_def E_ENCRYPTED_PAYLOAD_LEN_def
          E_HEADER_LEN_def E_PAYLOAD_LEN_def backup_len_defs)
  next
    case True
    show ?thesis
    proof (cases "read_header (take 47 blob)")
      case (Ok h)
      obtain p salt nonce where h: "h = (p, salt, nonce)" by (metis surj_pair)
      have inner: "(if length v \<noteq> 59 then Err RMalformed else parse_payload v) =
          map_err restore_error_of (if length v \<noteq> 59 then Err Malformed
            else and_then (payload_view_parse v) payload_into_state)" for v
        by (simp add: parse_payload_eq)
      show ?thesis
        using b58 True Ok h derive_argon2id_eq [of B pass salt p]
        by (simp add: embed_import_def import_backup_def E_TOTAL_LEN_def E_ENCRYPTED_PAYLOAD_LEN_def
            E_HEADER_LEN_def E_PAYLOAD_LEN_def backup_len_defs parse_header_eq map_err_and_then
            map_err_ok_or inner)
    qed (use b58 True in \<open>simp_all add: embed_import_def import_backup_def E_TOTAL_LEN_def
        E_ENCRYPTED_PAYLOAD_LEN_def E_HEADER_LEN_def E_PAYLOAD_LEN_def backup_len_defs
        parse_header_eq\<close>)
  qed
qed

section \<open>Properties\<close>

text \<open>
  The embedded derivations compute what the host computes, for every seed and counter: the
  same pair, the same recomputed code, the same verdict of the comparison.
\<close>
theorem embed_crypto_agrees_with_host:
  assumes "crypto_ok L" and "c1_wf c"
  shows "embed_derive_pair L s t = (derive_pair L s t :: (c1 \<times> c2) mcpix) \<and>
    embed_derive_c2_from_c1 L s t c = (derive_c2_from_c1 L s t c :: c2 mcpix) \<and>
    embed_verify_c2 L a b = verify_c2 L a b"
  using assms
  by (simp add: embed_derive_pair_eq derive_pair_eq embed_derive_c2_eq derive_c2_from_c1_eq
      embed_verify_c2_def verify_c2_def)

theorem embed_crypto_agrees_with_host_witness:
  "embed_derive_pair demo_crypto demo_seed 42 =
     (derive_pair demo_crypto demo_seed 42 :: (c1 \<times> c2) mcpix)"
  using embed_crypto_agrees_with_host [OF demo_crypto_ok c1_spec_wf] by blast

text \<open>
  The embedded transport field is the host's: encoding writes the same 35 characters over
  any buffer, and parsing accepts exactly the fields the host accepts, with the same identifier
  and \<open>C1\<close>.
\<close>
theorem embed_transport_field_agrees_with_host:
  assumes "seed_id_wf sid" and "c1_wf c" and "length out = 35"
  shows "encode_into sid c out = (encode sid c :: bytes mcpix) \<and>
    (parse_into f = Ok (sid', c') \<longleftrightarrow>
     parse f = Ok \<lparr> pf_seed_id = sid', pf_c1 = c', pf_version = V1 \<rparr>) \<and>
    (\<exists>g. encode_into sid c out = (Ok g :: bytes embed) \<and> parse_into g = Ok (sid, c))"
  using assms
  by (simp add: encode_into_eq encode_eq parse_into_Ok_iff parse_field_of)

theorem embed_transport_field_agrees_with_host_witness:
  "\<exists>g. encode_into (SeedId (ascii ''R1'')) (C1 (ascii ''ABCDEFGHJK2'')) (replicate 35 0xFF) =
     (Ok g :: bytes embed) \<and> parse_into g = Ok (SeedId (ascii ''R1''), C1 (ascii ''ABCDEFGHJK2''))"
proof -
  have "seed_id_wf (SeedId (ascii ''R1''))" "c1_wf (C1 (ascii ''ABCDEFGHJK2''))"
    "length (replicate 35 0xFF :: bytes) = 35"
    by (simp_all add: seed_id_wf_def c1_wf_def ascii_def is_alnum_def is_digit_def)
  from embed_transport_field_agrees_with_host [OF this] show ?thesis by blast
qed

text \<open>
  C21. Restoring on the device is restoring on the host: for every text and passphrase, and
  whatever the third-party functions return, both give the same state or corresponding errors.
  So a backup exported by the host is restored by the device.
\<close>
theorem embed_restore_agrees_with_host:
  "embed_import B txt passphrase = map_err restore_error_of (import_backup B txt passphrase) \<and>
   (backup_lib_ok B \<longrightarrow> input_wf i \<longrightarrow> export_for_embed B os i passphrase = Ok t \<longrightarrow>
     embed_import B t passphrase = Ok (state_of i))"
  using embed_import_eq export_then_import
  by (auto simp: export_for_embed_def)

theorem embed_restore_agrees_with_host_witness:
  "\<exists>t. embed_import demo_backup t (ascii ''pw'') = Ok (state_of demo_input)"
proof -
  obtain t where "export_with_params demo_backup (Inr (\<lambda>_. 3), Inr (\<lambda>_. 4)) demo_input
    (ascii ''pw'') default_embed = Ok t" using demo_export by blast
  then have "export_for_embed demo_backup (Inr (\<lambda>_. 3), Inr (\<lambda>_. 4)) demo_input
    (ascii ''pw'') = Ok t" by (simp add: export_for_embed_def)
  with embed_restore_agrees_with_host show ?thesis using demo_backup_ok demo_input_wf by blast
qed

end
