(* ===== verification/EmbedStorage.thy ===== *)
theory EmbedStorage
  imports Embed
begin

text \<open>
  \<^verbatim>\<open>mcpix-embed/src/storage.rs\<close>: the records of the device in NOR flash, kept in two slots that
  are written in turn.

  The flash is a trait of the \<^verbatim>\<open>embedded-storage\<close> crate: a record of functions, with what its
  documentation promises in the locale \<open>nor_flash\<close>. The environment of a call is whatever the
  hardware does in it, a failure half way included. The checksum is a third-party function and a
  parameter; no hypothesis on it is needed. \<open>oc\<close> says whether the build checks overflows.
\<close>

section \<open>Records\<close>

datatype storage_error = Backend | Empty | StMalformed | InsufficientBuffer

type_synonym 'a storage = "(storage_error, 'a) outcome"

text \<open>A persisted receipt has the fields of a retained receipt.\<close>

type_synonym persisted_receipt = receipt

record persisted_counter =
  pc_seed_id :: seed_id
  pc_last_t :: u64

definition MAGIC_RETAINED :: bytes where "MAGIC_RETAINED = ascii ''MR01''"
definition MAGIC_COUNTER :: bytes where "MAGIC_COUNTER = ascii ''MC01''"
definition ST_VERSION :: u16 where "ST_VERSION = 1"
definition SLOT_SIZE :: nat where "SLOT_SIZE = 64"

type_synonym crc32 = "bytes \<Rightarrow> u32"

definition write_retained_record :: "crc32 \<Rightarrow> bytes \<Rightarrow> u32 \<Rightarrow> persisted_receipt \<Rightarrow> bytes" where
  "write_retained_record crc buf save_seq r =
     (let buf = replicate (length buf) 0xFF;
          buf = blit 0 MAGIC_RETAINED buf;
          buf = blit 4 (u16_to_be ST_VERSION) buf;
          buf = blit 6 (u32_to_be save_seq) buf;
          sid = sid_as_str (rr_seed_id r);
          buf = blit 10 [word_of_nat (length sid)] buf;
          sid_start = 11;
          sid_end = 11 + SEED_ID_MAX_LEN;
          buf = blit sid_start sid buf;
          buf = blit (sid_start + length sid) (replicate (sid_end - (sid_start + length sid)) 0) buf;
          buf = blit 27 (u64_to_be (rr_counter r)) buf;
          buf = blit 35 (u64_to_be (rr_amount_cents r)) buf;
          buf = blit 43 (c2_chars (rr_expected_c2 r)) buf;
          buf = blit 54 [if rr_consumed r then 1 else 0] buf
      in blit 55 (u32_to_be (crc (take 55 buf))) buf)"

definition read_retained_record :: "crc32 \<Rightarrow> bytes \<Rightarrow> (u32 \<times> persisted_receipt) option" where
  "read_retained_record crc buf =
     (if slice 0 4 buf \<noteq> MAGIC_RETAINED then None
      else if word_from_be (slice 4 6 buf) \<noteq> ST_VERSION then None
      else if crc (take 55 buf) \<noteq> word_from_be (slice 55 59 buf) then None
      else
        let save_seq = word_from_be (slice 6 10 buf);
            sid_len = unat (buf ! 10)
        in if sid_len = 0 \<or> sid_len > SEED_ID_MAX_LEN then None
        else if \<not> utf8_valid (slice 11 (11 + sid_len) buf) then None
        else (case embed_seed_id_new (slice 11 (11 + sid_len) buf) of
            Ok sid \<Rightarrow>
              Some (save_seq,
                \<lparr> rr_seed_id = sid, rr_counter = word_from_be (slice 27 35 buf),
                  rr_amount_cents = word_from_be (slice 35 43 buf),
                  rr_expected_c2 = C2 (slice 43 54 buf), rr_consumed = (buf ! 54 \<noteq> 0) \<rparr>)
          | _ \<Rightarrow> None))"

definition write_counter_record :: "crc32 \<Rightarrow> bytes \<Rightarrow> u32 \<Rightarrow> persisted_counter \<Rightarrow> bytes" where
  "write_counter_record crc buf save_seq c =
     (let buf = replicate (length buf) 0xFF;
          buf = blit 0 MAGIC_COUNTER buf;
          buf = blit 4 (u16_to_be ST_VERSION) buf;
          buf = blit 6 (u32_to_be save_seq) buf;
          sid = sid_as_str (pc_seed_id c);
          buf = blit 10 [word_of_nat (length sid)] buf;
          sid_start = 11;
          sid_end = 11 + SEED_ID_MAX_LEN;
          buf = blit sid_start sid buf;
          buf = blit (sid_start + length sid) (replicate (sid_end - (sid_start + length sid)) 0) buf;
          buf = blit 27 (u64_to_be (pc_last_t c)) buf
      in blit 35 (u32_to_be (crc (take 35 buf))) buf)"

definition read_counter_record :: "crc32 \<Rightarrow> bytes \<Rightarrow> (u32 \<times> persisted_counter) option" where
  "read_counter_record crc buf =
     (if slice 0 4 buf \<noteq> MAGIC_COUNTER then None
      else if word_from_be (slice 4 6 buf) \<noteq> ST_VERSION then None
      else if crc (take 35 buf) \<noteq> word_from_be (slice 35 39 buf) then None
      else
        let save_seq = word_from_be (slice 6 10 buf);
            sid_len = unat (buf ! 10)
        in if sid_len = 0 \<or> sid_len > SEED_ID_MAX_LEN then None
        else if \<not> utf8_valid (slice 11 (11 + sid_len) buf) then None
        else (case embed_seed_id_new (slice 11 (11 + sid_len) buf) of
            Ok sid \<Rightarrow>
              Some (save_seq, \<lparr> pc_seed_id = sid, pc_last_t = word_from_be (slice 27 35 buf) \<rparr>)
          | _ \<Rightarrow> None))"

section \<open>The flash\<close>

datatype flash_error = FlashError

record ('e, 'f) nor_flash_ops =
  nf_read :: "'e \<Rightarrow> u32 \<Rightarrow> nat \<Rightarrow> 'f \<Rightarrow> (flash_error, bytes) outcome"
  nf_erase :: "'e \<Rightarrow> u32 \<Rightarrow> u32 \<Rightarrow> 'f \<Rightarrow> (flash_error, unit) outcome \<times> 'f"
  nf_write :: "'e \<Rightarrow> u32 \<Rightarrow> bytes \<Rightarrow> 'f \<Rightarrow> (flash_error, unit) outcome \<times> 'f"

text \<open>\<^verbatim>\<open>RamFlash\<close>: the flash of the tests, a byte array.\<close>

definition ram_flash_new :: "nat \<Rightarrow> bytes" where
  "ram_flash_new n = replicate n 0xFF"

definition ram_read :: "u32 \<Rightarrow> nat \<Rightarrow> bytes \<Rightarrow> (flash_error, bytes) outcome" where
  "ram_read offset len mem =
     (let start = unat offset; stop = start + len
      in if stop > length mem then Err FlashError else Ok (slice start stop mem))"

definition ram_erase :: "u32 \<Rightarrow> u32 \<Rightarrow> bytes \<Rightarrow> (flash_error, unit) outcome \<times> bytes" where
  "ram_erase lo hi mem =
     (let start = unat lo; stop = unat hi
      in if stop > length mem \<or> start > stop then (Err FlashError, mem)
         else (Ok (), blit start (replicate (stop - start) 0xFF) mem))"

definition ram_write :: "u32 \<Rightarrow> bytes \<Rightarrow> bytes \<Rightarrow> (flash_error, unit) outcome \<times> bytes" where
  "ram_write offset bs mem =
     (let start = unat offset; stop = start + length bs
      in if stop > length mem then (Err FlashError, mem)
         else (Ok (), blit start (map2 (AND) (slice start stop mem) bs) mem))"

definition ram_flash_ops :: "('e, bytes) nor_flash_ops" where
  "ram_flash_ops =
     \<lparr> nf_read = \<lambda>e. ram_read, nf_erase = \<lambda>e. ram_erase, nf_write = \<lambda>e. ram_write \<rparr>"

section \<open>The two-slot store\<close>

text \<open>
  The receipt store and the counter store are the same code over two record formats; \<open>'r codec\<close>
  is the pair of functions they differ in.
\<close>

record 'r codec =
  enc :: "bytes \<Rightarrow> u32 \<Rightarrow> 'r \<Rightarrow> bytes"
  dec :: "bytes \<Rightarrow> (u32 \<times> 'r) option"

definition retained_codec :: "crc32 \<Rightarrow> persisted_receipt codec" where
  "retained_codec crc = \<lparr> enc = write_retained_record crc, dec = read_retained_record crc \<rparr>"

definition counter_codec :: "crc32 \<Rightarrow> persisted_counter codec" where
  "counter_codec crc = \<lparr> enc = write_counter_record crc, dec = read_counter_record crc \<rparr>"

record 'f slot_store =
  ss_flash :: 'f
  ss_slot_a :: u32
  ss_slot_b :: u32

definition store_new :: "'f \<Rightarrow> u32 \<Rightarrow> u32 \<Rightarrow> 'f slot_store" where
  "store_new flash a b = \<lparr> ss_flash = flash, ss_slot_a = a, ss_slot_b = b \<rparr>"

definition store_free :: "'f slot_store \<Rightarrow> 'f" where
  "store_free st = ss_flash st"

definition on_flash ::
  "('f \<Rightarrow> (flash_error, 'a) outcome \<times> 'f) \<Rightarrow> 'f slot_store \<Rightarrow> 'a storage \<times> 'f slot_store" where
  "on_flash op st = (let (r, f) = op (ss_flash st) in (map_err (\<lambda>_. Backend) r, st \<lparr> ss_flash := f \<rparr>))"

definition read_slot ::
  "'r codec \<Rightarrow> ('e, 'f) nor_flash_ops \<Rightarrow> 'e \<Rightarrow> u32 \<Rightarrow> 'f slot_store \<Rightarrow> (u32 \<times> 'r) option storage" where
  "read_slot C F e offset st =
     map_ok (dec C) (map_err (\<lambda>_. Backend) (nf_read F e offset SLOT_SIZE (ss_flash st)))"

definition next_seq :: "bool \<Rightarrow> (u32 \<times> 'r) option \<Rightarrow> (u32 \<times> 'r) option \<Rightarrow> u32 storage" where
  "next_seq oc a b =
     (case (a, b) of
        (None, None) \<Rightarrow> Ok 1
      | (Some (s, _), None) \<Rightarrow> plus_oc oc s 1
      | (None, Some (s, _)) \<Rightarrow> plus_oc oc s 1
      | (Some (sa, _), Some (sb, _)) \<Rightarrow> plus_oc oc (max sa sb) 1)"

definition save_target ::
  "(u32 \<times> 'r) option \<Rightarrow> (u32 \<times> 'r) option \<Rightarrow> 'f slot_store \<Rightarrow> u32" where
  "save_target a b st =
     (case (a, b) of
        (None, _) \<Rightarrow> ss_slot_a st
      | (_, None) \<Rightarrow> ss_slot_b st
      | (Some (sa, _), Some (sb, _)) \<Rightarrow> if sa \<le> sb then ss_slot_a st else ss_slot_b st)"

definition choose_save_target ::
  "bool \<Rightarrow> 'r codec \<Rightarrow> ('e, 'f) nor_flash_ops \<Rightarrow> 'e \<times> 'e \<Rightarrow> 'f slot_store \<Rightarrow> (u32 \<times> u32) storage" where
  "choose_save_target oc C F = (\<lambda>(e1, e2) st.
     and_then (read_slot C F e1 (ss_slot_a st) st) (\<lambda>a.
     and_then (read_slot C F e2 (ss_slot_b st) st) (\<lambda>b.
     and_then (next_seq oc a b) (\<lambda>n.
     Ok (save_target a b st, n)))))"

definition save_record ::
  "bool \<Rightarrow> 'r codec \<Rightarrow> ('e, 'f) nor_flash_ops \<Rightarrow> ('e \<times> 'e) \<times> 'e \<times> 'e \<Rightarrow> 'r \<Rightarrow> 'f slot_store \<Rightarrow>
   u32 storage \<times> 'f slot_store" where
  "save_record oc C F = (\<lambda>(ec, e3, e4) r st.
     st_then (choose_save_target oc C F ec st, st) (\<lambda>(target, n) st.
     let buf = enc C (replicate SLOT_SIZE 0) n r in
     st_then (plus_oc oc target (word_of_nat SLOT_SIZE), st) (\<lambda>target_end st.
     st_then (on_flash (nf_erase F e3 target target_end) st) (\<lambda>_ st.
     st_then (on_flash (nf_write F e4 target buf) st) (\<lambda>_ st.
     (Ok n, st))))))"

definition load_record ::
  "'r codec \<Rightarrow> ('e, 'f) nor_flash_ops \<Rightarrow> 'e \<times> 'e \<Rightarrow> 'f slot_store \<Rightarrow> 'r storage" where
  "load_record C F = (\<lambda>(e1, e2) st.
     and_then (read_slot C F e1 (ss_slot_a st) st) (\<lambda>a.
     and_then (read_slot C F e2 (ss_slot_b st) st) (\<lambda>b.
     case (a, b) of
       (None, None) \<Rightarrow> Err Empty
     | (Some (_, r), None) \<Rightarrow> Ok r
     | (None, Some (_, r)) \<Rightarrow> Ok r
     | (Some (sa, ra), Some (sb, rb)) \<Rightarrow> if sa \<ge> sb then Ok ra else Ok rb)))"

definition receipt_save where "receipt_save oc crc = save_record oc (retained_codec crc)"
definition receipt_load where "receipt_load crc = load_record (retained_codec crc)"
definition read_slot_counter where "read_slot_counter crc = read_slot (counter_codec crc)"
definition choose_save_target_counter where
  "choose_save_target_counter oc crc = choose_save_target oc (counter_codec crc)"
definition counter_save where "counter_save oc crc = save_record oc (counter_codec crc)"
definition counter_load where "counter_load crc = load_record (counter_codec crc)"

definition receipt_mark_consumed ::
  "bool \<Rightarrow> crc32 \<Rightarrow> ('e, 'f) nor_flash_ops \<Rightarrow> ('e \<times> 'e) \<times> ('e \<times> 'e) \<times> 'e \<times> 'e \<Rightarrow> 'f slot_store \<Rightarrow>
   unit storage \<times> 'f slot_store" where
  "receipt_mark_consumed oc crc F = (\<lambda>(el, es) st.
     st_then (receipt_load crc F el st, st) (\<lambda>current st.
     if rr_consumed current then (Ok (), st)
     else
       st_then (receipt_save oc crc F es (current \<lparr> rr_consumed := True \<rparr>) st) (\<lambda>_ st.
       (Ok (), st))))"

section \<open>The record formats\<close>

text \<open>The prefix both formats share, as a concatenation.\<close>

definition record_head :: "bytes \<Rightarrow> u32 \<Rightarrow> seed_id \<Rightarrow> bytes" where
  "record_head magic sq sid =
     magic @ u16_to_be ST_VERSION @ u32_to_be sq @ [word_of_nat (length (sid_as_str sid))]
       @ sid_as_str sid @ replicate (16 - length (sid_as_str sid)) 0"

lemma length_record_head:
  "length magic = 4 \<Longrightarrow> seed_id_wf sid \<Longrightarrow> length (record_head magic sq sid) = 27"
  by (simp add: record_head_def seed_id_wf_def)

lemma record_head_fields:
  assumes "length magic = 4" and "seed_id_wf sid" and n: "n = length (sid_as_str sid)"
  shows "slice 0 4 (record_head magic sq sid @ rest) = magic"
    "slice 4 6 (record_head magic sq sid @ rest) = u16_to_be ST_VERSION"
    "slice 6 10 (record_head magic sq sid @ rest) = u32_to_be sq"
    "unat ((record_head magic sq sid @ rest) ! 10) = n"
    "slice 11 (11 + n) (record_head magic sq sid @ rest) = sid_as_str sid"
proof -
  have "n \<le> 16" using assms by (simp add: seed_id_wf_def)
  with assms(1) n show "slice 0 4 (record_head magic sq sid @ rest) = magic"
    "slice 4 6 (record_head magic sq sid @ rest) = u16_to_be ST_VERSION"
    "slice 6 10 (record_head magic sq sid @ rest) = u32_to_be sq"
    "unat ((record_head magic sq sid @ rest) ! 10) = n"
    "slice 11 (11 + n) (record_head magic sq sid @ rest) = sid_as_str sid"
    by (simp_all add: record_head_def slice_def nth_append unat_of_nat)
qed

definition retained_body :: "u32 \<Rightarrow> persisted_receipt \<Rightarrow> bytes" where
  "retained_body sq r =
     record_head MAGIC_RETAINED sq (rr_seed_id r) @ u64_to_be (rr_counter r)
       @ u64_to_be (rr_amount_cents r) @ c2_chars (rr_expected_c2 r)
       @ [if rr_consumed r then 1 else 0]"

definition counter_body :: "u32 \<Rightarrow> persisted_counter \<Rightarrow> bytes" where
  "counter_body sq c = record_head MAGIC_COUNTER sq (pc_seed_id c) @ u64_to_be (pc_last_t c)"

definition counter_wf :: "persisted_counter \<Rightarrow> bool" where
  "counter_wf c \<longleftrightarrow> seed_id_wf (pc_seed_id c)"

lemma length_magics [simp]: "length MAGIC_RETAINED = 4" "length MAGIC_COUNTER = 4"
  by (simp_all add: MAGIC_RETAINED_def MAGIC_COUNTER_def)

lemma length_retained_body: "receipt_wf r \<Longrightarrow> length (retained_body sq r) = 55"
  by (simp add: retained_body_def receipt_wf_def length_record_head c2_wf_def)

lemma length_counter_body: "counter_wf c \<Longrightarrow> length (counter_body sq c) = 35"
  by (simp add: counter_body_def counter_wf_def length_record_head)

lemma write_retained_filled:
  assumes "length buf = 64" "receipt_wf r"
  shows "filled 64 (retained_body sq r @ u32_to_be (crc (retained_body sq r)))
    (write_retained_record crc buf sq r)"
proof -
  have len: "length (sid_as_str (rr_seed_id r)) \<le> 16" "length (c2_chars (rr_expected_c2 r)) = 11"
    using assms(2) by (simp_all add: receipt_wf_def seed_id_wf_def c2_wf_def)
  define b where "b = blit 54 [if rr_consumed r then 1 else 0]
    (blit 43 (c2_chars (rr_expected_c2 r)) (blit 35 (u64_to_be (rr_amount_cents r))
    (blit 27 (u64_to_be (rr_counter r))
    (blit (11 + length (sid_as_str (rr_seed_id r)))
       (replicate (27 - (11 + length (sid_as_str (rr_seed_id r)))) 0)
    (blit 11 (sid_as_str (rr_seed_id r))
    (blit 10 [word_of_nat (length (sid_as_str (rr_seed_id r)))]
    (blit 6 (u32_to_be sq) (blit 4 (u16_to_be ST_VERSION)
    (blit 0 MAGIC_RETAINED (replicate 64 0xFF))))))))))"
  have f: "filled 64 (((((((((([] @ MAGIC_RETAINED) @ u16_to_be ST_VERSION) @ u32_to_be sq)
      @ [word_of_nat (length (sid_as_str (rr_seed_id r)))]) @ sid_as_str (rr_seed_id r))
      @ replicate (27 - (11 + length (sid_as_str (rr_seed_id r)))) 0) @ u64_to_be (rr_counter r))
      @ u64_to_be (rr_amount_cents r)) @ c2_chars (rr_expected_c2 r))
      @ [if rr_consumed r then 1 else 0]) b"
    unfolding b_def by (intro filled_blit filled_Nil) (use len in simp_all)
  then have fb: "filled 64 (retained_body sq r) b"
    by (simp add: retained_body_def record_head_def)
  then have "take 55 b = retained_body sq r"
    using length_retained_body [OF assms(2), of sq] by (simp add: filled_def)
  moreover have "write_retained_record crc buf sq r = blit 55 (u32_to_be (crc (take 55 b))) b"
    by (simp add: write_retained_record_def Let_def b_def assms(1) SEED_ID_MAX_LEN_def)
  ultimately show ?thesis
    using filled_blit [OF fb] length_retained_body [OF assms(2)] by simp
qed

lemma write_counter_filled:
  assumes "length buf = 64" "counter_wf c"
  shows "filled 64 (counter_body sq c @ u32_to_be (crc (counter_body sq c)))
    (write_counter_record crc buf sq c)"
proof -
  have len: "length (sid_as_str (pc_seed_id c)) \<le> 16"
    using assms(2) by (simp add: counter_wf_def seed_id_wf_def)
  define b where "b = blit 27 (u64_to_be (pc_last_t c))
    (blit (11 + length (sid_as_str (pc_seed_id c)))
       (replicate (27 - (11 + length (sid_as_str (pc_seed_id c)))) 0)
    (blit 11 (sid_as_str (pc_seed_id c))
    (blit 10 [word_of_nat (length (sid_as_str (pc_seed_id c)))]
    (blit 6 (u32_to_be sq) (blit 4 (u16_to_be ST_VERSION)
    (blit 0 MAGIC_COUNTER (replicate 64 0xFF)))))))"
  have f: "filled 64 ((((((([] @ MAGIC_COUNTER) @ u16_to_be ST_VERSION) @ u32_to_be sq)
      @ [word_of_nat (length (sid_as_str (pc_seed_id c)))]) @ sid_as_str (pc_seed_id c))
      @ replicate (27 - (11 + length (sid_as_str (pc_seed_id c)))) 0) @ u64_to_be (pc_last_t c)) b"
    unfolding b_def by (intro filled_blit filled_Nil) (use len in simp_all)
  then have fb: "filled 64 (counter_body sq c) b" by (simp add: counter_body_def record_head_def)
  then have "take 35 b = counter_body sq c"
    using length_counter_body [OF assms(2), of sq] by (simp add: filled_def)
  moreover have "write_counter_record crc buf sq c = blit 35 (u32_to_be (crc (take 35 b))) b"
    by (simp add: write_counter_record_def Let_def b_def assms(1) SEED_ID_MAX_LEN_def)
  ultimately show ?thesis
    using filled_blit [OF fb] length_counter_body [OF assms(2)] by simp
qed

text \<open>A filled buffer is its prefix and a rest.\<close>

lemma filled_split: "filled n p xs \<Longrightarrow> xs = p @ drop (length p) xs"
  by (metis append_take_drop_id filled_def)

lemma length_filled: "filled n p xs \<Longrightarrow> length xs = n"
  by (simp add: filled_def)

lemma embed_seed_id_new_wf: "seed_id_wf sid \<Longrightarrow> embed_seed_id_new (sid_as_str sid) = Ok sid"
  by (simp add: embed_seed_id_new_Ok_iff)

lemma read_write_retained:
  assumes "length buf = 64" "receipt_wf r"
  shows "read_retained_record crc (write_retained_record crc buf sq r) = Some (sq, r)"
proof -
  let ?W = "write_retained_record crc buf sq r" and ?sid = "rr_seed_id r"
  define rest where "rest = drop 59 ?W"
  have wf: "seed_id_wf ?sid" "length (c2_chars (rr_expected_c2 r)) = 11"
    using assms(2) by (simp_all add: receipt_wf_def c2_wf_def)
  have n: "1 \<le> length (sid_as_str ?sid)" "length (sid_as_str ?sid) \<le> 16"
    "\<forall>b \<in> set (sid_as_str ?sid). is_alnum b"
    using wf(1) by (simp_all add: seed_id_wf_def)
  have W: "?W = retained_body sq r @ u32_to_be (crc (retained_body sq r)) @ rest"
    using filled_split [OF write_retained_filled [OF assms, of sq crc]]
      length_retained_body [OF assms(2), of sq] by (simp add: rest_def)
  have H: "?W = record_head MAGIC_RETAINED sq ?sid @ (u64_to_be (rr_counter r)
       @ u64_to_be (rr_amount_cents r) @ c2_chars (rr_expected_c2 r)
       @ [if rr_consumed r then 1 else 0] @ u32_to_be (crc (retained_body sq r)) @ rest)"
    by (simp add: W retained_body_def)
  note head = record_head_fields [OF length_magics(1) wf(1) refl, of sq, of "u64_to_be (rr_counter r)
       @ u64_to_be (rr_amount_cents r) @ c2_chars (rr_expected_c2 r)
       @ [if rr_consumed r then 1 else 0] @ u32_to_be (crc (retained_body sq r)) @ rest",
       folded H]
  have hl: "length (record_head MAGIC_RETAINED sq ?sid) = 27"
    using wf(1) by (simp add: length_record_head)
  have crc: "take 55 ?W = retained_body sq r" "slice 55 59 ?W = u32_to_be (crc (retained_body sq r))"
    using length_retained_body [OF assms(2), of sq] by (simp_all add: W slice_def)
  have fields: "slice 27 35 ?W = u64_to_be (rr_counter r)"
    "slice 35 43 ?W = u64_to_be (rr_amount_cents r)"
    "slice 43 54 ?W = c2_chars (rr_expected_c2 r)" "?W ! 54 = (if rr_consumed r then 1 else 0)"
    using hl wf(2) by (simp_all add: H slice_def nth_append)
  show ?thesis
    unfolding read_retained_record_def Let_def head crc fields SEED_ID_MAX_LEN_def
    using n wf(1) by (auto simp: utf8_valid_alnum embed_seed_id_new_wf)
qed

lemma read_write_counter:
  assumes "length buf = 64" "counter_wf c"
  shows "read_counter_record crc (write_counter_record crc buf sq c) = Some (sq, c)"
proof -
  let ?W = "write_counter_record crc buf sq c" and ?sid = "pc_seed_id c"
  define rest where "rest = drop 39 ?W"
  have wf: "seed_id_wf ?sid" using assms(2) by (simp add: counter_wf_def)
  have n: "1 \<le> length (sid_as_str ?sid)" "length (sid_as_str ?sid) \<le> 16"
    "\<forall>b \<in> set (sid_as_str ?sid). is_alnum b"
    using wf by (simp_all add: seed_id_wf_def)
  have W: "?W = counter_body sq c @ u32_to_be (crc (counter_body sq c)) @ rest"
    using filled_split [OF write_counter_filled [OF assms, of sq crc]]
      length_counter_body [OF assms(2), of sq] by (simp add: rest_def)
  have H: "?W = record_head MAGIC_COUNTER sq ?sid @ (u64_to_be (pc_last_t c)
       @ u32_to_be (crc (counter_body sq c)) @ rest)"
    by (simp add: W counter_body_def)
  note head = record_head_fields [OF length_magics(2) wf refl, of sq, of "u64_to_be (pc_last_t c)
       @ u32_to_be (crc (counter_body sq c)) @ rest", folded H]
  have hl: "length (record_head MAGIC_COUNTER sq ?sid) = 27"
    using wf by (simp add: length_record_head)
  have crc: "take 35 ?W = counter_body sq c" "slice 35 39 ?W = u32_to_be (crc (counter_body sq c))"
    using length_counter_body [OF assms(2), of sq] by (simp_all add: W slice_def)
  have fields: "slice 27 35 ?W = u64_to_be (pc_last_t c)"
    using hl by (simp add: H slice_def)
  show ?thesis
    unfolding read_counter_record_def Let_def head crc fields SEED_ID_MAX_LEN_def
    using n wf by (auto simp: utf8_valid_alnum embed_seed_id_new_wf)
qed

section \<open>The contracts of a record format and of a flash\<close>

locale slot_codec =
  fixes C :: "'r codec" and wf :: "'r \<Rightarrow> bool"
  assumes dec_enc: "length buf = 64 \<Longrightarrow> wf r \<Longrightarrow> dec C (enc C buf sq r) = Some (sq, r)"
    and length_enc: "length buf = 64 \<Longrightarrow> wf r \<Longrightarrow> length (enc C buf sq r) = 64"

interpretation retained: slot_codec "retained_codec crc" receipt_wf for crc
  by unfold_locales
    (simp_all add: retained_codec_def read_write_retained length_filled [OF write_retained_filled])

interpretation counter: slot_codec "counter_codec crc" counter_wf for crc
  by unfold_locales
    (simp_all add: counter_codec_def read_write_counter length_filled [OF write_counter_filled])

text \<open>
  What the documentation of the flash trait promises of its bytes \<open>mem\<close>: a read returns them, an
  erase and a write touch nothing outside their range, whatever their result, and do their work
  inside it when they succeed. A failed or interrupted erase or write leaves anything in the
  range.
\<close>

locale nor_flash =
  fixes F :: "('e, 'f) nor_flash_ops" and mem :: "'f \<Rightarrow> bytes"
  assumes read_law:
      "nf_read F e off n f = Ok bs \<Longrightarrow>
       unat off + n \<le> length (mem f) \<and> bs = slice (unat off) (unat off + n) (mem f)"
    and erase_law:
      "nf_erase F e lo hi f = (r, f') \<Longrightarrow>
       length (mem f') = length (mem f) \<and>
       (\<forall>i < length (mem f). i < unat lo \<or> unat hi \<le> i \<longrightarrow> mem f' ! i = mem f ! i) \<and>
       (r = Ok () \<longrightarrow> (\<forall>i < length (mem f). unat lo \<le> i \<and> i < unat hi \<longrightarrow> mem f' ! i = 0xFF))"
    and write_law:
      "nf_write F e off bs f = (r, f') \<Longrightarrow>
       length (mem f') = length (mem f) \<and>
       (\<forall>i < length (mem f). i < unat off \<or> unat off + length bs \<le> i \<longrightarrow>
          mem f' ! i = mem f ! i) \<and>
       (r = Ok () \<longrightarrow> (\<forall>j < length bs. unat off + j < length (mem f) \<longrightarrow>
          mem f' ! (unat off + j) = mem f ! (unat off + j) AND bs ! j))"

lemma nth_blit:
  "i + length new \<le> length xs \<Longrightarrow> k < length xs \<Longrightarrow>
   blit i new xs ! k = (if i \<le> k \<and> k < i + length new then new ! (k - i) else xs ! k)"
  by (auto simp: blit_def nth_append min_def)

interpretation ram: nor_flash ram_flash_ops "\<lambda>m. m"
proof (unfold_locales, goal_cases)
  case (1 e off n f bs)
  then show ?case by (auto simp: ram_flash_ops_def ram_read_def Let_def split: if_splits)
next
  case (2 e lo hi f r f')
  then show ?case
    by (auto simp: ram_flash_ops_def ram_erase_def Let_def nth_blit split: if_splits)
next
  case (3 e off bs f r f')
  then show ?case
    by (auto simp: ram_flash_ops_def ram_write_def Let_def nth_blit slice_def split: if_splits)
qed

section \<open>The two-slot discipline\<close>

text \<open>The slots are disjoint and inside the flash, below the last addressable byte.\<close>

definition layout_ok :: "nat \<Rightarrow> u32 \<Rightarrow> u32 \<Rightarrow> bool" where
  "layout_ok n a b \<longleftrightarrow> unat a + 64 \<le> n \<and> unat b + 64 \<le> n \<and> n < 2 ^ 32 \<and>
     (unat a + 64 \<le> unat b \<or> unat b + 64 \<le> unat a)"

definition slot_bytes :: "bytes \<Rightarrow> u32 \<Rightarrow> bytes" where
  "slot_bytes m off = slice (unat off) (unat off + 64) m"

text \<open>The record a load returns, from the contents of the two slots.\<close>

definition latest :: "(u32 \<times> 'r) option \<Rightarrow> (u32 \<times> 'r) option \<Rightarrow> (u32 \<times> 'r) option" where
  "latest a b =
     (case a of
        None \<Rightarrow> b
      | Some (sa, ra) \<Rightarrow>
          (case b of
             None \<Rightarrow> a
           | Some (sb, rb) \<Rightarrow> if sb \<le> sa then a else b))"

definition seqs_differ :: "(u32 \<times> 'r) option \<Rightarrow> (u32 \<times> 'r) option \<Rightarrow> bool" where
  "seqs_differ a b \<longleftrightarrow> (\<forall>x y. a = Some x \<longrightarrow> b = Some y \<longrightarrow> fst x \<noteq> fst y)"

lemma slot_bytes_unchanged:
  assumes "length m' = length m" "unat off + 64 \<le> length m"
    and "\<And>i. unat off \<le> i \<Longrightarrow> i < unat off + 64 \<Longrightarrow> m' ! i = m ! i"
  shows "slot_bytes m' off = slot_bytes m off"
  unfolding slot_bytes_def slice_def
  by (rule nth_equalityI) (use assms in simp_all)

lemma slot_bytes_eqI:
  assumes "unat off + 64 \<le> length m" "length bs = 64"
    and "\<And>j. j < 64 \<Longrightarrow> m ! (unat off + j) = bs ! j"
  shows "slot_bytes m off = bs"
  unfolding slot_bytes_def slice_def
  by (rule nth_equalityI) (use assms in simp_all)

lemma unat_plus_64:
  "unat (a :: u32) + 64 < 2 ^ 32 \<Longrightarrow> unat (a + word_of_nat SLOT_SIZE) = unat a + 64"
  by (subst unat_add_no_overflow) (simp_all add: SLOT_SIZE_def unat_of_nat)

lemma latest_not_targeted:
  assumes "seqs_differ a b" and "ss_slot_a st \<noteq> ss_slot_b st"
  shows "latest a b = (if save_target a b st = ss_slot_a st then b else a)"
  using assms by (auto simp: latest_def save_target_def seqs_differ_def split: option.splits)

lemma next_seq_gt:
  assumes "next_seq oc a b = Ok n" and "n \<noteq> 0"
  shows "(\<forall>x. a = Some x \<longrightarrow> fst x < n) \<and> (\<forall>y. b = Some y \<longrightarrow> fst y < n)"
proof -
  have lt: "s < s + 1" if "s + 1 \<noteq> 0" for s :: u32
    using word_less_plus_1 [OF that] .
  have le: "x < s + 1" if "x \<le> s" "s + 1 \<noteq> 0" for x s :: u32
    using that(1) lt [OF that(2)] by (rule order.strict_trans1)
  show ?thesis
  proof (cases a; cases b)
    fix x y
    assume ab: "a = Some x" "b = Some y"
    with assms(1) have "n = max (fst x) (fst y) + 1"
      by (auto simp: next_seq_def plus_oc_def split: if_splits prod.splits)
    then show ?thesis using assms(2) le [of "fst x" "max (fst x) (fst y)"]
        le [of "fst y" "max (fst x) (fst y)"] ab by simp
  qed (use assms lt in \<open>auto simp: next_seq_def plus_oc_def split: if_splits prod.splits\<close>)
qed

text \<open>What a write to the targeted slot makes of the latest record.\<close>

lemma latest_after_save:
  assumes "ss_slot_a st \<noteq> ss_slot_b st" and "next_seq oc a b = Ok n" and "n \<noteq> 0"
    and "if save_target a b st = ss_slot_a st then b' = b \<and> a' = Some (n, r)
         else a' = a \<and> b' = Some (n, r)"
  shows "latest a' b' = Some (n, r) \<and> seqs_differ a' b'"
  using next_seq_gt [OF assms(2,3)] assms(1,4)
  by (auto simp: latest_def seqs_differ_def not_le split: option.splits if_splits)

lemma latest_after_tear:
  assumes "ss_slot_a st \<noteq> ss_slot_b st" and "seqs_differ a b"
    and "if save_target a b st = ss_slot_a st then b' = b \<and> (a' = None \<or> a' = a)
         else a' = a \<and> (b' = None \<or> b' = b)"
  shows "latest a' b' = latest a b \<and> seqs_differ a' b'"
  using assms
  by (auto simp: latest_def save_target_def seqs_differ_def split: option.splits if_splits)

text \<open>The contents of a slot, and what a load makes of the two, over the bytes of the flash.\<close>

definition slot_of ::
  "'r codec \<Rightarrow> ('f \<Rightarrow> bytes) \<Rightarrow> 'f slot_store \<Rightarrow> u32 \<Rightarrow> (u32 \<times> 'r) option" where
  "slot_of C mem st off = dec C (slot_bytes (mem (ss_flash st)) off)"

definition stored :: "'r codec \<Rightarrow> ('f \<Rightarrow> bytes) \<Rightarrow> 'f slot_store \<Rightarrow> (u32 \<times> 'r) option" where
  "stored C mem st = latest (slot_of C mem st (ss_slot_a st)) (slot_of C mem st (ss_slot_b st))"

definition store_layout :: "('f \<Rightarrow> bytes) \<Rightarrow> 'f slot_store \<Rightarrow> bool" where
  "store_layout mem st \<longleftrightarrow>
     layout_ok (length (mem (ss_flash st))) (ss_slot_a st) (ss_slot_b st)"

definition store_inv :: "'r codec \<Rightarrow> ('f \<Rightarrow> bytes) \<Rightarrow> 'f slot_store \<Rightarrow> bool" where
  "store_inv C mem st \<longleftrightarrow> store_layout mem st \<and>
     seqs_differ (slot_of C mem st (ss_slot_a st)) (slot_of C mem st (ss_slot_b st))"

locale slot_store = nor_flash F mem + slot_codec C wf
  for F :: "('e, 'f) nor_flash_ops" and mem :: "'f \<Rightarrow> bytes"
    and C :: "'r codec" and wf :: "'r \<Rightarrow> bool"
begin

lemma read_slot_Ok: "read_slot C F e off st = Ok x \<Longrightarrow> x = slot_of C mem st off"
  using read_law [of e off SLOT_SIZE "ss_flash st"]
  by (auto simp: read_slot_def outcome_simps slot_of_def slot_bytes_def SLOT_SIZE_def)

lemma load_Ok_iff:
  "load_record C F es st = Ok r \<Longrightarrow>
   \<exists>q. stored C mem st = Some (q, r)"
proof -
  assume l: "load_record C F es st = Ok r"
  obtain e1 e2 where es: "es = (e1, e2)" by (cases es)
  from l es obtain a b where "read_slot C F e1 (ss_slot_a st) st = Ok a"
    "read_slot C F e2 (ss_slot_b st) st = Ok b"
    and r: "(case (a, b) of (None, None) \<Rightarrow> Err Empty | (Some (_, r), None) \<Rightarrow> Ok r
      | (None, Some (_, r)) \<Rightarrow> Ok r
      | (Some (sa, ra), Some (sb, rb)) \<Rightarrow> if sa \<ge> sb then Ok ra else Ok rb) = (Ok r :: 'r storage)"
    by (auto simp: load_record_def outcome_simps)
  then have "a = slot_of C mem st (ss_slot_a st)" "b = slot_of C mem st (ss_slot_b st)" using read_slot_Ok by blast+
  with r show ?thesis by (auto simp: stored_def latest_def split: option.splits if_splits)
qed

text \<open>A save aims at the slot that does not hold the record a load returns.\<close>

lemma choose_Ok:
  assumes "choose_save_target oc C F es st = Ok (target, n)"
  shows "target = save_target (slot_of C mem st (ss_slot_a st)) (slot_of C mem st (ss_slot_b st)) st \<and>
    next_seq oc (slot_of C mem st (ss_slot_a st)) (slot_of C mem st (ss_slot_b st)) = Ok n"
  using assms read_slot_Ok
  by (cases es) (fastforce simp: choose_save_target_def outcome_simps)

lemma layout_distinct: "store_layout mem st \<Longrightarrow> ss_slot_a st \<noteq> ss_slot_b st"
  by (auto simp: store_layout_def layout_ok_def)

lemma erase_write_effect:
  assumes "layout_ok (length (mem f)) a b" "length bs = 64"
    and er: "nf_erase F e3 a (a + word_of_nat SLOT_SIZE) f = (r1, f1)"
  shows "length (mem f1) = length (mem f) \<and> slot_bytes (mem f1) b = slot_bytes (mem f) b \<and>
    (nf_write F e4 a bs f1 = (r2, f2) \<longrightarrow>
      length (mem f2) = length (mem f) \<and> slot_bytes (mem f2) b = slot_bytes (mem f) b \<and>
      (r1 = Ok () \<longrightarrow> r2 = Ok () \<longrightarrow> slot_bytes (mem f2) a = bs))"
proof -
  have lay: "unat a + 64 \<le> length (mem f)" "unat b + 64 \<le> length (mem f)"
    "unat a + 64 \<le> unat b \<or> unat b + 64 \<le> unat a" and top: "unat a + 64 < 2 ^ 32"
    using assms(1) by (auto simp: layout_ok_def)
  note hi = unat_plus_64 [OF top]
  from erase_law [OF er] have e: "length (mem f1) = length (mem f)"
    "\<And>i. i < length (mem f) \<Longrightarrow> i < unat a \<or> unat a + 64 \<le> i \<Longrightarrow> mem f1 ! i = mem f ! i"
    "\<And>i. r1 = Ok () \<Longrightarrow> i < length (mem f) \<Longrightarrow> unat a \<le> i \<Longrightarrow> i < unat a + 64 \<Longrightarrow>
       mem f1 ! i = 0xFF"
    unfolding hi by blast+
  have b1: "slot_bytes (mem f1) b = slot_bytes (mem f) b"
    using lay e(1,2) by (intro slot_bytes_unchanged) auto
  show ?thesis
  proof (intro conjI impI)
    assume wr: "nf_write F e4 a bs f1 = (r2, f2)"
    from write_law [OF wr] have w: "length (mem f2) = length (mem f)"
      "\<And>i. i < length (mem f) \<Longrightarrow> i < unat a \<or> unat a + 64 \<le> i \<Longrightarrow> mem f2 ! i = mem f1 ! i"
      "\<And>j. r2 = Ok () \<Longrightarrow> j < 64 \<Longrightarrow> unat a + j < length (mem f) \<Longrightarrow>
         mem f2 ! (unat a + j) = mem f1 ! (unat a + j) AND bs ! j"
      unfolding e(1) assms(2) by blast+
    show "length (mem f2) = length (mem f)" by (rule w(1))
    have "slot_bytes (mem f2) b = slot_bytes (mem f1) b"
      using lay e(1) w(1,2) by (intro slot_bytes_unchanged) auto
    then show "slot_bytes (mem f2) b = slot_bytes (mem f) b" using b1 by simp
    show "slot_bytes (mem f2) a = bs" if "r1 = Ok ()" "r2 = Ok ()"
    proof (rule slot_bytes_eqI)
      show "unat a + 64 \<le> length (mem f2)" using lay w(1) by simp
      have "(0xFF :: byte) = - 1" by simp
      then have ff: "0xFF AND x = x" for x :: byte by (simp only: and.left_neutral)
      fix j :: nat
      assume "j < 64"
      then show "mem f2 ! (unat a + j) = bs ! j"
        using w(3) [OF that(2)] e(3) [OF that(1), of "unat a + j"] lay by (simp add: ff)
    qed (rule assms(2))
  qed (use e b1 in simp_all)
qed

text \<open>
  A save that is refused before it touches the flash, or one that erases and writes a slot.
\<close>

lemma save_cases:
  assumes lay: "store_layout mem st" and wf: "wf r"
    and sv: "save_record oc C F es r st = (res, st')"
  defines "a \<equiv> slot_of C mem st (ss_slot_a st)" and "b \<equiv> slot_of C mem st (ss_slot_b st)"
  obtains (refused) "st' = st" "\<And>k. res \<noteq> Ok k"
  | (written) t n e3 e4 r1 f1 r2 f2 where
      "t = save_target a b st" "t = ss_slot_a st \<or> t = ss_slot_b st" "next_seq oc a b = Ok n"
      "nf_erase F e3 t (t + word_of_nat SLOT_SIZE) (ss_flash st) = (r1, f1)"
      "nf_write F e4 t (enc C (replicate SLOT_SIZE 0) n r) f1 = (r2, f2)"
      "(res = Ok n \<and> r1 = Ok () \<and> r2 = Ok () \<and> st' = st \<lparr> ss_flash := f2 \<rparr>) \<or>
       ((\<forall>k. res \<noteq> Ok k) \<and> (st' = st \<lparr> ss_flash := f1 \<rparr> \<or> st' = st \<lparr> ss_flash := f2 \<rparr>))"
proof -
  obtain ec e3 e4 where es: "es = (ec, e3, e4)" by (cases es) auto
  show thesis
  proof (cases "choose_save_target oc C F ec st")
    case (Ok tn)
    obtain t n where tn: "tn = (t, n)" by (cases tn)
    from choose_Ok [of oc ec st t n] Ok tn
    have t: "t = save_target a b st" and n: "next_seq oc a b = Ok n"
      by (simp_all add: a_def b_def)
    have t2: "t = ss_slot_a st \<or> t = ss_slot_b st"
      by (auto simp: t save_target_def split: option.splits)
    with lay have "unat t + 64 < 2 ^ 32" by (auto simp: store_layout_def layout_ok_def)
    then have te: "plus_oc oc t (word_of_nat SLOT_SIZE) = (Ok (t + word_of_nat SLOT_SIZE) :: u32 storage)"
      by (simp add: plus_oc_def SLOT_SIZE_def)
    obtain r1 f1 where e: "nf_erase F e3 t (t + word_of_nat SLOT_SIZE) (ss_flash st) = (r1, f1)"
      by fastforce
    obtain r2 f2 where w: "nf_write F e4 t (enc C (replicate SLOT_SIZE 0) n r) f1 = (r2, f2)"
      by fastforce
    have "(res = Ok n \<and> r1 = Ok () \<and> r2 = Ok () \<and> st' = st \<lparr> ss_flash := f2 \<rparr>) \<or>
        ((\<forall>k. res \<noteq> Ok k) \<and> (st' = st \<lparr> ss_flash := f1 \<rparr> \<or> st' = st \<lparr> ss_flash := f2 \<rparr>))"
      using sv by (cases r1; cases r2)
        (auto simp: save_record_def es Ok tn te e w on_flash_def Let_def)
    from written [OF t t2 n e w this] show thesis .
  qed (rule refused; use sv es in \<open>auto simp: save_record_def\<close>)+
qed

text \<open>
  A save changes at most one slot, the one it aims at, and this slot holds the new record when it
  succeeds.
\<close>

lemma save_effect:
  assumes lay: "store_layout mem st" and wf: "wf r"
    and sv: "save_record oc C F es r st = (res, st')"
  defines "a \<equiv> slot_of C mem st (ss_slot_a st)" and "b \<equiv> slot_of C mem st (ss_slot_b st)"
    and "a' \<equiv> slot_of C mem st' (ss_slot_a st)" and "b' \<equiv> slot_of C mem st' (ss_slot_b st)"
  shows "ss_slot_a st' = ss_slot_a st \<and> ss_slot_b st' = ss_slot_b st \<and> store_layout mem st' \<and>
    (if save_target a b st = ss_slot_a st then b' = b else a' = a) \<and>
    (\<forall>n. res = Ok n \<longrightarrow> next_seq oc a b = Ok n \<and>
       (if save_target a b st = ss_slot_a st then a' = Some (n, r) else b' = Some (n, r)))"
  using lay wf sv
proof (cases rule: save_cases)
  case refused
  then show ?thesis using lay by (simp add: a_def a'_def b_def b'_def)
next
  case (written t n e3 e4 r1 f1 r2 f2)
  note t = written(1) [folded a_def b_def] and t2 = written(2)
    and n = written(3) [folded a_def b_def]
  define o' where "o' = (if t = ss_slot_a st then ss_slot_b st else ss_slot_a st)"
  from lay t2 layout_distinct [OF lay]
  have l: "layout_ok (length (mem (ss_flash st))) t o'"
    by (auto simp: store_layout_def layout_ok_def o'_def)
  have lb: "length (enc C (replicate SLOT_SIZE 0) n r) = 64"
    and db: "dec C (enc C (replicate SLOT_SIZE 0) n r) = Some (n, r)"
    using length_enc dec_enc wf by (simp_all add: SLOT_SIZE_def)
  note eff = erase_write_effect [OF l lb written(4), of e4 r2 f2]
  have "length (mem (ss_flash st')) = length (mem (ss_flash st))"
    and "slot_of C mem st' o' = slot_of C mem st o'"
    and "ss_slot_a st' = ss_slot_a st" "ss_slot_b st' = ss_slot_b st"
    using eff written(5,6) by (auto simp: slot_of_def)
  moreover have "slot_of C mem st' t = Some (n, r) \<and> next_seq oc a b = Ok n" if "res = Ok m" for m
    using written(5,6) that eff db n by (auto simp: slot_of_def)
  moreover have "m = n" if "res = Ok m" for m using written(6) that by auto
  ultimately show ?thesis
    using t t2 n lay layout_distinct [OF lay]
    unfolding o'_def a_def b_def a'_def b'_def store_layout_def
    by (auto split: if_splits)
qed

text \<open>Nothing outside the two slots changes.\<close>

lemma save_frame:
  assumes lay: "store_layout mem st" and wf: "wf r"
    and sv: "save_record oc C F es r st = (res, st')"
    and off: "layout_ok (length (mem (ss_flash st))) (ss_slot_a st) off"
      "layout_ok (length (mem (ss_flash st))) (ss_slot_b st) off"
  shows "slot_bytes (mem (ss_flash st')) off = slot_bytes (mem (ss_flash st)) off \<and>
    length (mem (ss_flash st')) = length (mem (ss_flash st))"
  using lay wf sv
proof (cases rule: save_cases)
  case (written t n e3 e4 r1 f1 r2 f2)
  from written(2) off have l: "layout_ok (length (mem (ss_flash st))) t off" by auto
  have lb: "length (enc C (replicate SLOT_SIZE 0) n r) = 64"
    using length_enc wf by (simp add: SLOT_SIZE_def)
  show ?thesis using erase_write_effect [OF l lb written(4), of e4 r2 f2] written(5,6) by auto
qed simp

lemma save_Ok_stored:
  assumes "store_layout mem st" and "wf r"
    and "save_record oc C F es r st = (Ok n, st')" and "n \<noteq> 0"
  shows "stored C mem st' = Some (n, r) \<and> store_inv C mem st'"
proof -
  note eff = save_effect [OF assms(1-3)]
  have "stored C mem st' = Some (n, r) \<and>
      seqs_differ (slot_of C mem st' (ss_slot_a st)) (slot_of C mem st' (ss_slot_b st))"
    using eff latest_after_save [OF layout_distinct [OF assms(1)] _ assms(4)]
    unfolding stored_def by (metis (no_types, lifting))
  then show ?thesis using eff by (simp add: store_inv_def)
qed

lemma save_torn_stored:
  assumes "store_inv C mem st" and "wf r"
    and "save_record oc C F es r st = (res, st')"
    and "\<And>off. off \<in> {ss_slot_a st, ss_slot_b st} \<Longrightarrow>
      slot_of C mem st' off = None \<or> slot_of C mem st' off = slot_of C mem st off"
  shows "stored C mem st' = stored C mem st \<and> store_inv C mem st'"
proof -
  have lay: "store_layout mem st" and d: "seqs_differ (slot_of C mem st (ss_slot_a st))
      (slot_of C mem st (ss_slot_b st))" using assms(1) by (simp_all add: store_inv_def)
  note eff = save_effect [OF lay assms(2,3)]
  have "stored C mem st' = stored C mem st \<and>
      seqs_differ (slot_of C mem st' (ss_slot_a st)) (slot_of C mem st' (ss_slot_b st))"
    using eff latest_after_tear [OF layout_distinct [OF lay] d,
        of "slot_of C mem st' (ss_slot_b st)" "slot_of C mem st' (ss_slot_a st)"] assms(4)
    unfolding stored_def by auto
  then show ?thesis using eff by (simp add: store_inv_def)
qed

end

interpretation ram_receipts: slot_store ram_flash_ops "\<lambda>m. m" "retained_codec crc" receipt_wf
  for crc
  by unfold_locales

interpretation ram_counters: slot_store ram_flash_ops "\<lambda>m. m" "counter_codec crc" counter_wf
  for crc
  by unfold_locales

text \<open>On the flash of the tests no operation of a well laid out store fails.\<close>

lemma ram_read_slot:
  assumes "store_layout (\<lambda>m. m) st" and "off = ss_slot_a st \<or> off = ss_slot_b st"
  shows "read_slot C ram_flash_ops e off st = Ok (slot_of C (\<lambda>m. m) st off)"
  using assms
  by (auto simp: read_slot_def ram_flash_ops_def ram_read_def slot_of_def slot_bytes_def
      store_layout_def layout_ok_def SLOT_SIZE_def Let_def)

lemma ram_load:
  assumes "store_layout (\<lambda>m. m) st"
  shows "load_record C ram_flash_ops es st =
    (case stored C (\<lambda>m. m) st of None \<Rightarrow> Err Empty | Some (_, r) \<Rightarrow> Ok r)"
  using assms
  by (cases es)
    (auto simp: load_record_def ram_read_slot stored_def latest_def split: option.splits)

lemma ram_save:
  assumes "store_layout (\<lambda>m. m) st"
    and "next_seq oc (slot_of C (\<lambda>m. m) st (ss_slot_a st)) (slot_of C (\<lambda>m. m) st (ss_slot_b st)) = Ok n"
    and "length (enc C (replicate SLOT_SIZE 0) n r) = 64"
  shows "\<exists>st'. save_record oc C ram_flash_ops es r st = (Ok n, st')"
proof -
  obtain e1 e2 e3 e4 where es: "es = ((e1, e2), e3, e4)" by (cases es) auto
  define t where "t = save_target (slot_of C (\<lambda>m. m) st (ss_slot_a st))
    (slot_of C (\<lambda>m. m) st (ss_slot_b st)) st"
  have "t = ss_slot_a st \<or> t = ss_slot_b st"
    by (auto simp: t_def save_target_def split: option.splits)
  with assms(1) have t: "unat t + 64 \<le> length (ss_flash st)" "unat t + 64 < 2 ^ 32"
    by (auto simp: store_layout_def layout_ok_def)
  have hi: "unat (t + word_of_nat SLOT_SIZE) = unat t + 64" by (rule unat_plus_64 [OF t(2)])
  have te: "plus_oc oc t (word_of_nat SLOT_SIZE) = (Ok (t + word_of_nat SLOT_SIZE) :: u32 storage)"
    using t(2) by (simp add: plus_oc_def SLOT_SIZE_def)
  have ch: "choose_save_target oc C ram_flash_ops (e1, e2) st = Ok (t, n)"
    using assms(1,2) by (simp add: choose_save_target_def ram_read_slot t_def)
  have er: "\<exists>m. nf_erase ram_flash_ops e3 t (t + word_of_nat SLOT_SIZE) (ss_flash st) = (Ok (), m) \<and>
      length m = length (ss_flash st)"
    using t by (simp add: ram_flash_ops_def ram_erase_def hi)
  have wr: "\<exists>m'. nf_write ram_flash_ops e4 t (enc C (replicate SLOT_SIZE 0) n r) m = (Ok (), m')"
    if "length m = length (ss_flash st)" for m
    using t that assms(3) by (simp add: ram_flash_ops_def ram_write_def Let_def)
  from er obtain m where m: "nf_erase ram_flash_ops e3 t (t + word_of_nat SLOT_SIZE) (ss_flash st) = (Ok (), m)"
    and lm: "length m = length (ss_flash st)" by blast
  from wr [OF lm] obtain m' where
    "nf_write ram_flash_ops e4 t (enc C (replicate SLOT_SIZE 0) n r) m = (Ok (), m')" by blast
  with ch te m show ?thesis by (simp add: save_record_def es on_flash_def Let_def)
qed

section \<open>What the device can rely on\<close>

text \<open>A sequence of saves, each in an environment of its own; the results are dropped.\<close>

fun save_run ::
  "bool \<Rightarrow> 'r codec \<Rightarrow> ('e, 'f) nor_flash_ops \<Rightarrow> ((('e \<times> 'e) \<times> 'e \<times> 'e) \<times> 'r) list \<Rightarrow>
   'f slot_store \<Rightarrow> 'f slot_store" where
  "save_run oc C F [] st = st"
| "save_run oc C F ((es, r) # rs) st = save_run oc C F rs (snd (save_record oc C F es r st))"

lemma next_seq_stored:
  "next_seq oc a b = (case latest a b of None \<Rightarrow> Ok 1 | Some (q, _) \<Rightarrow> plus_oc oc q 1)"
  by (auto simp: next_seq_def latest_def max_def split: option.splits)

lemma ram_save_stored:
  assumes C: "slot_codec C W" and lay: "store_layout (\<lambda>m. m) st" and "W r"
    and q: "case stored C (\<lambda>m. m) st of None \<Rightarrow> n = 1 | Some (q, _) \<Rightarrow> n = q + 1"
    and n: "n \<noteq> 0"
  shows "\<exists>st'. save_record oc C ram_flash_ops es r st = (Ok n, st') \<and>
    stored C (\<lambda>m. m) st' = Some (n, r) \<and> store_inv C (\<lambda>m. m) st'"
proof -
  have S: "slot_store ram_flash_ops (\<lambda>m. m) C W"
    using ram.nor_flash_axioms C by (simp add: slot_store_def)
  have "q + 1 \<noteq> 0 \<Longrightarrow> plus_oc oc q 1 = (Ok (q + 1) :: u32 storage)" for q :: u32
    using word_less_plus_1 [of q] unat_word_ariths(1) [of q 1] unsigned_less [of q]
    by (auto simp: plus_oc_def word_less_nat_alt split: if_splits)
  then have "next_seq oc (slot_of C (\<lambda>m. m) st (ss_slot_a st)) (slot_of C (\<lambda>m. m) st (ss_slot_b st)) = Ok n"
    using q n by (auto simp: next_seq_stored stored_def split: option.splits)
  then obtain st' where "save_record oc C ram_flash_ops es r st = (Ok n, st')"
    using ram_save [OF lay, of oc C n r es] slot_codec.length_enc [OF C _ \<open>W r\<close>]
    by (auto simp: SLOT_SIZE_def)
  with slot_store.save_Ok_stored [OF S lay \<open>W r\<close> this n] show ?thesis by blast
qed

lemma save_run_stored:
  assumes C: "slot_codec C W" and "store_layout (\<lambda>m. m) st"
    and "case stored C (\<lambda>m. m) st of None \<Rightarrow> k = 0 | Some (q, _) \<Rightarrow> unat q = k"
    and "\<forall>x \<in> set rs. W (snd x)" and "k + length rs < 2 ^ 32" and "rs \<noteq> []"
  shows "stored C (\<lambda>m. m) (save_run oc C ram_flash_ops rs st) =
      Some (word_of_nat (k + length rs), snd (last rs)) \<and>
    store_inv C (\<lambda>m. m) (save_run oc C ram_flash_ops rs st)"
  using assms(2-6)
proof (induction rs arbitrary: st k)
  case (Cons x rs)
  obtain es r where x: "x = (es, r)" by (cases x)
  have r: "W r" using Cons.prems x by simp
  have k: "Suc k < 2 ^ 32" using Cons.prems by simp
  then have u: "unat (word_of_nat (Suc k) :: u32) = Suc k" by (simp add: unat_of_nat del: of_nat_Suc)
  then have n: "(word_of_nat (Suc k) :: u32) \<noteq> 0" by (metis nat.distinct(1) unat_0)
  have q: "case stored C (\<lambda>m. m) st of None \<Rightarrow> word_of_nat (Suc k) = (1 :: u32)
      | Some (q, _) \<Rightarrow> word_of_nat (Suc k) = q + 1"
    using Cons.prems(2) by (auto split: option.splits)
  from ram_save_stored [OF C Cons.prems(1) r q n, of oc es] obtain st' where
    st': "save_record oc C ram_flash_ops es r st = (Ok (word_of_nat (Suc k)), st')"
      "stored C (\<lambda>m. m) st' = Some (word_of_nat (Suc k), r)" "store_inv C (\<lambda>m. m) st'" by blast
  show ?case
  proof (cases "rs = []")
    case True
    then show ?thesis using x st' by simp
  next
    case False
    have "store_layout (\<lambda>m. m) st'" using st'(3) by (simp add: store_inv_def)
    from Cons.IH [OF this, of "Suc k"] show ?thesis
      using Cons.prems False st' u x by simp
  qed
qed simp

lemma erased_flash_unreadable: "dec (retained_codec crc) (slot_bytes (ram_flash_new n) off) = None"
  "dec (counter_codec crc) (slot_bytes (ram_flash_new n) off) = None"
proof -
  have "slice 0 4 (slot_bytes (ram_flash_new n) off) = replicate (min 4 (min 64 (n - unat off))) 0xFF"
    by (simp add: slot_bytes_def slice_def ram_flash_new_def min.commute)
  moreover have "replicate k (0xFF :: byte) \<noteq> x # xs" if "x \<noteq> 0xFF" for k x xs
    using that by (cases k) auto
  ultimately have "slice 0 4 (slot_bytes (ram_flash_new n) off) \<noteq> MAGIC_RETAINED"
    "slice 0 4 (slot_bytes (ram_flash_new n) off) \<noteq> MAGIC_COUNTER"
    by (simp_all add: MAGIC_RETAINED_def MAGIC_COUNTER_def ascii_def)
  then show "dec (retained_codec crc) (slot_bytes (ram_flash_new n) off) = None"
    "dec (counter_codec crc) (slot_bytes (ram_flash_new n) off) = None"
    by (simp_all add: retained_codec_def counter_codec_def read_retained_record_def
        read_counter_record_def)
qed

definition demo_receipt :: persisted_receipt where
  "demo_receipt =
     \<lparr> rr_seed_id = SeedId (ascii ''ABC''), rr_counter = 7, rr_amount_cents = 1990,
       rr_expected_c2 = C2 (replicate 11 0x41), rr_consumed = False \<rparr>"

lemma demo_receipt_wf: "receipt_wf demo_receipt"
  by (simp add: demo_receipt_def receipt_wf_def c2_wf_def seed_id_wf_def ascii_def is_alnum_def)

text \<open>
  The records round-trip: what \<^verbatim>\<open>read_retained_record\<close> reads from a slot written by
  \<^verbatim>\<open>write_retained_record\<close> is the sequence number and the receipt that were written, and the same
  for the counter record, whatever the buffer held before and whatever the checksum function is.
\<close>

theorem storage_records_roundtrip:
  assumes "length buf = 64" and "receipt_wf r" and "seed_id_wf (pc_seed_id c)"
  shows "read_retained_record crc (write_retained_record crc buf sq r) = Some (sq, r) \<and>
    read_counter_record crc (write_counter_record crc buf sq c) = Some (sq, c)"
  using assms by (simp add: read_write_retained read_write_counter counter_wf_def)

theorem storage_records_roundtrip_witness:
  "read_retained_record (\<lambda>bs. word_of_nat (length bs))
     (write_retained_record (\<lambda>bs. word_of_nat (length bs)) (replicate 64 0) 9 demo_receipt) =
     Some (9, demo_receipt)"
  using storage_records_roundtrip [of "replicate 64 0" demo_receipt
      "\<lparr> pc_seed_id = rr_seed_id demo_receipt, pc_last_t = 0 \<rparr>"] demo_receipt_wf
  by (simp add: receipt_wf_def)

text \<open>
  A reboot keeps \<open>T\<close>: after any non-empty sequence of fewer than \<open>2 ^ 32\<close> saves into an erased
  flash, a load returns the counter saved last.
\<close>

theorem counter_store_keeps_last_t:
  assumes "layout_ok n a b" and "rs \<noteq> []" and "length rs < 2 ^ 32"
    and "\<forall>x \<in> set rs. seed_id_wf (pc_seed_id (snd x))"
  shows "counter_load crc ram_flash_ops es
      (save_run oc (counter_codec crc) ram_flash_ops rs (store_new (ram_flash_new n) a b)) =
    Ok (snd (last rs))"
proof -
  let ?st = "store_new (ram_flash_new n) a b"
  have lay: "store_layout (\<lambda>m. m) ?st"
    using assms(1) by (simp add: store_layout_def store_new_def ram_flash_new_def)
  have "stored (counter_codec crc) (\<lambda>m. m) ?st = None"
    by (simp add: stored_def slot_of_def store_new_def erased_flash_unreadable latest_def)
  with save_run_stored [OF counter.slot_codec_axioms lay, of 0 crc rs oc] assms(2-4)
  have r: "stored (counter_codec crc) (\<lambda>m. m) (save_run oc (counter_codec crc) ram_flash_ops rs ?st) =
      Some (word_of_nat (length rs), snd (last rs))"
    "store_inv (counter_codec crc) (\<lambda>m. m) (save_run oc (counter_codec crc) ram_flash_ops rs ?st)"
    by (simp_all add: counter_wf_def)
  show ?thesis using r by (simp add: counter_load_def ram_load store_inv_def)
qed

theorem counter_store_keeps_last_t_witness:
  "counter_load (\<lambda>_. 0) ram_flash_ops ((), ())
     (save_run True (counter_codec (\<lambda>_. 0)) ram_flash_ops
        [((((), ()), (), ()), \<lparr> pc_seed_id = rr_seed_id demo_receipt, pc_last_t = 1 \<rparr>),
         ((((), ()), (), ()), \<lparr> pc_seed_id = rr_seed_id demo_receipt, pc_last_t = 2 \<rparr>)]
        (store_new (ram_flash_new 128) 0 64)) =
   Ok \<lparr> pc_seed_id = rr_seed_id demo_receipt, pc_last_t = 2 \<rparr>"
  using counter_store_keeps_last_t [of 128 0 64
      "[((((), ()), (), ()), \<lparr> pc_seed_id = rr_seed_id demo_receipt, pc_last_t = 1 \<rparr>),
        ((((), ()), (), ()), \<lparr> pc_seed_id = rr_seed_id demo_receipt, pc_last_t = 2 \<rparr>)]"]
    demo_receipt_wf
  by (simp add: layout_ok_def receipt_wf_def)

text \<open>
  A flash whose power can fail in an erase or a write: \<open>Some k\<close> stops it after \<open>k\<close> bytes, with no
  result for the caller but an error; an erase wants both ends on multiples of \<open>unit\<close> bytes.
\<close>

definition cut_write :: "nat option \<Rightarrow> u32 \<Rightarrow> bytes \<Rightarrow> bytes \<Rightarrow> (flash_error, unit) outcome \<times> bytes" where
  "cut_write e offset bs mem =
     (case e of
        None \<Rightarrow> ram_write offset bs mem
      | Some k \<Rightarrow> (Err FlashError, snd (ram_write offset (take k bs) mem)))"

definition cut_erase :: "nat \<Rightarrow> nat option \<Rightarrow> u32 \<Rightarrow> u32 \<Rightarrow> bytes \<Rightarrow> (flash_error, unit) outcome \<times> bytes" where
  "cut_erase unit e lo hi mem =
     (if unat lo mod unit \<noteq> 0 \<or> unat hi mod unit \<noteq> 0 then (Err FlashError, mem)
      else case e of
        None \<Rightarrow> ram_erase lo hi mem
      | Some k \<Rightarrow>
          (Err FlashError, if unat lo + k \<le> unat hi \<and> unat hi \<le> length mem
             then blit (unat lo) (replicate k 0xFF) mem else mem))"

definition cut_flash_ops :: "nat \<Rightarrow> (nat option, bytes) nor_flash_ops" where
  "cut_flash_ops unit =
     \<lparr> nf_read = \<lambda>e. ram_read, nf_erase = cut_erase unit, nf_write = cut_write \<rparr>"

interpretation cut: nor_flash "cut_flash_ops unit" "\<lambda>m. m" for unit
proof (unfold_locales, goal_cases)
  case (1 e off n f bs)
  then show ?case using ram.read_law by (simp add: cut_flash_ops_def ram_flash_ops_def)
next
  case (2 e lo hi f r f')
  then show ?case using ram.erase_law [of "()" lo hi f r f']
    by (auto simp: cut_flash_ops_def ram_flash_ops_def cut_erase_def nth_blit
        split: if_splits option.splits)
next
  case (3 e off bs f r f')
  show ?case
  proof (cases e)
    case None
    then show ?thesis using 3 ram.write_law [of "()" off bs f r f']
      by (simp add: cut_flash_ops_def ram_flash_ops_def cut_write_def)
  next
    case (Some k)
    then have r: "r = Err FlashError" "f' = snd (ram_write off (take k bs) f)"
      using 3 by (simp_all add: cut_flash_ops_def cut_write_def)
    then show ?thesis
      using ram.write_law [of "()" off "take k bs" f "fst (ram_write off (take k bs) f)" f']
      by (auto simp: ram_flash_ops_def)
  qed
qed

text \<open>
  C18. A power cut costs at most the record being written: on any flash that keeps its documented
  contract, when a save of a receipt fails in the middle of its erase or its write, and what it
  leaves in the slot it was writing does not pass the checksum, the receipt that a load returns
  is the one it returned before, and the next save can again rely on it.
\<close>

theorem power_cut_keeps_last_receipt:
  assumes "nor_flash F mem" and "store_inv (retained_codec crc) mem st" and "receipt_wf r"
    and "receipt_save oc crc F es r st = (res, st')"
    and "\<And>off. off \<in> {ss_slot_a st, ss_slot_b st} \<Longrightarrow>
      slot_of (retained_codec crc) mem st' off = None \<or>
      slot_of (retained_codec crc) mem st' off = slot_of (retained_codec crc) mem st off"
    and "receipt_load crc F el st = Ok old" and "receipt_load crc F el' st' = Ok new"
  shows "new = old \<and> store_inv (retained_codec crc) mem st'"
proof -
  have S: "slot_store F mem (retained_codec crc) receipt_wf"
    using assms(1) retained.slot_codec_axioms by (simp add: slot_store_def)
  from slot_store.save_torn_stored [OF S assms(2,3) assms(4) [unfolded receipt_save_def] assms(5)]
  have "stored (retained_codec crc) mem st' = stored (retained_codec crc) mem st"
    "store_inv (retained_codec crc) mem st'" by blast+
  with slot_store.load_Ok_iff [OF S assms(6) [unfolded receipt_load_def]]
    slot_store.load_Ok_iff [OF S assms(7) [unfolded receipt_load_def]]
  show ?thesis by auto
qed

text \<open>A store whose two slots hold receipts, and a save that loses power before its write.\<close>

definition two_slots :: "crc32 \<Rightarrow> u32 \<Rightarrow> u32 \<Rightarrow> bytes slot_store" where
  "two_slots crc qa qb =
     store_new (write_retained_record crc (replicate 64 0) qa demo_receipt
       @ write_retained_record crc (replicate 64 0) qb demo_receipt) 0 64"

lemma length_demo_record: "length (write_retained_record crc (replicate 64 0) q demo_receipt) = 64"
  using length_filled [OF write_retained_filled [OF _ demo_receipt_wf]] by simp

lemma two_slots_contents:
  "slot_of (retained_codec crc) (\<lambda>m. m) (two_slots crc qa qb) 0 = Some (qa, demo_receipt)"
  "slot_of (retained_codec crc) (\<lambda>m. m) (two_slots crc qa qb) 64 = Some (qb, demo_receipt)"
  "store_layout (\<lambda>m. m) (two_slots crc qa qb)"
  "ss_slot_a (two_slots crc qa qb) = 0" "ss_slot_b (two_slots crc qa qb) = 64"
  by (simp_all add: two_slots_def store_new_def slot_of_def slot_bytes_def slice_def
      length_demo_record retained_codec_def read_write_retained demo_receipt_wf store_layout_def
      layout_ok_def)

lemma cut_read_slot: "read_slot C (cut_flash_ops u) e off st = read_slot C ram_flash_ops e off st"
  by (simp add: read_slot_def cut_flash_ops_def ram_flash_ops_def)

lemma cut_load: "load_record C (cut_flash_ops u) es st = load_record C ram_flash_ops es st"
  by (simp add: load_record_def cut_read_slot)

lemma two_slots_load:
  "qb \<le> qa \<Longrightarrow> receipt_load crc (cut_flash_ops u) es (two_slots crc qa qb) = Ok demo_receipt"
  by (simp add: receipt_load_def cut_load ram_load two_slots_contents stored_def latest_def)

definition after_cut :: "crc32 \<Rightarrow> u32 \<Rightarrow> bytes slot_store" where
  "after_cut crc qa =
     store_new (write_retained_record crc (replicate 64 0) qa demo_receipt @ replicate 64 0xFF) 0 64"

lemma cut_save:
  "receipt_save True crc (cut_flash_ops 64) ((None, None), None, Some 0) r (two_slots crc 2 1) =
     (Err Backend, after_cut crc 2)"
proof -
  have "choose_save_target True (retained_codec crc) (cut_flash_ops 64) (None, None) (two_slots crc 2 1)
      = Ok (64, 3)"
    by (simp add: choose_save_target_def cut_read_slot ram_read_slot two_slots_contents
        next_seq_def plus_oc_def save_target_def word_le_nat_alt)
  then show ?thesis
    by (simp add: receipt_save_def save_record_def plus_oc_def SLOT_SIZE_def on_flash_def
        cut_flash_ops_def cut_erase_def cut_write_def ram_erase_def ram_write_def Let_def
        two_slots_def after_cut_def store_new_def blit_def length_demo_record)
qed

lemma after_cut_contents:
  "slot_of (retained_codec crc) (\<lambda>m. m) (after_cut crc qa) 0 = Some (qa, demo_receipt)"
  "slot_of (retained_codec crc) (\<lambda>m. m) (after_cut crc qa) 64 = None"
  "receipt_load crc (cut_flash_ops u) es (after_cut crc qa) = Ok demo_receipt"
proof -
  have "slot_bytes (ss_flash (after_cut crc qa)) 64 = slot_bytes (ram_flash_new 64) 0"
    by (simp add: after_cut_def store_new_def slot_bytes_def slice_def length_demo_record
        ram_flash_new_def)
  then show b: "slot_of (retained_codec crc) (\<lambda>m. m) (after_cut crc qa) 64 = None"
    by (simp add: slot_of_def erased_flash_unreadable)
  show a: "slot_of (retained_codec crc) (\<lambda>m. m) (after_cut crc qa) 0 = Some (qa, demo_receipt)"
    by (simp add: after_cut_def store_new_def slot_of_def slot_bytes_def slice_def
        length_demo_record retained_codec_def read_write_retained demo_receipt_wf)
  have l: "store_layout (\<lambda>m. m) (after_cut crc qa)" "ss_slot_a (after_cut crc qa) = 0"
    "ss_slot_b (after_cut crc qa) = 64"
    by (simp_all add: after_cut_def store_new_def store_layout_def layout_ok_def length_demo_record)
  show "receipt_load crc (cut_flash_ops u) es (after_cut crc qa) = Ok demo_receipt"
    by (simp add: receipt_load_def cut_load ram_load l a b stored_def latest_def)
qed

theorem power_cut_keeps_last_receipt_witness:
  "store_inv (retained_codec (\<lambda>_. 0)) (\<lambda>m. m) (after_cut (\<lambda>_. 0) 2)"
proof -
  have 1: "store_inv (retained_codec (\<lambda>_. 0)) (\<lambda>m. m) (two_slots (\<lambda>_. 0) 2 1)"
    by (simp add: store_inv_def two_slots_contents seqs_differ_def)
  have 2: "slot_of (retained_codec (\<lambda>_. 0)) (\<lambda>m. m) (after_cut (\<lambda>_. 0) 2) off = None \<or>
      slot_of (retained_codec (\<lambda>_. 0)) (\<lambda>m. m) (after_cut (\<lambda>_. 0) 2) off =
      slot_of (retained_codec (\<lambda>_. 0)) (\<lambda>m. m) (two_slots (\<lambda>_. 0) 2 1) off"
    if "off \<in> {ss_slot_a (two_slots (\<lambda>_. 0) 2 1), ss_slot_b (two_slots (\<lambda>_. 0) 2 1)}" for off
    using that by (auto simp: two_slots_contents after_cut_contents)
  have 3: "receipt_load (\<lambda>_. 0) (cut_flash_ops 64) (None, None) (two_slots (\<lambda>_. 0) 2 1) =
      Ok demo_receipt"
    by (rule two_slots_load) (simp add: word_le_nat_alt)
  show ?thesis
    using power_cut_keeps_last_receipt [OF cut.nor_flash_axioms 1 demo_receipt_wf cut_save 2 3
        after_cut_contents(3)] by blast
qed

text \<open>
  Marking the receipt consumed survives a reboot and can be repeated: after
  \<^verbatim>\<open>mark_consumed\<close> on a working flash a load returns the same receipt with the flag set, and a
  second call succeeds without touching the flash.
\<close>

theorem mark_consumed_persists:
  fixes es es' :: "('e \<times> 'e) \<times> ('e \<times> 'e) \<times> 'e \<times> 'e" and el :: "'e \<times> 'e"
  assumes "store_inv (retained_codec crc) (\<lambda>m. m) st"
    and "stored (retained_codec crc) (\<lambda>m. m) st = Some (q, r)" and "receipt_wf r" and "q + 1 \<noteq> 0"
  shows "\<exists>st'. receipt_mark_consumed oc crc ram_flash_ops es st = (Ok (), st') \<and>
    receipt_load crc ram_flash_ops el st' = Ok (r \<lparr> rr_consumed := True \<rparr>) \<and>
    receipt_mark_consumed oc crc ram_flash_ops es' st' = (Ok (), st')"
proof -
  let ?r = "r \<lparr> rr_consumed := True \<rparr>"
  have lay: "store_layout (\<lambda>m. m) st" using assms(1) by (simp add: store_inv_def)
  have load: "receipt_load crc ram_flash_ops e st = Ok r" for e :: "'e \<times> 'e"
    by (simp add: receipt_load_def ram_load [OF lay] assms(2))
  obtain e1 e2 where es: "es = (e1, e2)" by (cases es)
  obtain f1 f2 where es': "es' = (f1, f2)" by (cases es')
  have consumed: "receipt_mark_consumed oc crc ram_flash_ops es' st' = (Ok (), st')"
    if "receipt_load crc ram_flash_ops f1 st' = Ok ?r" for st'
    by (simp add: receipt_mark_consumed_def es' that)
  show ?thesis
  proof (cases "rr_consumed r")
    case True
    then have "?r = r" by (cases r) simp
    then have load': "receipt_load crc ram_flash_ops el st = Ok ?r"
      "receipt_load crc ram_flash_ops f1 st = Ok ?r" by (simp_all only: load)
    have "receipt_mark_consumed oc crc ram_flash_ops es st = (Ok (), st)"
      by (simp add: receipt_mark_consumed_def es load True)
    then show ?thesis using load'(1) consumed [OF load'(2)] by blast
  next
    case False
    have "receipt_wf ?r" using assms(3) by (simp add: receipt_wf_def)
    from ram_save_stored [OF retained.slot_codec_axioms lay this _ assms(4), of crc oc e2] assms(2)
    obtain st' where st': "receipt_save oc crc ram_flash_ops e2 ?r st = (Ok (q + 1), st')"
        "stored (retained_codec crc) (\<lambda>m. m) st' = Some (q + 1, ?r)"
        "store_inv (retained_codec crc) (\<lambda>m. m) st'"
      by (auto simp: receipt_save_def)
    have load': "receipt_load crc ram_flash_ops e st' = Ok ?r" for e :: "'e \<times> 'e"
      using st' by (simp add: receipt_load_def ram_load store_inv_def)
    have "receipt_mark_consumed oc crc ram_flash_ops es st = (Ok (), st')"
      by (simp add: receipt_mark_consumed_def es load False st'(1))
    then show ?thesis using load' consumed by blast
  qed
qed

theorem mark_consumed_persists_witness:
  "\<exists>st'. receipt_mark_consumed True (\<lambda>_. 0) ram_flash_ops (((), ()), ((), ()), (), ())
      (two_slots (\<lambda>_. 0) 2 1) = (Ok (), st') \<and>
    receipt_load (\<lambda>_. 0) ram_flash_ops ((), ()) st' = Ok (demo_receipt \<lparr> rr_consumed := True \<rparr>)"
proof -
  have "store_inv (retained_codec (\<lambda>_. 0)) (\<lambda>m. m) (two_slots (\<lambda>_. 0) 2 1)"
    "stored (retained_codec (\<lambda>_. 0)) (\<lambda>m. m) (two_slots (\<lambda>_. 0) 2 1) = Some (2, demo_receipt)"
    by (simp_all add: store_inv_def two_slots_contents seqs_differ_def stored_def latest_def)
  from mark_consumed_persists [OF this demo_receipt_wf, of True] show ?thesis by simp blast
qed

text \<open>
  The sequence number is not protected against its end: when the current record carries the
  last 32-bit number, a build without overflow checks reports a successful save with number 0,
  and every later load still returns the old receipt; a build with overflow checks panics.
\<close>

theorem save_after_last_sequence_number:
  assumes "slot_of (retained_codec crc) (\<lambda>m. m) st (ss_slot_a st) = Some (2 ^ 32 - 1, old)"
    and "store_layout (\<lambda>m. m) st" and "receipt_wf r"
    and "slot_of (retained_codec crc) (\<lambda>m. m) st (ss_slot_b st) = Some (2 ^ 32 - 2, older)"
  shows "(\<exists>st'. receipt_save False crc ram_flash_ops es r st = (Ok 0, st') \<and>
      receipt_load crc ram_flash_ops el st' = Ok old) \<and>
    receipt_save True crc ram_flash_ops es r st = (Panic, st)"
proof -
  let ?a = "slot_of (retained_codec crc) (\<lambda>m. m) st (ss_slot_a st)"
  let ?b = "slot_of (retained_codec crc) (\<lambda>m. m) st (ss_slot_b st)"
  have d: "ss_slot_b st \<noteq> ss_slot_a st"
    using assms(2) by (auto simp: store_layout_def layout_ok_def)
  have ab: "?a = Some (0xFFFFFFFF, old)" "?b = Some (0xFFFFFFFE, older)"
    using assms(1,4) by simp_all
  have n: "next_seq False ?a ?b = Ok 0" "next_seq True ?a ?b = Panic"
    and t: "save_target ?a ?b st = ss_slot_b st"
    by (simp_all add: ab next_seq_def max_def plus_oc_def save_target_def word_le_nat_alt)
  from ram_save [OF assms(2) n(1), of r es] retained.length_enc [OF _ assms(3)]
  obtain st' where st': "receipt_save False crc ram_flash_ops es r st = (Ok 0, st')"
    by (auto simp: receipt_save_def SLOT_SIZE_def)
  note eff = ram_receipts.save_effect [OF assms(2,3) st' [unfolded receipt_save_def]]
  have "stored (retained_codec crc) (\<lambda>m. m) st' = Some (0xFFFFFFFF, old)"
    using eff [unfolded t] d by (simp add: stored_def latest_def ab)
  then have l: "receipt_load crc ram_flash_ops el st' = Ok old"
    using eff by (simp add: receipt_load_def ram_load)
  obtain e1 e2 e3 e4 where es: "es = ((e1, e2), e3, e4)" by (cases es) auto
  have "choose_save_target True (retained_codec crc) ram_flash_ops (e1, e2) st = Panic"
    using assms(2) n(2) by (simp add: choose_save_target_def ram_read_slot)
  then show ?thesis using st' l by (auto simp: receipt_save_def save_record_def es)
qed

theorem save_after_last_sequence_number_witness:
  "receipt_save True (\<lambda>_. 0) ram_flash_ops (((), ()), (), ()) demo_receipt
     (two_slots (\<lambda>_. 0) (2 ^ 32 - 1) (2 ^ 32 - 2)) =
   (Panic, two_slots (\<lambda>_. 0) (2 ^ 32 - 1) (2 ^ 32 - 2))"
  using save_after_last_sequence_number [of "\<lambda>_. 0" "two_slots (\<lambda>_. 0) (2 ^ 32 - 1) (2 ^ 32 - 2)"
      demo_receipt demo_receipt demo_receipt "(((), ()), (), ())" "((), ())"] demo_receipt_wf
  by (simp add: two_slots_contents)

text \<open>
  A save needs a flash that erases 64 bytes at a time: on a flash that refuses, as the trait
  documents, an erase whose end is not on a sector boundary, with sectors of 4096 bytes and slots
  that start on sectors, no save ever succeeds.
\<close>

theorem save_needs_small_sectors:
  assumes "\<And>e lo hi f f'. unat hi mod 4096 \<noteq> 0 \<Longrightarrow> nf_erase F e lo hi f \<noteq> (Ok (), f')"
    and "unat (ss_slot_a st) mod 4096 = 0" and "unat (ss_slot_b st) mod 4096 = 0"
  shows "receipt_save oc crc F es r st \<noteq> (Ok n, st')"
proof
  assume sv: "receipt_save oc crc F es r st = (Ok n, st')"
  obtain ec e3 e4 where es: "es = (ec, e3, e4)" by (cases es) auto
  from sv obtain t q hi f' where
    ch: "choose_save_target oc (retained_codec crc) F ec st = Ok (t, q)"
    and hi: "hi = t + word_of_nat SLOT_SIZE"
    and er: "nf_erase F e3 t hi (ss_flash st) = (Ok (), f')"
    by (auto simp: receipt_save_def save_record_def es outcome_simps on_flash_def plus_oc_def
        split: if_splits prod.splits)
  have "t = ss_slot_a st \<or> t = ss_slot_b st"
    using ch by (cases ec)
      (auto simp: choose_save_target_def outcome_simps save_target_def split: option.splits if_splits)
  with assms(2,3) have "unat t mod 4096 = 0" by auto
  moreover have "unat hi = (unat t + 64) mod 2 ^ 32"
    unfolding hi unat_word_ariths(1) by (simp add: SLOT_SIZE_def)
  then have "unat hi mod 4096 = (unat t + 64) mod 4096"
    by (simp only: mod_mod_cancel [of 4096 "2 ^ 32"]) (simp add: mod_mod_cancel)
  ultimately have "unat hi mod 4096 = 64" by (simp add: mod_add_eq [of "unat t", symmetric])
  with assms(1) [of hi e3 t "ss_flash st" f'] er show False by simp
qed

theorem save_needs_small_sectors_witness:
  "\<forall>st'. receipt_save True (\<lambda>_. 0) (cut_flash_ops 4096) ((None, None), None, None) demo_receipt
     (store_new (ram_flash_new 8192) 0 4096) \<noteq> (Ok 1, st')"
  by (intro allI save_needs_small_sectors) (simp_all add: cut_flash_ops_def cut_erase_def store_new_def)

end
