(* ===== verification/Ffi.thy ===== *)
theory Ffi
  imports SdkFacts
begin

text \<open>
  \<^verbatim>\<open>mcpix-ffi\<close> (\<^verbatim>\<open>error.rs\<close>, \<^verbatim>\<open>handle.rs\<close>, \<^verbatim>\<open>strings.rs\<close>, \<^verbatim>\<open>receiver_api.rs\<close>): the C interface of the
  receiver.

  A pointer is a number and 0 is null. A C string that is passed in is the bytes before its
  terminator, or \<open>None\<close> for a null pointer. The receivers and the strings that were handed out
  and not freed are the heap; what the safety contracts of the functions forbid (a handle or a
  string that is not live) is the result \<open>Undefined\<close>. \<open>unwinds\<close> says whether the build unwinds on
  a panic: the release profile of the workspace aborts instead.
\<close>

section \<open>Status codes\<close>

datatype mcpix_status =
    StOk | StInvalidArgument | StTransportFieldLength | StTransportFieldCharset
  | StTransportFieldPrefix | StSeedIdLength | StSeedIdCharset | StSeedLength | StCounterOverflow
  | StUnknownSeed | StNoRetainedReceipt | StReplayRejected | StMismatch | StStorage | StTransport
  | StUnsupportedProtocolVersion | StPanic | StUnknown

fun status_code :: "mcpix_status \<Rightarrow> int" where
  "status_code StOk = 0"
| "status_code StInvalidArgument = 1"
| "status_code StTransportFieldLength = 2"
| "status_code StTransportFieldCharset = 3"
| "status_code StTransportFieldPrefix = 4"
| "status_code StSeedIdLength = 5"
| "status_code StSeedIdCharset = 6"
| "status_code StSeedLength = 7"
| "status_code StCounterOverflow = 8"
| "status_code StUnknownSeed = 9"
| "status_code StNoRetainedReceipt = 10"
| "status_code StReplayRejected = 11"
| "status_code StMismatch = 12"
| "status_code StStorage = 13"
| "status_code StTransport = 14"
| "status_code StUnsupportedProtocolVersion = 15"
| "status_code StPanic = 98"
| "status_code StUnknown = 99"

fun status_of :: "mcpix_error \<Rightarrow> mcpix_status" where
  "status_of (TransportFieldLength _) = StTransportFieldLength"
| "status_of (TransportFieldCharset _) = StTransportFieldCharset"
| "status_of TransportFieldPrefix = StTransportFieldPrefix"
| "status_of (SeedIdLength _ _) = StSeedIdLength"
| "status_of SeedIdCharset = StSeedIdCharset"
| "status_of (SeedLength _ _) = StSeedLength"
| "status_of CounterOverflow = StCounterOverflow"
| "status_of (CounterCollision _) = StCounterOverflow"
| "status_of (CounterRollback _ _) = StCounterOverflow"
| "status_of UnknownSeed = StUnknownSeed"
| "status_of NoRetainedReceipt = StNoRetainedReceipt"
| "status_of ReplayRejected = StReplayRejected"
| "status_of Mismatch = StMismatch"
| "status_of (Storage _) = StStorage"
| "status_of (Transport _) = StTransport"
| "status_of (UnsupportedProtocolVersion _) = StUnsupportedProtocolVersion"

fun ffi_validation :: "validation_outcome \<Rightarrow> int" where
  "ffi_validation Valid = 0"
| "ffi_validation MismatchOutcome = 1"
| "ffi_validation Replay = 2"

section \<open>Panics and strings\<close>

datatype ffi_result = Returned mcpix_status | Aborted | Undefined

fun guard :: "bool \<Rightarrow> (mcpix_status, 'a) outcome \<Rightarrow> ffi_result" where
  "guard unwinds (Ok _) = Returned StOk"
| "guard unwinds (Err s) = Returned s"
| "guard unwinds Panic = (if unwinds then Returned StPanic else Aborted)"

definition cstr_to_str :: "bytes option \<Rightarrow> (mcpix_status, bytes) outcome" where
  "cstr_to_str p =
     (case p of
        None \<Rightarrow> Err StInvalidArgument
      | Some s \<Rightarrow> if utf8_valid s then Ok s else Err StInvalidArgument)"

definition string_to_cstr :: "bytes \<Rightarrow> bytes option" where
  "string_to_cstr s = (if 0 \<in> set s then None else Some s)"

type_synonym ptr = nat
type_synonym sdk = "(mem_store, mem_counter) sdk_state"

record ffi_heap =
  fh_sdk :: "ptr \<rightharpoonup> sdk"
  fh_str :: "ptr \<rightharpoonup> bytes"
  fh_next :: ptr

definition heap_wf :: "ffi_heap \<Rightarrow> bool" where
  "heap_wf H \<longleftrightarrow> fh_next H \<noteq> 0 \<and>
     (\<forall>p st. fh_sdk H p = Some st \<longrightarrow> p \<noteq> 0 \<and> p < fh_next H \<and> default_inv st) \<and>
     (\<forall>p s. fh_str H p = Some s \<longrightarrow> p \<noteq> 0 \<and> p < fh_next H)"

definition mcpix_string_free :: "ptr \<Rightarrow> ffi_heap \<Rightarrow> ffi_result \<times> ffi_heap" where
  "mcpix_string_free p H =
     (if p = 0 then (Returned StOk, H)
      else if fh_str H p = None then (Undefined, H)
      else (Returned StOk, H \<lparr> fh_str := (fh_str H)(p := None) \<rparr>))"

section \<open>The receiver\<close>

text \<open>The last component of a result is what the call wrote through its out pointers.\<close>

definition mcpix_receiver_new :: "bool \<Rightarrow> ffi_heap \<Rightarrow> ffi_result \<times> ffi_heap \<times> ptr option" where
  "mcpix_receiver_new out_null H =
     (if out_null then (Returned StInvalidArgument, H, None)
      else
        let sdk = \<lparr> store_st = mem_store_new, counter_st = counter_new \<rparr>; p = fh_next H
        in (Returned StOk,
            H \<lparr> fh_sdk := (fh_sdk H)(p \<mapsto> sdk), fh_next := p + 1 \<rparr>, Some p))"

definition mcpix_receiver_free :: "ptr \<Rightarrow> ffi_heap \<Rightarrow> ffi_result \<times> ffi_heap" where
  "mcpix_receiver_free p H =
     (if p = 0 then (Returned StOk, H)
      else if fh_sdk H p = None then (Undefined, H)
      else (Returned StOk, H \<lparr> fh_sdk := (fh_sdk H)(p := None) \<rparr>))"

text \<open>What the three operations have in common: the receiver behind the handle runs \<open>f\<close>.\<close>

definition with_sdk ::
  "bool \<Rightarrow> ptr \<Rightarrow> (sdk \<Rightarrow> (mcpix_status, 'a) outcome \<times> sdk) \<Rightarrow> ffi_heap \<Rightarrow>
   ffi_result \<times> ffi_heap \<times> 'a option" where
  "with_sdk unwinds handle f H =
     (case fh_sdk H handle of
        None \<Rightarrow> (Undefined, H, None)
      | Some st \<Rightarrow>
          let (r, st') = f st
          in (guard unwinds r, H \<lparr> fh_sdk := (fh_sdk H)(handle \<mapsto> st') \<rparr>,
              case r of Ok v \<Rightarrow> Some v | _ \<Rightarrow> None))"

definition sdk_call :: "(sdk \<Rightarrow> 'a mcpix \<times> sdk) \<Rightarrow> sdk \<Rightarrow> (mcpix_status, 'a) outcome \<times> sdk" where
  "sdk_call f st = (let (r, st') = f st in (map_err status_of r, st'))"

definition mcpix_receiver_register ::
  "bool \<Rightarrow> (bytes + (nat \<Rightarrow> byte)) \<times> unit \<Rightarrow> ptr \<Rightarrow> bytes option \<Rightarrow> ffi_heap \<Rightarrow>
   ffi_result \<times> ffi_heap \<times> registration_proof option" where
  "mcpix_receiver_register unwinds env handle seed_id H =
     (if handle = 0 then (Returned StInvalidArgument, H, None)
      else with_sdk unwinds handle (\<lambda>st.
        st_then (cstr_to_str seed_id, st) (\<lambda>seed_id_str st.
        st_then (map_err status_of (seed_id_new seed_id_str), st) (\<lambda>seed_id st.
        sdk_call (register default_sdk env seed_id) st))) H)"

definition mcpix_receiver_generate_charge ::
  "crypto_lib \<Rightarrow> bool \<Rightarrow> unit \<times> unit \<times> unit \<Rightarrow> ptr \<Rightarrow> bytes option \<Rightarrow> u64 \<Rightarrow> bool \<Rightarrow> bool \<Rightarrow>
   ffi_heap \<Rightarrow> ffi_result \<times> ffi_heap \<times> (ptr \<times> u64) option" where
  "mcpix_receiver_generate_charge L unwinds env handle seed_id amount_cents
       out_field_null out_counter_null H =
     (if handle = 0 \<or> out_field_null \<or> out_counter_null
      then (Returned StInvalidArgument, H, None)
      else case with_sdk unwinds handle (\<lambda>st.
        st_then (cstr_to_str seed_id, st) (\<lambda>seed_id_str st.
        st_then (map_err status_of (seed_id_new seed_id_str), st) (\<lambda>seed_id st.
        st_then (sdk_call (generate_charge L default_sdk env seed_id amount_cents) st)
          (\<lambda>charge st.
        (case string_to_cstr (ch_transport_field charge) of
           None \<Rightarrow> (Err StUnknown, st)
         | Some cstr \<Rightarrow> (Ok (cstr, ch_counter charge), st)))))) H of
          (r, H', Some (cstr, counter)) \<Rightarrow>
            (r, H' \<lparr> fh_str := (fh_str H')(fh_next H' \<mapsto> cstr), fh_next := fh_next H' + 1 \<rparr>,
             Some (fh_next H', counter))
        | (r, H', None) \<Rightarrow> (r, H', None))"

definition mcpix_receiver_validate ::
  "crypto_lib \<Rightarrow> bool \<Rightarrow> unit \<times> unit \<Rightarrow> ptr \<Rightarrow> bytes option \<Rightarrow> u64 \<Rightarrow> bytes option \<Rightarrow> bool \<Rightarrow>
   ffi_heap \<Rightarrow> ffi_result \<times> ffi_heap \<times> int option" where
  "mcpix_receiver_validate L unwinds env handle seed_id counter presented_c2 out_null H =
     (if handle = 0 \<or> out_null then (Returned StInvalidArgument, H, None)
      else with_sdk unwinds handle (\<lambda>st.
        st_then (cstr_to_str seed_id, st) (\<lambda>seed_id_str st.
        st_then (cstr_to_str presented_c2, st) (\<lambda>presented st.
        st_then (map_err status_of (seed_id_new seed_id_str), st) (\<lambda>seed_id st.
        st_then (sdk_call (validate_receipt L default_sdk env seed_id counter presented) st)
          (\<lambda>outc st.
        (Ok (ffi_validation outc), st)))))) H)"

section \<open>Calls on one receiver\<close>

text \<open>
  The operations a client makes on a live handle, with any pointers and any strings, and what it
  learns: the charges it was given and the codes that were found valid.
\<close>

datatype ffi_call =
    FRegister "(bytes + (nat \<Rightarrow> byte)) \<times> unit" "bytes option"
  | FGenerate "bytes option" u64 bool bool
  | FValidate "bytes option" u64 "bytes option" bool

fun ffi_step ::
  "crypto_lib \<Rightarrow> bool \<Rightarrow> ptr \<Rightarrow> ffi_call \<Rightarrow> ffi_heap \<Rightarrow> ffi_result \<times> sdk_event list \<times> ffi_heap" where
  "ffi_step L unwinds h (FRegister env sid) H =
     (let (r, H', out) = mcpix_receiver_register unwinds env h sid H in (r, [], H'))"
| "ffi_step L unwinds h (FGenerate sid amount n1 n2) H =
     (let (r, H', out) = mcpix_receiver_generate_charge L unwinds ((), (), ()) h sid amount n1 n2 H
      in (r, case (sid, out) of (Some s, Some (_, t)) \<Rightarrow> [Charged (SeedId s) t] | _ \<Rightarrow> [], H'))"
| "ffi_step L unwinds h (FValidate sid t code n) H =
     (let (r, H', out) = mcpix_receiver_validate L unwinds ((), ()) h sid t code n H
      in (r, case sid of
               Some s \<Rightarrow> if out = Some 0 then [Accepted (SeedId s) t] else []
             | None \<Rightarrow> [], H'))"

fun ffi_run ::
  "crypto_lib \<Rightarrow> bool \<Rightarrow> ptr \<Rightarrow> ffi_call list \<Rightarrow> ffi_heap \<Rightarrow>
   ffi_result list \<times> sdk_event list \<times> ffi_heap" where
  "ffi_run L unwinds h [] H = ([], [], H)"
| "ffi_run L unwinds h (call # calls) H =
     (let (r, ev, H1) = ffi_step L unwinds h call H; (rs, evs, H2) = ffi_run L unwinds h calls H1
      in (r # rs, ev @ evs, H2))"

text \<open>The call of the SDK that a call stands for: none when an argument is refused.\<close>

definition sid_of :: "bytes option \<Rightarrow> seed_id option" where
  "sid_of p =
     (case cstr_to_str p of
        Ok s \<Rightarrow> (case seed_id_new s of Ok sid \<Rightarrow> Some sid | _ \<Rightarrow> None)
      | _ \<Rightarrow> None)"

fun sdk_calls_of :: "ffi_call \<Rightarrow> (unit, unit, bytes + (nat \<Rightarrow> byte)) sdk_call list" where
  "sdk_calls_of (FRegister env sid) =
     (case sid_of sid of None \<Rightarrow> [] | Some s \<Rightarrow> [Register env s])"
| "sdk_calls_of (FGenerate sid amount n1 n2) =
     (case sid_of sid of
        None \<Rightarrow> []
      | Some s \<Rightarrow> if n1 \<or> n2 then [] else [Generate ((), (), ()) s amount])"
| "sdk_calls_of (FValidate sid t code n) =
     (case (sid_of sid, cstr_to_str code) of
        (Some s, Ok c) \<Rightarrow> if n then [] else [Validate ((), ()) s t c]
      | _ \<Rightarrow> [])"

lemma cstr_to_str_not_Panic [simp]: "cstr_to_str p \<noteq> Panic"
  by (simp add: cstr_to_str_def split: option.split)

lemma cstr_to_str_Ok_iff [outcome_simps]: "cstr_to_str p = Ok s \<longleftrightarrow> p = Some s \<and> utf8_valid s"
  by (auto simp: cstr_to_str_def split: option.splits)

lemma cstr_to_str_Err: "cstr_to_str p = Err e \<Longrightarrow> e = StInvalidArgument"
  by (auto simp: cstr_to_str_def split: option.splits if_splits)

lemma sid_of_Some_iff: "sid_of p = Some sid \<longleftrightarrow>
    (\<exists>s. cstr_to_str p = Ok s \<and> seed_id_new s = Ok sid)"
  by (auto simp: sid_of_def split: outcome.splits)

lemma sid_of_Some: "sid_of p = Some sid \<Longrightarrow> seed_id_wf sid \<and> p = Some (sid_as_str sid)"
  by (auto simp: sid_of_Some_iff outcome_simps)

text \<open>An argument that is not a seed identifier never reaches the receiver.\<close>

lemma decode_sid_None:
  assumes "sid_of p = None"
  shows "\<exists>x. x \<noteq> StOk \<and> x \<noteq> StPanic \<and>
    st_then (cstr_to_str p, st) (\<lambda>s st. st_then (map_err status_of (seed_id_new s), st) k) = (Err x, st)"
proof (cases "cstr_to_str p")
  case (Ok s)
  with assms obtain e where "seed_id_new s = Err e"
    by (cases "seed_id_new s") (auto simp: sid_of_def)
  moreover have "status_of e \<noteq> StOk" "status_of e \<noteq> StPanic" by (cases e; simp)+
  ultimately show ?thesis using Ok by simp
next
  case (Err e)
  then show ?thesis using cstr_to_str_Err [OF Err] by simp
qed simp

lemma decode_sid_Some:
  assumes "sid_of p = Some sid"
  shows "st_then (cstr_to_str p, st) (\<lambda>s st. st_then (map_err status_of (seed_id_new s), st) k) =
    k sid st"
  using assms by (auto simp: sid_of_Some_iff)

lemma status_of_error: "status_of e \<noteq> StOk" "status_of e \<noteq> StPanic"
  by (cases e; simp)+

definition simulates ::
  "crypto_lib \<Rightarrow> ptr \<Rightarrow> ffi_call \<Rightarrow> sdk \<Rightarrow> ffi_result \<times> sdk_event list \<times> ffi_heap \<Rightarrow> bool" where
  "simulates L h call st x =
     (case x of (r, ev, H') \<Rightarrow>
       (\<exists>st'. sdk_run L default_sdk (sdk_calls_of call) st = (ev, st') \<and> fh_sdk H' h = Some st') \<and>
       (\<exists>s. r = Returned s \<and> s \<noteq> StPanic))"

lemma simulates_refused:
  assumes "fh_sdk H h = Some st" and "sdk_calls_of call = []" and "x \<noteq> StPanic"
  shows "simulates L h call st (Returned x, [], H)"
  using assms by (simp add: simulates_def)

lemma with_sdk_refused:
  assumes "fh_sdk H h = Some st" and "f st = (Err x, st)"
  shows "with_sdk u h f H = (Returned x, H, None)"
  using assms by (simp add: with_sdk_def fun_upd_idem)

lemma sdk_call_simps:
  "f st = (Ok v, st') \<Longrightarrow> sdk_call f st = (Ok v, st')"
  "f st = (Err e, st') \<Longrightarrow> sdk_call f st = (Err (status_of e), st')"
  "f st = (Panic, st') \<Longrightarrow> sdk_call f st = (Panic, st')"
  by (simp_all add: sdk_call_def)

lemma register_simulates:
  assumes L: "crypto_ok L" and h: "fh_sdk H h = Some st" "h \<noteq> 0"
  shows "simulates L h (FRegister env p) st (ffi_step L u h (FRegister env p) H)"
proof (cases "sid_of p")
  case None
  let ?f = "\<lambda>st. st_then (cstr_to_str p, st) (\<lambda>s st.
    st_then (map_err status_of (seed_id_new s), st) (\<lambda>sid st. sdk_call (register default_sdk env sid) st))"
  from decode_sid_None [OF None, of st] obtain x where "x \<noteq> StPanic" "?f st = (Err x, st)" by blast
  with with_sdk_refused [OF h(1), of ?f x u] h None show ?thesis
    by (simp add: mcpix_receiver_register_def simulates_refused)
next
  case (Some sid)
  then have wf: "seed_id_wf sid" by (simp add: sid_of_Some)
  obtain r st' where r: "register default_sdk env sid st = (r, st')" by force
  with default_not_Panic(1) [OF L wf, of env st] have "r \<noteq> Panic" by simp
  then show ?thesis
    using h r status_of_error
    by (cases r) (auto simp: mcpix_receiver_register_def with_sdk_def decode_sid_Some [OF Some]
        sdk_call_simps simulates_def Some)
qed

lemma generate_simulates:
  assumes L: "crypto_ok L" and h: "fh_sdk H h = Some st" "h \<noteq> 0" and I: "default_inv st"
  shows "simulates L h (FGenerate p amount n1 n2) st (ffi_step L u h (FGenerate p amount n1 n2) H)"
proof (cases "n1 \<or> n2")
  case True
  then show ?thesis using h
    by (cases "sid_of p") (auto simp: mcpix_receiver_generate_charge_def simulates_refused
        split: option.split)
next
  case n: False
  show ?thesis
  proof (cases "sid_of p")
    case None
    let ?f = "\<lambda>st. st_then (cstr_to_str p, st) (\<lambda>s st.
      st_then (map_err status_of (seed_id_new s), st) (\<lambda>sid st.
      st_then (sdk_call (generate_charge L default_sdk ((), (), ()) sid amount) st) (\<lambda>charge st.
        (case string_to_cstr (ch_transport_field charge) of
           None \<Rightarrow> (Err StUnknown, st) | Some cstr \<Rightarrow> (Ok (cstr, ch_counter charge), st)))))"
    from decode_sid_None [OF None, of st] obtain x where "x \<noteq> StPanic" "?f st = (Err x, st)" by blast
    with with_sdk_refused [OF h(1), of ?f x u] h None n show ?thesis
      by (cases p) (simp_all add: mcpix_receiver_generate_charge_def simulates_refused)
  next
    case (Some sid)
    then have wf: "seed_id_wf sid" and p: "p = Some (sid_as_str sid)" by (simp_all add: sid_of_Some)
    obtain r st' where r: "generate_charge L default_sdk ((), (), ()) sid amount st = (r, st')" by force
    with default_not_Panic(2) [OF L wf, of "((), (), ())" amount st] have np: "r \<noteq> Panic" by simp
    have c: "string_to_cstr (ch_transport_field c) = Some (ch_transport_field c) \<and> ch_seed_id c = sid"
      if "r = Ok c" for c
    proof -
      from default_rx.generate_effect [OF L I wf r] that
      obtain s n where "c = charge_spec L s sid n amount" by auto
      then show ?thesis
        using charge_field_chars [OF wf, of L s n amount]
        by (auto simp: string_to_cstr_def is_alnum_def is_digit_def)
    qed
    from np show ?thesis
      using h n r c status_of_error
      by (cases r) (auto simp: mcpix_receiver_generate_charge_def with_sdk_def
          decode_sid_Some [OF Some [unfolded p]] sdk_call_simps simulates_def Some [unfolded p] p)
  qed
qed

lemma validate_simulates:
  assumes L: "crypto_ok L" and h: "fh_sdk H h = Some st" "h \<noteq> 0"
  shows "simulates L h (FValidate p t code n) st (ffi_step L u h (FValidate p t code n) H)"
proof (cases "n \<or> sid_of p = None \<or> \<not> is_ok (cstr_to_str code)")
  case True
  let ?f = "\<lambda>st. st_then (cstr_to_str p, st) (\<lambda>s st. st_then (cstr_to_str code, st) (\<lambda>c st.
    st_then (map_err status_of (seed_id_new s), st) (\<lambda>sid st.
    st_then (sdk_call (validate_receipt L default_sdk ((), ()) sid t c) st) (\<lambda>outc st.
      (Ok (ffi_validation outc), st)))))"
  have none: "sdk_calls_of (FValidate p t code n) = []"
    using True by (auto simp: is_ok_iff split: option.splits outcome.splits)
  show ?thesis
  proof (cases n)
    case False
    have "\<exists>x. x \<noteq> StPanic \<and> ?f st = (Err x, st)"
    proof (cases "cstr_to_str p")
      case (Ok s)
      show ?thesis
      proof (cases "cstr_to_str code")
        case (Ok c)
        with True False \<open>cstr_to_str p = Ok s\<close> obtain e where "seed_id_new s = Err e"
          by (cases "seed_id_new s") (auto simp: sid_of_def)
        with Ok \<open>cstr_to_str p = Ok s\<close> status_of_error show ?thesis by simp
      qed (use Ok cstr_to_str_Err in \<open>auto dest: cstr_to_str_Err\<close>)
    qed (auto dest: cstr_to_str_Err)
    then obtain x where "x \<noteq> StPanic" "?f st = (Err x, st)" by blast
    with with_sdk_refused [OF h(1), of ?f x u] h False
    have "ffi_step L u h (FValidate p t code n) H = (Returned x, [], H)"
      by (cases p) (simp_all add: mcpix_receiver_validate_def)
    then show ?thesis using simulates_refused [OF h(1) none \<open>x \<noteq> StPanic\<close>] by simp
  next
    case True
    then have "ffi_step L u h (FValidate p t code n) H = (Returned StInvalidArgument, [], H)"
      by (cases p) (simp_all add: mcpix_receiver_validate_def)
    then show ?thesis using simulates_refused [OF h(1) none, of StInvalidArgument] by simp
  qed
next
  case False
  then obtain sid c s where sid: "sid_of p = Some sid" and c: "cstr_to_str code = Ok c" and n: "\<not> n"
    and s: "cstr_to_str p = Ok s" "seed_id_new s = Ok sid"
    by (auto simp: is_ok_iff sid_of_Some_iff)
  then have wf: "seed_id_wf sid" and p: "p = Some (sid_as_str sid)" by (simp_all add: sid_of_Some)
  obtain r st' where r: "validate_receipt L default_sdk ((), ()) sid t c st = (r, st')" by force
  with default_not_Panic(3) [OF L wf, of "((), ())" t c st] have np: "r \<noteq> Panic" by simp
  have v: "ffi_validation x = 0 \<longleftrightarrow> x = Valid" for x by (cases x) simp_all
  from np show ?thesis
    using h n r s status_of_error
    by (cases r) (auto simp: mcpix_receiver_validate_def with_sdk_def sdk_call_simps simulates_def
        sid [unfolded p] c p v split: validation_outcome.splits)
qed

lemma sdk_calls_wf: "\<forall>c \<in> set (sdk_calls_of call). seed_id_wf (call_seed_id c)"
  by (cases call) (auto dest: sid_of_Some sid_of_Some [OF sym] split: option.splits outcome.splits)

lemma step_simulates:
  assumes "crypto_ok L" and "fh_sdk H h = Some st" and "h \<noteq> 0" and "default_inv st"
  shows "simulates L h call st (ffi_step L u h call H)"
  using register_simulates [OF assms(1-3)] generate_simulates [OF assms]
    validate_simulates [OF assms(1-3)]
  by (cases call) blast+

lemma run_simulates:
  assumes L: "crypto_ok L" and h: "h \<noteq> 0"
    and "fh_sdk H h = Some st" and "default_inv st" and "ffi_run L u h calls H = (rs, evs, H')"
  shows "(\<exists>st'. sdk_run L default_sdk (concat (map sdk_calls_of calls)) st = (evs, st') \<and>
      fh_sdk H' h = Some st') \<and> (\<forall>r \<in> set rs. \<exists>s. r = Returned s \<and> s \<noteq> StPanic)"
  using assms(3-5)
proof (induction calls arbitrary: H st rs evs)
  case (Cons call calls)
  obtain r ev H1 where s: "ffi_step L u h call H = (r, ev, H1)" by (metis prod_cases3)
  obtain rs2 evs2 H2 where run: "ffi_run L u h calls H1 = (rs2, evs2, H2)" by (metis prod_cases3)
  have eq: "rs = r # rs2" "evs = ev @ evs2" "H' = H2" using Cons.prems(3) s run by auto
  from step_simulates [OF L Cons.prems(1) h Cons.prems(2), of call u] s obtain st1 x where
    st1: "sdk_run L default_sdk (sdk_calls_of call) st = (ev, st1)" "fh_sdk H1 h = Some st1"
    and r: "r = Returned x" "x \<noteq> StPanic"
    by (auto simp: simulates_def)
  have "default_inv st1"
    using default_run_inv [OF L Cons.prems(2) sdk_calls_wf, of call] st1 by simp
  from Cons.IH [OF st1(2) this run [folded eq(3)]] st1(1) r eq show ?case
    by (auto simp: sdk_run_append)
qed simp

section \<open>Properties\<close>

text \<open>
  C32. At the C interface every charge is accepted at most once: on a fresh receiver, whatever
  calls a client makes on its handle, with null pointers, strings that are not UTF-8 and invalid
  identifiers among them, no pair of identifier and counter is charged twice, none is reported
  valid twice, only charged ones are, and every call returns a status code: none of them panics,
  so none depends on the build unwinding.
\<close>

theorem ffi_accepts_at_most_once:
  assumes "crypto_ok L" and "heap_wf H" and "mcpix_receiver_new False H = (r0, H0, Some h)"
    and "ffi_run L unwinds h calls H0 = (rs, evs, H')"
  shows "distinct (charged evs) \<and> distinct (accepted evs) \<and> set (accepted evs) \<subseteq> set (charged evs) \<and>
    list_all (\<lambda>r. case r of Returned s \<Rightarrow> s \<noteq> StPanic | _ \<Rightarrow> False) rs"
proof -
  have h: "h \<noteq> 0" "fh_sdk H0 h = Some default_init"
    using assms(2,3) by (auto simp: mcpix_receiver_new_def default_init_def heap_wf_def Let_def)
  from run_simulates [OF assms(1) h default_init_inv assms(4)] obtain st' where
    run: "sdk_run L default_sdk (concat (map sdk_calls_of calls)) default_init = (evs, st')"
    and rs: "\<forall>r \<in> set rs. \<exists>s. r = Returned s \<and> s \<noteq> StPanic" by blast
  have "\<forall>c \<in> set (concat (map sdk_calls_of calls)). seed_id_wf (call_seed_id c)"
    using sdk_calls_wf by auto
  from default_rx.run_effect [OF assms(1) default_init_inv this run]
  have "distinct (charged evs) \<and> distinct (accepted evs) \<and> set (accepted evs) \<subseteq> set (charged evs)"
    by (auto simp: receipts_effect_def default_init_def mem_store_new_def)
  with rs show ?thesis by (fastforce simp: list_all_iff)
qed

definition empty_heap :: ffi_heap where
  "empty_heap = \<lparr> fh_sdk = Map.empty, fh_str = Map.empty, fh_next = 1 \<rparr>"

theorem ffi_accepts_at_most_once_witness:
  "\<exists>r0 H0 h. mcpix_receiver_new False empty_heap = (r0, H0, Some h) \<and>
    distinct (accepted (fst (snd (ffi_run demo_crypto False h
      [FRegister (Inr (\<lambda>_. 1), ()) (Some (ascii ''R1'')), FGenerate (Some (ascii ''R1'')) 9900 False False,
       FGenerate None 9900 False False, FValidate (Some [0xFF]) 1 None False] H0))))"
proof -
  have wf: "heap_wf empty_heap" by (simp add: heap_wf_def empty_heap_def)
  obtain r0 H0 h where n: "mcpix_receiver_new False empty_heap = (r0, H0, Some h)"
    by (simp add: mcpix_receiver_new_def Let_def)
  obtain rs evs H' where run: "ffi_run demo_crypto False h
      [FRegister (Inr (\<lambda>_. 1), ()) (Some (ascii ''R1'')), FGenerate (Some (ascii ''R1'')) 9900 False False,
       FGenerate None 9900 False False, FValidate (Some [0xFF]) 1 None False] H0 = (rs, evs, H')"
    by (metis prod_cases3)
  from ffi_accepts_at_most_once [OF demo_crypto_ok wf n run] n run show ?thesis by auto
qed

end
