(* ===== verification/Uniffi.thy ===== *)
theory Uniffi
  imports SdkFacts Backup
begin

text \<open>
  \<^verbatim>\<open>mcpix-uniffi/src/lib.rs\<close>: the receiver for Swift and Kotlin, with the constructor that restores
  it from an encrypted backup. The generated scaffolding of UniFFI is not part of the sources.
\<close>

section \<open>Types\<close>

datatype uniffi_error =
    UInvalidSeedId bytes
  | UUnknownSeed
  | UNoRetainedReceipt
  | UCounterOverflow
  | UTransportField bytes
  | UStorage bytes

fun uniffi_error_of :: "mcpix_error \<Rightarrow> uniffi_error" where
  "uniffi_error_of (SeedIdLength a b) = UInvalidSeedId (mcpix_display (SeedIdLength a b))"
| "uniffi_error_of SeedIdCharset = UInvalidSeedId (mcpix_display SeedIdCharset)"
| "uniffi_error_of UnknownSeed = UUnknownSeed"
| "uniffi_error_of NoRetainedReceipt = UNoRetainedReceipt"
| "uniffi_error_of CounterOverflow = UCounterOverflow"
| "uniffi_error_of (CounterCollision _) = UCounterOverflow"
| "uniffi_error_of (CounterRollback _ _) = UCounterOverflow"
| "uniffi_error_of e = (case e of
     Storage _ \<Rightarrow> UStorage (mcpix_display e)
   | Transport _ \<Rightarrow> UStorage (mcpix_display e)
   | Mismatch \<Rightarrow> UStorage (mcpix_display e)
   | ReplayRejected \<Rightarrow> UStorage (mcpix_display e)
   | _ \<Rightarrow> UTransportField (mcpix_display e))"

datatype uniffi_validation = UValid | UMismatch | UReplay

fun uniffi_validation_of :: "validation_outcome \<Rightarrow> uniffi_validation" where
  "uniffi_validation_of Valid = UValid"
| "uniffi_validation_of MismatchOutcome = UMismatch"
| "uniffi_validation_of Replay = UReplay"

record uniffi_charge =
  uc_transport_field :: bytes
  uc_counter :: u64
  uc_amount_cents :: u64

type_synonym uniffi_receiver = "(mem_store, mem_counter) sdk_state"
type_synonym 'a uniffi = "(uniffi_error, 'a) outcome"

text \<open>The text of an error of the backup crate, from its \<^verbatim>\<open>Display\<close>.\<close>

fun backup_display :: "backup_error \<Rightarrow> bytes" where
  "backup_display Malformed = ascii ''backup format is malformed or corrupt''"
| "backup_display UnsupportedVersion = ascii ''backup version unsupported''"
| "backup_display DecryptFailed = ascii ''decryption failed (wrong passphrase or tampered backup)''"
| "backup_display KdfFailed = ascii ''Argon2 KDF error''"
| "backup_display InvalidSeedId = ascii ''invalid SeedId in payload''"

section \<open>Operations\<close>

definition uniffi_new :: uniffi_receiver where
  "uniffi_new = \<lparr> store_st = mem_store_new, counter_st = counter_new \<rparr>"

definition from_sealed_backup :: "backup_lib \<Rightarrow> bytes \<Rightarrow> bytes \<Rightarrow> uniffi_receiver uniffi" where
  "from_sealed_backup B backup passphrase =
     and_then (map_err (\<lambda>e. UStorage (ascii ''backup restore: '' @ backup_display e))
                 (import_backup B backup passphrase)) (\<lambda>restored.
     if rs_counter_mode restored \<noteq> Sequential
     then Err (UStorage (ascii ''quantized-mode backup restore not supported by this constructor''))
     else
       let (r, store) = mem_put_seed (rs_seed_id restored) (rs_seed restored) mem_store_new
       in and_then (map_err uniffi_error_of r) (\<lambda>_.
            Ok \<lparr> store_st = store,
                 counter_st = restore_last_issued (rs_seed_id restored) (rs_counter_t restored)
                   counter_new \<rparr>))"

definition uniffi_call ::
  "(uniffi_receiver \<Rightarrow> 'a mcpix \<times> uniffi_receiver) \<Rightarrow> uniffi_receiver \<Rightarrow> 'a uniffi \<times> uniffi_receiver" where
  "uniffi_call f st = (let (r, st') = f st in (map_err uniffi_error_of r, st'))"

definition uniffi_register ::
  "(bytes + (nat \<Rightarrow> byte)) \<times> unit \<Rightarrow> bytes \<Rightarrow> uniffi_receiver \<Rightarrow> unit uniffi \<times> uniffi_receiver" where
  "uniffi_register env seed_id st =
     st_then (map_err uniffi_error_of (seed_id_new seed_id), st) (\<lambda>sid st.
     st_then (uniffi_call (register default_sdk env sid) st) (\<lambda>_ st. (Ok (), st)))"

definition uniffi_generate_charge ::
  "crypto_lib \<Rightarrow> bytes \<Rightarrow> u64 \<Rightarrow> uniffi_receiver \<Rightarrow> uniffi_charge uniffi \<times> uniffi_receiver" where
  "uniffi_generate_charge L seed_id amount_cents st =
     st_then (map_err uniffi_error_of (seed_id_new seed_id), st) (\<lambda>sid st.
     st_then (uniffi_call (generate_charge L default_sdk ((), (), ()) sid amount_cents) st)
       (\<lambda>charge st.
     (Ok \<lparr> uc_transport_field = ch_transport_field charge, uc_counter = ch_counter charge,
           uc_amount_cents = ch_amount_cents charge \<rparr>, st)))"

definition uniffi_validate_receipt ::
  "crypto_lib \<Rightarrow> bytes \<Rightarrow> u64 \<Rightarrow> bytes \<Rightarrow> uniffi_receiver \<Rightarrow>
   uniffi_validation uniffi \<times> uniffi_receiver" where
  "uniffi_validate_receipt L seed_id counter presented_c2 st =
     st_then (map_err uniffi_error_of (seed_id_new seed_id), st) (\<lambda>sid st.
     st_then (uniffi_call (validate_receipt L default_sdk ((), ()) sid counter presented_c2) st)
       (\<lambda>outc st. (Ok (uniffi_validation_of outc), st)))"

section \<open>Lemmas\<close>

text \<open>The receiver a backup restores.\<close>

definition restored_receiver :: "restored_state \<Rightarrow> uniffi_receiver" where
  "restored_receiver r =
     \<lparr> store_st = mem_store_new \<lparr> ms_seeds := [rs_seed_id r \<mapsto> rs_seed r] \<rparr>,
       counter_st = [rs_seed_id r \<mapsto> rs_counter_t r] \<rparr>"

lemma from_sealed_backup_import:
  "from_sealed_backup B bk pw =
     (case import_backup B bk pw of
        Ok r \<Rightarrow> if rs_counter_mode r = Sequential then Ok (restored_receiver r)
          else Err (UStorage (ascii ''quantized-mode backup restore not supported by this constructor''))
      | Err e \<Rightarrow> Err (UStorage (ascii ''backup restore: '' @ backup_display e))
      | Panic \<Rightarrow> Panic)"
  by (cases "import_backup B bk pw")
    (auto simp: from_sealed_backup_def restored_receiver_def mem_put_seed_def mem_store_new_def
      restore_last_issued_eq counter_new_def fun_upd_def max_def)

lemma restored_receiver_inv:
  "seed_wf (rs_seed r) \<Longrightarrow> seed_id_wf (rs_seed_id r) \<Longrightarrow> default_inv (restored_receiver r)"
  by (simp add: default_inv_def restored_receiver_def store_view_wf_def mem_store_new_def
      receipts_bounded_def)

lemma uniffi_call_simps:
  "f st = (Ok v, st') \<Longrightarrow> uniffi_call f st = (Ok v, st')"
  "f st = (Err e, st') \<Longrightarrow> uniffi_call f st = (Err (uniffi_error_of e), st')"
  by (simp_all add: uniffi_call_def)

section \<open>Properties\<close>

text \<open>
  A receiver restored from a backup goes on where the exported one stopped: from a backup of
  the sequential mode the constructor succeeds under the right passphrase, the next charge for the
  identifier of the backup carries \<open>T + 1\<close> and is built from the backed-up seed, and at the last
  64-bit value it is refused with the overflow error instead of wrapping.
\<close>

theorem restored_receiver_continues:
  assumes "backup_lib_ok B" and "crypto_ok L" and "input_wf i" and "ei_counter_mode i = Sequential"
    and "export_with_params B os i pw params = Ok bk"
  shows "\<exists>st. from_sealed_backup B bk pw = Ok st \<and>
    fst (uniffi_generate_charge L (sid_as_str (ei_seed_id i)) amount st) =
      (if ei_counter_t i = - 1 then Err UCounterOverflow
       else let c = charge_spec L (ei_seed i) (ei_seed_id i) (ei_counter_t i + 1) amount
         in Ok \<lparr> uc_transport_field = ch_transport_field c, uc_counter = ei_counter_t i + 1,
                 uc_amount_cents = amount \<rparr>)"
proof -
  let ?st = "restored_receiver (state_of i)" and ?sid = "ei_seed_id i"
  have wf: "seed_id_wf ?sid" using assms(3) by (simp add: input_wf_def)
  have imp: "from_sealed_backup B bk pw = Ok ?st"
    using export_then_import [OF assms(1,3,5)] assms(4)
    by (simp add: from_sealed_backup_import state_of_def)
  have st: "ms_seeds (store_st ?st) ?sid = Some (ei_seed i)"
    "counter_st ?st ?sid = Some (ei_counter_t i)"
    by (simp_all add: restored_receiver_def state_of_def)
  show ?thesis
  proof (intro exI conjI)
    show "from_sealed_backup B bk pw = Ok ?st" by (rule imp)
    show "fst (uniffi_generate_charge L (sid_as_str ?sid) amount ?st) =
      (if ei_counter_t i = - 1 then Err UCounterOverflow
       else let c = charge_spec L (ei_seed i) ?sid (ei_counter_t i + 1) amount
         in Ok \<lparr> uc_transport_field = ch_transport_field c, uc_counter = ei_counter_t i + 1,
                 uc_amount_cents = amount \<rparr>)"
      using wf st counter_next_Some [of "counter_st ?st" ?sid, OF st(2)]
      by (simp add: uniffi_generate_charge_def seed_id_new_as_str uniffi_call_def Let_def
          mem_generate_charge [OF assms(2) wf])
  qed
qed

theorem restored_receiver_continues_witness:
  "\<exists>bk st c. export_with_params demo_backup (Inr (\<lambda>_. 3), Inr (\<lambda>_. 4)) demo_input (ascii ''pw'')
      default_embed = Ok bk \<and> from_sealed_backup demo_backup bk (ascii ''pw'') = Ok st \<and>
    fst (uniffi_generate_charge demo_crypto (sid_as_str (ei_seed_id demo_input)) 100 st) = Ok c \<and>
    uc_counter c = ei_counter_t demo_input + 1"
proof -
  obtain bk where t: "export_with_params demo_backup (Inr (\<lambda>_. 3), Inr (\<lambda>_. 4)) demo_input
    (ascii ''pw'') default_embed = Ok bk" using demo_export by blast
  have "ei_counter_mode demo_input = Sequential" "ei_counter_t demo_input \<noteq> - 1"
    by (simp_all add: demo_input_def)
  with restored_receiver_continues [OF demo_backup_ok demo_crypto_ok demo_input_wf _ t, of 100] t
  show ?thesis by (auto simp: Let_def)
qed

text \<open>
  C33. Restoring is total and typed: for any text and passphrase the constructor never panics, a
  failure is always the storage error, and a receiver it returns is consistent, holds exactly the
  seed of the backup and no receipts, and has the counter of the backup.
\<close>

theorem restore_total_and_typed:
  "case from_sealed_backup B bk pw of
     Panic \<Rightarrow> False
   | Err e \<Rightarrow> (\<exists>m. e = UStorage m)
   | Ok st \<Rightarrow> default_inv st \<and> (\<exists>r. import_backup B bk pw = Ok r \<and> rs_counter_mode r = Sequential \<and>
       ms_seeds (store_st st) = [rs_seed_id r \<mapsto> rs_seed r] \<and>
       ms_receipts (store_st st) = Map.empty \<and> counter_st st = [rs_seed_id r \<mapsto> rs_counter_t r])"
  using import_not_Panic [of B bk pw]
  by (cases "import_backup B bk pw")
    (auto simp: from_sealed_backup_import dest: import_wf intro: restored_receiver_inv,
      auto simp: restored_receiver_def mem_store_new_def)

end
