(* ===== verification/Wasm.thy ===== *)
theory Wasm
  imports SdkFacts
begin

text \<open>
  \<^verbatim>\<open>mcpix-wasm/src/lib.rs\<close>: the demonstration for the browser, which holds the receiver and plays the
  paying bank on the same store.

  The object is in one of two modes, so the optional clock and window of the source are arguments
  of the constructor of the mode that has them. A JavaScript value is the JSON text it is parsed
  from; an error value is its string. \<open>debug\<close> says whether debug assertions are compiled in.
\<close>

section \<open>The object\<close>

datatype wasm_demo =
    SeqDemo "(mem_store, mem_counter) sdk_state"
  | QuantDemo "(mem_store, ts_counter) sdk_state" u64 u64

type_synonym 'a js = "(bytes, 'a) outcome"

definition wasm_new :: wasm_demo where
  "wasm_new = SeqDemo \<lparr> store_st = mem_store_new, counter_st = counter_new \<rparr>"

definition wasm_default :: wasm_demo where
  "wasm_default = wasm_new"

definition wasm_new_quantized :: "u64 \<Rightarrow> u64 \<Rightarrow> wasm_demo js" where
  "wasm_new_quantized window_seconds initial_time_secs =
     map_ok (\<lambda>c. QuantDemo \<lparr> store_st = mem_store_new, counter_st = c \<rparr>
                   initial_time_secs window_seconds)
       (ts_with_window window_seconds)"

fun wasm_tick :: "u64 \<Rightarrow> wasm_demo \<Rightarrow> wasm_demo" where
  "wasm_tick now_secs (SeqDemo st) = SeqDemo st"
| "wasm_tick now_secs (QuantDemo st now w) = QuantDemo st now_secs w"

fun wasm_current_quantum :: "wasm_demo \<Rightarrow> u64 option js" where
  "wasm_current_quantum (SeqDemo st) = Ok None"
| "wasm_current_quantum (QuantDemo st now w) = map_ok Some (div_oc now w)"

fun wasm_window_seconds :: "wasm_demo \<Rightarrow> u64 option" where
  "wasm_window_seconds (SeqDemo st) = None"
| "wasm_window_seconds (QuantDemo st now w) = Some w"

fun wasm_store :: "wasm_demo \<Rightarrow> mem_store" where
  "wasm_store (SeqDemo st) = store_st st"
| "wasm_store (QuantDemo st now w) = store_st st"

text \<open>The calls on the SDK inside, whichever counter it has.\<close>

fun wasm_sdk_register ::
  "(bytes + (nat \<Rightarrow> byte)) \<times> unit \<Rightarrow> seed_id \<Rightarrow> wasm_demo \<Rightarrow> registration_proof mcpix \<times> wasm_demo" where
  "wasm_sdk_register env sid (SeqDemo st) =
     (let (r, st') = register default_sdk env sid st in (r, SeqDemo st'))"
| "wasm_sdk_register env sid (QuantDemo st now w) =
     (let (r, st') = register quantized_sdk env sid st in (r, QuantDemo st' now w))"

fun wasm_sdk_generate ::
  "crypto_lib \<Rightarrow> seed_id \<Rightarrow> u64 \<Rightarrow> wasm_demo \<Rightarrow> charge mcpix \<times> wasm_demo" where
  "wasm_sdk_generate L sid amount (SeqDemo st) =
     (let (r, st') = generate_charge L default_sdk ((), (), ()) sid amount st in (r, SeqDemo st'))"
| "wasm_sdk_generate L sid amount (QuantDemo st now w) =
     (let (r, st') = generate_charge L quantized_sdk ((), now, ()) sid amount st
      in (r, QuantDemo st' now w))"

fun wasm_sdk_validate ::
  "crypto_lib \<Rightarrow> seed_id \<Rightarrow> u64 \<Rightarrow> bytes \<Rightarrow> wasm_demo \<Rightarrow> validation_outcome mcpix \<times> wasm_demo" where
  "wasm_sdk_validate L sid t code (SeqDemo st) =
     (let (r, st') = validate_receipt L default_sdk ((), ()) sid t code st in (r, SeqDemo st'))"
| "wasm_sdk_validate L sid t code (QuantDemo st now w) =
     (let (r, st') = validate_receipt L quantized_sdk ((), ()) sid t code st
      in (r, QuantDemo st' now w))"

fun wasm_sdk_peek :: "seed_id \<Rightarrow> u64 \<Rightarrow> wasm_demo \<Rightarrow> receipt option mcpix" where
  "wasm_sdk_peek sid t (SeqDemo st) = peek_retained default_sdk () sid t st"
| "wasm_sdk_peek sid t (QuantDemo st now w) = peek_retained quantized_sdk () sid t st"

section \<open>Values for JavaScript\<close>

record generate_charge_out =
  go_seed_id :: bytes
  go_counter :: u64
  go_amount_cents :: u64
  go_transport_field :: bytes
  go_retained_c2 :: bytes

record payer_recover_out =
  po_seed_id :: bytes
  po_c1 :: bytes
  po_recovered_c2 :: bytes
  po_counter :: u64

definition esc :: "bool \<Rightarrow> bytes \<Rightarrow> bytes js" where
  "esc debug s = (if debug \<and> \<not> list_all is_alnum s then Panic else Ok s)"

definition quoted :: "bytes \<Rightarrow> bytes" where
  "quoted s = [0x22] @ s @ [0x22]"

definition member :: "string \<Rightarrow> bytes \<Rightarrow> bytes" where
  "member k v = quoted (ascii k) @ ascii '':'' @ v"

definition register_to_js :: "bool \<Rightarrow> bytes \<Rightarrow> bytes js" where
  "register_to_js debug seed_id =
     and_then (esc debug seed_id) (\<lambda>s.
     Ok (ascii ''{'' @ member ''seed_id'' (quoted s) @ ascii ''}''))"

definition generate_to_js :: "bool \<Rightarrow> generate_charge_out \<Rightarrow> bytes js" where
  "generate_to_js debug v =
     and_then (esc debug (go_seed_id v)) (\<lambda>s.
     and_then (esc debug (go_transport_field v)) (\<lambda>f.
     and_then (esc debug (go_retained_c2 v)) (\<lambda>c.
     Ok (ascii ''{'' @ member ''seed_id'' (quoted s)
       @ ascii '','' @ member ''counter'' (show_nat (unat (go_counter v)))
       @ ascii '','' @ member ''amount_cents'' (show_nat (unat (go_amount_cents v)))
       @ ascii '','' @ member ''transport_field'' (quoted f)
       @ ascii '','' @ member ''retained_c2'' (quoted c) @ ascii ''}''))))"

definition payer_to_js :: "bool \<Rightarrow> payer_recover_out \<Rightarrow> bytes js" where
  "payer_to_js debug v =
     and_then (esc debug (po_seed_id v)) (\<lambda>s.
     and_then (esc debug (po_c1 v)) (\<lambda>a.
     and_then (esc debug (po_recovered_c2 v)) (\<lambda>b.
     Ok (ascii ''{'' @ member ''seed_id'' (quoted s) @ ascii '','' @ member ''c1'' (quoted a)
       @ ascii '','' @ member ''recovered_c2'' (quoted b)
       @ ascii '','' @ member ''counter'' (show_nat (unat (po_counter v))) @ ascii ''}''))))"

section \<open>Operations\<close>

definition wasm_register ::
  "bool \<Rightarrow> (bytes + (nat \<Rightarrow> byte)) \<times> unit \<Rightarrow> bytes \<Rightarrow> wasm_demo \<Rightarrow> bytes js \<times> wasm_demo" where
  "wasm_register debug env seed_id d =
     st_then (map_err mcpix_display (seed_id_new seed_id), d) (\<lambda>sid d.
     st_then (apfst (map_err mcpix_display) (wasm_sdk_register env sid d)) (\<lambda>proof d.
     (register_to_js debug (sid_as_str (rp_seed_id proof)), d)))"

text \<open>The value \<^verbatim>\<open>generate_charge\<close> hands to \<^verbatim>\<open>serde_to_js\<close>, and the whole operation.\<close>

definition wasm_generate_out ::
  "crypto_lib \<Rightarrow> bytes \<Rightarrow> u64 \<Rightarrow> wasm_demo \<Rightarrow> generate_charge_out js \<times> wasm_demo" where
  "wasm_generate_out L seed_id amount_cents d =
     st_then (map_err mcpix_display (seed_id_new seed_id), d) (\<lambda>sid d.
     st_then (apfst (map_err mcpix_display) (wasm_sdk_generate L sid amount_cents d)) (\<lambda>charge d.
     st_then (and_then (map_err mcpix_display (wasm_sdk_peek sid (ch_counter charge) d))
                (ok_or (ascii ''retained receipt missing'')), d) (\<lambda>retained d.
     st_then (c2_as_str (rr_expected_c2 retained), d) (\<lambda>c2_str d.
     (Ok \<lparr> go_seed_id = sid_as_str (ch_seed_id charge), go_counter = ch_counter charge,
           go_amount_cents = ch_amount_cents charge,
           go_transport_field = ch_transport_field charge, go_retained_c2 = c2_str \<rparr>, d)))))"

definition wasm_generate_charge ::
  "crypto_lib \<Rightarrow> bool \<Rightarrow> bytes \<Rightarrow> u64 \<Rightarrow> wasm_demo \<Rightarrow> bytes js \<times> wasm_demo" where
  "wasm_generate_charge L debug seed_id amount_cents d =
     st_then (wasm_generate_out L seed_id amount_cents d) (\<lambda>v d. (generate_to_js debug v, d))"

definition wasm_payer_out ::
  "crypto_lib \<Rightarrow> bytes \<Rightarrow> u64 \<Rightarrow> wasm_demo \<Rightarrow> payer_recover_out js" where
  "wasm_payer_out L transport_field counter d =
     and_then (map_err mcpix_display (parse transport_field)) (\<lambda>parsed.
     and_then (and_then (map_err mcpix_display (mem_get_seed (pf_seed_id parsed) (wasm_store d)))
                 (ok_or (ascii ''unknown seed (n'' @ [0xC3, 0xA3] @ ascii ''o registrado neste banco)'')))
       (\<lambda>seed.
     and_then (map_err mcpix_display (apply_recover_c2 L seed counter (pf_c1 parsed))) (\<lambda>c2.
     and_then (c1_as_str (pf_c1 parsed)) (\<lambda>c1_str.
     and_then (c2_as_str c2) (\<lambda>c2_str.
     Ok \<lparr> po_seed_id = sid_as_str (pf_seed_id parsed), po_c1 = c1_str,
          po_recovered_c2 = c2_str, po_counter = counter \<rparr>)))))"

definition wasm_payer_recover_c2 ::
  "crypto_lib \<Rightarrow> bool \<Rightarrow> bytes \<Rightarrow> u64 \<Rightarrow> wasm_demo \<Rightarrow> bytes js" where
  "wasm_payer_recover_c2 L debug transport_field counter d =
     and_then (wasm_payer_out L transport_field counter d) (payer_to_js debug)"

fun outcome_name :: "validation_outcome \<Rightarrow> bytes" where
  "outcome_name Valid = ascii ''Valid''"
| "outcome_name MismatchOutcome = ascii ''Mismatch''"
| "outcome_name Replay = ascii ''Replay''"

definition wasm_validate_receipt ::
  "crypto_lib \<Rightarrow> bytes \<Rightarrow> u64 \<Rightarrow> bytes \<Rightarrow> wasm_demo \<Rightarrow> bytes js \<times> wasm_demo" where
  "wasm_validate_receipt L seed_id counter presented_c2 d =
     st_then (map_err mcpix_display (seed_id_new seed_id), d) (\<lambda>sid d.
     st_then (apfst (map_err mcpix_display) (wasm_sdk_validate L sid counter presented_c2 d)) (\<lambda>outc d.
     (Ok (outcome_name outc), d)))"

section \<open>Lemmas\<close>

fun wasm_set_store :: "mem_store \<Rightarrow> wasm_demo \<Rightarrow> wasm_demo" where
  "wasm_set_store m (SeqDemo st) = SeqDemo (st \<lparr> store_st := m \<rparr>)"
| "wasm_set_store m (QuantDemo st now w) = QuantDemo (st \<lparr> store_st := m \<rparr>) now w"

lemma wasm_store_set [simp]: "wasm_store (wasm_set_store m d) = m"
  by (cases d) simp_all

lemma wasm_generate_effect:
  assumes "crypto_ok L" and "seed_id_wf sid" and "wasm_sdk_generate L sid amount d = (Ok c, d')"
  shows "\<exists>s n. ms_seeds (wasm_store d) sid = Some s \<and> c = charge_spec L s sid n amount \<and>
    wasm_store d' = snd (mem_save_receipt (receipt_spec L s sid n amount) (wasm_store d))"
  using assms(3)
  by (cases d) (auto simp: mem_generate_charge [OF assms(1,2)]
      split: option.splits prod.splits outcome.splits)

lemma wasm_validate_eq:
  assumes "crypto_ok L" and "ms_receipts (wasm_store d) (sid, t) = Some q" and "c2_wf (C2 code)"
  shows "wasm_sdk_validate L sid t code d =
    (if rr_consumed q then (Ok Replay, d)
     else if C2 code = rr_expected_c2 q
     then (Ok Valid, wasm_set_store ((wasm_store d) \<lparr> ms_receipts :=
       (ms_receipts (wasm_store d))((sid, t) \<mapsto> q \<lparr> rr_consumed := True \<rparr>) \<rparr>) d)
     else (Ok MismatchOutcome, d))"
  using assms
  by (cases d) (simp_all add: mem_validate_receipt c2_parse_Ok_iff [THEN iffD2])

lemma esc_alnum: "\<forall>b \<in> set s. is_alnum b \<Longrightarrow> esc debug s = Ok s"
  by (simp add: esc_def list_all_iff)

section \<open>Properties\<close>

text \<open>
  C36. The demonstration shows the protocol: for a charge the page generates in either mode and in any
  state, the paying side recovers from the public field exactly the code that the receiver retained,
  the page is told \<open>Valid\<close> for it once and \<open>Replay\<close> afterwards, and both exported calls hand a text to
  \<^verbatim>\<open>JSON.parse\<close>: the assertion that nothing in it needs escaping holds in every build.
\<close>

theorem demo_shows_the_protocol:
  assumes L: "crypto_ok L" and g: "wasm_generate_out L sid amount d = (Ok v, d1)"
  shows "\<exists>p d2. wasm_payer_out L (go_transport_field v) (go_counter v) d1 = Ok p \<and>
    po_recovered_c2 p = go_retained_c2 v \<and> go_amount_cents v = amount \<and>
    go_seed_id v = sid \<and> po_seed_id p = sid \<and> po_counter p = go_counter v \<and>
    wasm_validate_receipt L sid (go_counter v) (po_recovered_c2 p) d1 = (Ok (ascii ''Valid''), d2) \<and>
    wasm_validate_receipt L sid (go_counter v) (po_recovered_c2 p) d2 = (Ok (ascii ''Replay''), d2) \<and>
    (\<exists>js. wasm_generate_charge L debug sid amount d = (Ok js, d1)) \<and>
    (\<exists>js. wasm_payer_recover_c2 L debug (go_transport_field v) (go_counter v) d1 = Ok js)"
proof -
  from g obtain i c where i: "seed_id_new sid = Ok i" and sg: "wasm_sdk_generate L i amount d = (Ok c, d1)"
    by (auto simp: wasm_generate_out_def outcome_simps apfst_def map_prod_def split: prod.splits)
  have wf: "seed_id_wf i" and sid: "sid = sid_as_str i" using i by (auto simp: outcome_simps)
  from wasm_generate_effect [OF L wf sg] obtain s n where
    s: "ms_seeds (wasm_store d) i = Some s" and c: "c = charge_spec L s i n amount"
    and st: "wasm_store d1 = snd (mem_save_receipt (receipt_spec L s i n amount) (wasm_store d))"
    by blast
  let ?k = "c2_spec L s n (c1_spec L s n)" and ?q = "receipt_spec L s i n amount"
  have q: "ms_receipts (wasm_store d1) (i, n) = Some ?q" and s1: "ms_seeds (wasm_store d1) i = Some s"
    using s by (simp_all add: st mem_save_receipt_def Let_def)
  have v: "v = \<lparr> go_seed_id = sid, go_counter = n, go_amount_cents = amount,
      go_transport_field = field_of i (c1_spec L s n), go_retained_c2 = c2_chars ?k \<rparr>"
    using g i sg c q
    by (cases d1) (auto simp: wasm_generate_out_def sid apfst_def peek_retained_def mem_store_ops_def
        mem_get_receipt_def)
  have kw: "c2_wf (C2 (c2_chars ?k))" by simp
  define p where "p = \<lparr> po_seed_id = sid, po_c1 = c1_chars (c1_spec L s n),
    po_recovered_c2 = c2_chars ?k, po_counter = n \<rparr>"
  define d2 where "d2 = wasm_set_store ((wasm_store d1) \<lparr> ms_receipts :=
    (ms_receipts (wasm_store d1))((i, n) \<mapsto> ?q \<lparr> rr_consumed := True \<rparr>) \<rparr>) d1"
  have pay: "wasm_payer_out L (field_of i (c1_spec L s n)) n d1 = Ok p"
    using wf L s1 by (simp add: wasm_payer_out_def parse_field_of mem_get_seed_def apply_recover_c2_def
        derive_c2_from_c1_eq p_def sid)
  have v1: "wasm_validate_receipt L sid n (c2_chars ?k) d1 = (Ok (ascii ''Valid''), d2)"
    using wasm_validate_eq [OF L q kw] i by (simp add: wasm_validate_receipt_def d2_def)
  have "ms_receipts (wasm_store d2) (i, n) = Some (?q \<lparr> rr_consumed := True \<rparr>)" by (simp add: d2_def)
  from wasm_validate_eq [OF L this kw]
  have v2: "wasm_validate_receipt L sid n (c2_chars ?k) d2 = (Ok (ascii ''Replay''), d2)"
    using i by (simp add: wasm_validate_receipt_def)
  have al: "\<forall>b \<in> set sid. is_alnum b" "\<forall>b \<in> set (field_of i (c1_spec L s n)). is_alnum b"
    "\<forall>b \<in> set (c2_chars ?k). is_alnum b" "\<forall>b \<in> set (c1_chars (c1_spec L s n)). is_alnum b"
    using wf field_of_alnum [OF wf c1_spec_wf] c2_spec_wf [of L s n "c1_spec L s n"]
      c1_spec_wf [of L s n]
    by (auto simp: sid seed_id_wf_def c2_wf_def c1_wf_def)
  have "is_ok (generate_to_js debug v)" "is_ok (payer_to_js debug p)"
    by (simp_all add: v p_def generate_to_js_def payer_to_js_def al esc_alnum)
  then have js: "\<exists>js. wasm_generate_charge L debug sid amount d = (Ok js, d1)"
    "\<exists>js. wasm_payer_recover_c2 L debug (field_of i (c1_spec L s n)) n d1 = Ok js"
    by (auto simp: wasm_generate_charge_def wasm_payer_recover_c2_def g pay is_ok_iff)
  have p: "po_recovered_c2 p = c2_chars ?k" "po_seed_id p = sid" "po_counter p = n"
    by (simp_all add: p_def)
  show ?thesis
    by (rule exI [of _ p], rule exI [of _ d2]) (use pay v1 v2 js in \<open>simp add: v p\<close>)
qed

lemma demo_wasm_charge:
  "\<exists>v d1. wasm_generate_out demo_crypto (sid_as_str demo_sid) 1990
     (SeqDemo (snd (register default_sdk (Inr (\<lambda>_. 1), ()) demo_sid default_init))) = (Ok v, d1)"
proof -
  let ?st = "snd (register default_sdk (Inr (\<lambda>_. 1), ()) demo_sid default_init)"
  let ?s = "seed_from_bytes (map (\<lambda>_. 1) [0 ..< SEED_LEN])"
  have st: "ms_seeds (store_st ?st) demo_sid = Some ?s" "counter_st ?st = counter_new"
    by (simp_all add: mem_register mem_put_seed_def default_init_def)
  have "counter_next demo_sid counter_new = (Ok 1, [demo_sid \<mapsto> 1])"
    by (simp add: counter_next_def counter_new_def slot_or_insert_def checked_add_0_1)
  with st show ?thesis
    by (simp add: wasm_generate_out_def seed_id_new_as_str mem_generate_charge
        peek_retained_def mem_store_ops_def mem_get_receipt_def mem_save_receipt_def Let_def)
qed

theorem demo_shows_the_protocol_witness:
  "\<exists>v d1 p d2. wasm_generate_out demo_crypto (sid_as_str demo_sid) 1990
     (SeqDemo (snd (register default_sdk (Inr (\<lambda>_. 1), ()) demo_sid default_init))) = (Ok v, d1) \<and>
   wasm_payer_out demo_crypto (go_transport_field v) (go_counter v) d1 = Ok p \<and>
   wasm_validate_receipt demo_crypto (sid_as_str demo_sid) (go_counter v) (po_recovered_c2 p) d1 =
     (Ok (ascii ''Valid''), d2)"
proof -
  let ?d = "SeqDemo (snd (register default_sdk (Inr (\<lambda>_. 1), ()) demo_sid default_init))"
  obtain v d1 where g: "wasm_generate_out demo_crypto (sid_as_str demo_sid) 1990 ?d = (Ok v, d1)"
    using demo_wasm_charge by blast
  from demo_shows_the_protocol [OF demo_crypto_ok g] g show ?thesis by blast
qed

end
