(* ===== verification/Firmware.thy ===== *)
theory Firmware
  imports EmbedStorage
begin

text \<open>
  \<^verbatim>\<open>embedded/src/main.rs\<close> and \<^verbatim>\<open>embedded-uno-q/src/main.rs\<close>, the bare-metal programs, and the QR
  encoder \<^verbatim>\<open>mcpix-embed/src/qr.rs\<close> they call.

  The two programs are the same code but for the seed identifier. One boot takes the flash the
  last one left and returns the status byte it ends with and the flash; a panic halts the device
  with the status it had. The QR library is third-party and a parameter.
\<close>

section \<open>QR codes\<close>

datatype qr_ecc = EccLow | EccMedium | EccQuartile | EccHigh

text \<open>\<^verbatim>\<open>QrCode::encode_text\<close>: text, correction level, smallest and largest version, mask, boost.\<close>

type_synonym 'q qr_encode_text = "bytes \<Rightarrow> qr_ecc \<Rightarrow> nat \<Rightarrow> nat \<Rightarrow> nat option \<Rightarrow> bool \<Rightarrow> 'q option"

definition QR_MAX_VERSION :: nat where "QR_MAX_VERSION = 4"

definition charge_qr :: "'q qr_encode_text \<Rightarrow> bytes \<Rightarrow> 'q embed" where
  "charge_qr encode_text field =
     ok_or ETransportFieldLayout (encode_text field EccMedium 1 QR_MAX_VERSION None True)"

text \<open>A version 4 code of level M holds 62 bytes, so a transport field always fits.\<close>

definition qr_ok :: "'q qr_encode_text \<Rightarrow> bool" where
  "qr_ok encode_text \<longleftrightarrow>
     (\<forall>field. length field = E_TRANSPORT_FIELD_LEN \<longrightarrow>
        encode_text field EccMedium 1 QR_MAX_VERSION None True \<noteq> None)"

section \<open>One boot\<close>

definition FLASH_LEN :: nat where "FLASH_LEN = 256"
definition RECEIPT_SLOT_A :: u32 where "RECEIPT_SLOT_A = 0"
definition RECEIPT_SLOT_B :: u32 where "RECEIPT_SLOT_B = word_of_nat SLOT_SIZE"
definition COUNTER_SLOT_A :: u32 where "COUNTER_SLOT_A = word_of_nat (SLOT_SIZE * 2)"
definition COUNTER_SLOT_B :: u32 where "COUNTER_SLOT_B = word_of_nat (SLOT_SIZE * 3)"

definition receipts_at :: "'f \<Rightarrow> 'f slot_store" where
  "receipts_at flash = store_new flash RECEIPT_SLOT_A RECEIPT_SLOT_B"

definition counters_at :: "'f \<Rightarrow> 'f slot_store" where
  "counters_at flash = store_new flash COUNTER_SLOT_A COUNTER_SLOT_B"

text \<open>What the hardware does in each access of a boot.\<close>

record 'e boot_env =
  be_load_t :: "'e \<times> 'e"
  be_save_t :: "('e \<times> 'e) \<times> 'e \<times> 'e"
  be_save_r :: "('e \<times> 'e) \<times> 'e \<times> 'e"
  be_load_r :: "'e \<times> 'e"
  be_reload_t :: "'e \<times> 'e"
  be_mark :: "('e \<times> 'e) \<times> ('e \<times> 'e) \<times> 'e \<times> 'e"

text \<open>
  The counter: read \<open>last_t\<close>, 0 when there is none to read, and persist its successor before
  anything is derived from it.
\<close>

definition fw_advance ::
  "bool \<Rightarrow> crc32 \<Rightarrow> ('e, 'f) nor_flash_ops \<Rightarrow> 'e boot_env \<Rightarrow> seed_id \<Rightarrow> 'f \<Rightarrow> u64 storage \<times> 'f" where
  "fw_advance oc crc F env seed_id flash =
     st_then (case map_ok pc_last_t (counter_load crc F (be_load_t env) (counters_at flash)) of
                Ok t \<Rightarrow> Ok t | Err _ \<Rightarrow> Ok 0 | Panic \<Rightarrow> Panic, flash) (\<lambda>last_t flash.
     st_then (plus_oc oc last_t 1, flash) (\<lambda>new_t flash.
     let (r, store) = counter_save oc crc F (be_save_t env)
           \<lparr> pc_seed_id = seed_id, pc_last_t = new_t \<rparr> (counters_at flash)
     in (map_ok (\<lambda>_. new_t) r, store_free store)))"

text \<open>A result the program goes on with, or the status it halts with.\<close>

definition go_on ::
  "byte \<Rightarrow> ('x, 'a) outcome \<times> 'f \<Rightarrow> ('a \<Rightarrow> 'f \<Rightarrow> byte \<times> 'f) \<Rightarrow> byte \<times> 'f" where
  "go_on status x k =
     (case x of (Ok v, flash) \<Rightarrow> k v flash | (Err _, flash) \<Rightarrow> (0xFF, flash)
      | (Panic, flash) \<Rightarrow> (status, flash))"

definition fw_charge ::
  "bool \<Rightarrow> crc32 \<Rightarrow> crypto_lib \<Rightarrow> 'q qr_encode_text \<Rightarrow> ('e, 'f) nor_flash_ops \<Rightarrow> 'e boot_env \<Rightarrow>
   seed \<Rightarrow> seed_id \<Rightarrow> u64 \<Rightarrow> 'f \<Rightarrow> byte \<times> 'f" where
  "fw_charge oc crc L encode_text F env seed seed_id new_t flash =
     go_on 0 (embed_derive_pair L seed new_t :: (c1 \<times> c2) embed, flash) (\<lambda>(c1, c2_retained) flash.
     go_on 1 (encode_into seed_id c1 (replicate E_TRANSPORT_FIELD_LEN 0) :: bytes embed, flash)
       (\<lambda>field flash.
     go_on 2 (charge_qr encode_text field, flash) (\<lambda>qr flash.
     let receipt_to_save =
           \<lparr> rr_seed_id = seed_id, rr_counter = new_t, rr_amount_cents = 9900,
             rr_expected_c2 = c2_retained, rr_consumed = False \<rparr>
     in go_on 3 (apsnd store_free
                   (receipt_save oc crc F (be_save_r env) receipt_to_save (receipts_at flash)))
          (\<lambda>_ flash.
        go_on 4 (receipt_load crc F (be_load_r env) (receipts_at flash), flash)
          (\<lambda>loaded_receipt flash.
        go_on 4 (counter_load crc F (be_reload_t env) (counters_at flash), flash)
          (\<lambda>loaded_counter flash.
        if loaded_receipt \<noteq> receipt_to_save \<or> pc_last_t loaded_counter \<noteq> new_t then (0xFF, flash)
        else if embed_verify_c2 L (rr_expected_c2 loaded_receipt) (rr_expected_c2 loaded_receipt)
        then go_on 5 (apsnd store_free
                        (receipt_mark_consumed oc crc F (be_mark env) (receipts_at flash)))
               (\<lambda>_ flash. (6, flash))
        else (0xFF, flash)))))))"

definition firmware ::
  "bool \<Rightarrow> crc32 \<Rightarrow> crypto_lib \<Rightarrow> 'q qr_encode_text \<Rightarrow> ('e, 'f) nor_flash_ops \<Rightarrow> 'e boot_env \<Rightarrow>
   bytes \<Rightarrow> 'f \<Rightarrow> byte \<times> 'f" where
  "firmware oc crc L encode_text F env seed_id_text flash =
     (let seed = seed_from_bytes (replicate 32 0xAB) in
      go_on 0 (embed_seed_id_new seed_id_text, flash) (\<lambda>seed_id flash.
      go_on 0 (fw_advance oc crc F env seed_id flash) (\<lambda>new_t flash.
      fw_charge oc crc L encode_text F env seed seed_id new_t flash)))"

text \<open>The two programs, on the flash in RAM that they create.\<close>

definition ram_env :: "unit boot_env" where
  "ram_env =
     \<lparr> be_load_t = ((), ()), be_save_t = (((), ()), (), ()), be_save_r = (((), ()), (), ()),
       be_load_r = ((), ()), be_reload_t = ((), ()), be_mark = (((), ()), ((), ()), (), ()) \<rparr>"

definition embedded_main :: "bool \<Rightarrow> crc32 \<Rightarrow> crypto_lib \<Rightarrow> 'q qr_encode_text \<Rightarrow> byte \<times> bytes" where
  "embedded_main oc crc L encode_text =
     firmware oc crc L encode_text ram_flash_ops ram_env (ascii ''R1'') (ram_flash_new FLASH_LEN)"

definition uno_q_main :: "bool \<Rightarrow> crc32 \<Rightarrow> crypto_lib \<Rightarrow> 'q qr_encode_text \<Rightarrow> byte \<times> bytes" where
  "uno_q_main oc crc L encode_text =
     firmware oc crc L encode_text ram_flash_ops ram_env (ascii ''UQ1'') (ram_flash_new FLASH_LEN)"

text \<open>What the device does over several boots, as with a flash that keeps its contents.\<close>

fun fw_boots ::
  "bool \<Rightarrow> crc32 \<Rightarrow> crypto_lib \<Rightarrow> 'q qr_encode_text \<Rightarrow> bytes \<Rightarrow> nat \<Rightarrow> byte \<times> bytes" where
  "fw_boots oc crc L encode_text sid 0 = (0, ram_flash_new FLASH_LEN)"
| "fw_boots oc crc L encode_text sid (Suc n) =
     firmware oc crc L encode_text ram_flash_ops ram_env sid
       (snd (fw_boots oc crc L encode_text sid n))"

section \<open>The two stores on one flash\<close>

lemmas fw_layout_defs = FLASH_LEN_def RECEIPT_SLOT_A_def RECEIPT_SLOT_B_def COUNTER_SLOT_A_def
  COUNTER_SLOT_B_def SLOT_SIZE_def

lemma fw_slots [simp]:
  "ss_slot_a (receipts_at f) = 0" "ss_slot_b (receipts_at f) = 64"
  "ss_slot_a (counters_at f) = 128" "ss_slot_b (counters_at f) = 192"
  "ss_flash (receipts_at f) = f" "ss_flash (counters_at f) = f"
  by (simp_all add: receipts_at_def counters_at_def store_new_def fw_layout_defs)

lemma fw_layout [simp]:
  "length (mem f) = 256 \<Longrightarrow> store_layout mem (receipts_at f)"
  "length (mem f) = 256 \<Longrightarrow> store_layout mem (counters_at f)"
  by (simp_all add: store_layout_def layout_ok_def)

lemma fw_apart: "off1 \<in> {0, 64} \<Longrightarrow> off2 \<in> {128, 192} \<Longrightarrow>
    layout_ok 256 off1 off2 \<and> layout_ok 256 off2 off1"
  by (auto simp: layout_ok_def)

lemma receipts_at_eq: "ss_slot_a st = 0 \<Longrightarrow> ss_slot_b st = 64 \<Longrightarrow> st = receipts_at (ss_flash st)"
  by (cases st) (simp add: receipts_at_def store_new_def fw_layout_defs)

lemma counters_at_eq: "ss_slot_a st = 128 \<Longrightarrow> ss_slot_b st = 192 \<Longrightarrow> st = counters_at (ss_flash st)"
  by (cases st) (simp add: counters_at_def store_new_def fw_layout_defs)

text \<open>The records a flash holds: the counter and the receipt that a load would return.\<close>

definition held_t :: "crc32 \<Rightarrow> ('f \<Rightarrow> bytes) \<Rightarrow> 'f \<Rightarrow> (u32 \<times> persisted_counter) option" where
  "held_t crc mem f = stored (counter_codec crc) mem (counters_at f)"

definition held_r :: "crc32 \<Rightarrow> ('f \<Rightarrow> bytes) \<Rightarrow> 'f \<Rightarrow> (u32 \<times> persisted_receipt) option" where
  "held_r crc mem f = stored (retained_codec crc) mem (receipts_at f)"

text \<open>A store on the flash cannot touch the other one, whatever the hardware does.\<close>

lemma held_cong:
  assumes "\<And>off. off \<in> {0, 64} \<Longrightarrow> slot_bytes (mem f') off = slot_bytes (mem f) off"
  shows "held_r crc mem f' = held_r crc mem f"
  using assms by (simp add: held_r_def stored_def slot_of_def)

lemma held_cong_t:
  assumes "\<And>off. off \<in> {128, 192} \<Longrightarrow> slot_bytes (mem f') off = slot_bytes (mem f) off"
  shows "held_t crc mem f' = held_t crc mem f"
  using assms by (simp add: held_t_def stored_def slot_of_def)

lemma slot_stores:
  assumes "nor_flash F mem"
  shows "slot_store F mem (counter_codec crc) counter_wf"
    "slot_store F mem (retained_codec crc) receipt_wf"
  using assms counter.slot_codec_axioms retained.slot_codec_axioms by (simp_all add: slot_store_def)

lemma counter_save_effect:
  assumes F: "nor_flash F mem" and len: "length (mem f) = 256" and wf: "counter_wf c"
    and sv: "counter_save oc crc F es c (counters_at f) = (res, st')"
  obtains f' where "st' = counters_at f'" "length (mem f') = 256"
    "held_r crc mem f' = held_r crc mem f"
    "\<And>n. res = Ok n \<Longrightarrow> n \<noteq> 0 \<Longrightarrow> held_t crc mem f' = Some (n, c)"
proof -
  note S = slot_stores(1) [OF F, of crc]
  have lay: "store_layout mem (counters_at f)" using len by simp
  note sv = sv [unfolded counter_save_def]
  have st': "st' = counters_at (ss_flash st')"
    using slot_store.save_effect [OF S lay wf sv] by (intro counters_at_eq) simp_all
  have fr: "slot_bytes (mem (ss_flash st')) off = slot_bytes (mem f) off"
    "length (mem (ss_flash st')) = 256" if "off \<in> {0, 64}" for off
    using slot_store.save_frame [OF S lay wf sv, of off] fw_apart [OF that, of 128]
      fw_apart [OF that, of 192] by (simp_all add: len)
  have "held_t crc mem (ss_flash st') = Some (n, c)" if "res = Ok n" "n \<noteq> 0" for n
    using slot_store.save_Ok_stored [OF S lay wf sv [unfolded that(1)] that(2)]
    unfolding held_t_def by (subst st' [symmetric]) blast
  with that [OF st' fr(2) [of 0] held_cong [of mem "ss_flash st'" f crc, OF fr(1)]] show thesis by simp
qed

lemma receipt_save_effect:
  assumes F: "nor_flash F mem" and len: "length (mem f) = 256" and wf: "receipt_wf r"
    and sv: "receipt_save oc crc F es r (receipts_at f) = (res, st')"
  obtains f' where "st' = receipts_at f'" "length (mem f') = 256"
    "held_t crc mem f' = held_t crc mem f"
    "\<And>n. res = Ok n \<Longrightarrow> n \<noteq> 0 \<Longrightarrow> held_r crc mem f' = Some (n, r)"
proof -
  note S = slot_stores(2) [OF F, of crc]
  have lay: "store_layout mem (receipts_at f)" using len by simp
  note sv = sv [unfolded receipt_save_def]
  have st': "st' = receipts_at (ss_flash st')"
    using slot_store.save_effect [OF S lay wf sv] by (intro receipts_at_eq) simp_all
  have fr: "slot_bytes (mem (ss_flash st')) off = slot_bytes (mem f) off"
    "length (mem (ss_flash st')) = 256" if "off \<in> {128, 192}" for off
    using slot_store.save_frame [OF S lay wf sv, of off] fw_apart [OF _ that, of 0]
      fw_apart [OF _ that, of 64] by (simp_all add: len)
  have "held_r crc mem (ss_flash st') = Some (n, r)" if "res = Ok n" "n \<noteq> 0" for n
    using slot_store.save_Ok_stored [OF S lay wf sv [unfolded that(1)] that(2)]
    unfolding held_r_def by (subst st' [symmetric]) blast
  with that [OF st' fr(2) [of 128] held_cong_t [of mem "ss_flash st'" f crc, OF fr(1)]] show thesis by simp
qed

lemma held_r_load:
  assumes "nor_flash F mem" and "receipt_load crc F es (receipts_at f) = Ok r"
  obtains q where "held_r crc mem f = Some (q, r)"
  using slot_store.load_Ok_iff [OF slot_stores(2) [OF assms(1)] assms(2) [unfolded receipt_load_def]]
  unfolding held_r_def by blast

lemma held_t_load:
  assumes "nor_flash F mem" and "counter_load crc F es (counters_at f) = Ok c"
  obtains q where "held_t crc mem f = Some (q, c)"
  using slot_store.load_Ok_iff [OF slot_stores(1) [OF assms(1)] assms(2) [unfolded counter_load_def]]
  unfolding held_t_def by blast

lemma mark_keeps_t:
  assumes F: "nor_flash F mem" and len: "length (mem f) = 256"
    and r: "\<And>q r. held_r crc mem f = Some (q, r) \<Longrightarrow> receipt_wf r"
    and mk: "receipt_mark_consumed oc crc F es (receipts_at f) = (res, st')"
  shows "length (mem (ss_flash st')) = 256 \<and> held_t crc mem (ss_flash st') = held_t crc mem f"
proof -
  obtain el es' where es: "es = (el, es')" by (cases es)
  show ?thesis
  proof (cases "receipt_load crc F el (receipts_at f)")
    case (Ok cur)
    show ?thesis
    proof (cases "rr_consumed cur")
      case False
      from held_r_load [OF F Ok] r have "receipt_wf cur" by blast
      then have wf: "receipt_wf (cur \<lparr> rr_consumed := True \<rparr>)" by (simp add: receipt_wf_def)
      obtain res' st2 where sv: "receipt_save oc crc F es' (cur \<lparr> rr_consumed := True \<rparr>)
          (receipts_at f) = (res', st2)" by fastforce
      have "st' = st2" using mk False by (cases res') (simp_all add: receipt_mark_consumed_def es Ok sv)
      moreover obtain f' where "st2 = receipts_at f'" "length (mem f') = 256"
        "held_t crc mem f' = held_t crc mem f"
        by (rule receipt_save_effect [OF F len wf sv])
      ultimately show ?thesis by simp
    qed (use mk Ok es len in \<open>auto simp: receipt_mark_consumed_def\<close>)
  qed (use mk es len in \<open>auto simp: receipt_mark_consumed_def\<close>)
qed

text \<open>On the flash in RAM every access succeeds, until a sequence number is used up.\<close>

definition fw_holds ::
  "crc32 \<Rightarrow> (u32 \<times> persisted_counter) option \<Rightarrow> (u32 \<times> persisted_receipt) option \<Rightarrow> bytes \<Rightarrow> bool" where
  "fw_holds crc c r f \<longleftrightarrow> length f = 256 \<and> held_t crc (\<lambda>m. m) f = c \<and> held_r crc (\<lambda>m. m) f = r"

lemma fw_holds_erased: "fw_holds crc None None (ram_flash_new FLASH_LEN)"
proof -
  have "slot_of (counter_codec crc) (\<lambda>m. m) (counters_at (ram_flash_new FLASH_LEN)) off = None"
    "slot_of (retained_codec crc) (\<lambda>m. m) (receipts_at (ram_flash_new FLASH_LEN)) off = None" for off
    by (simp_all add: slot_of_def erased_flash_unreadable)
  then show ?thesis
    by (simp add: fw_holds_def held_t_def held_r_def stored_def latest_def ram_flash_new_def
        FLASH_LEN_def)
qed

lemma fw_loads:
  assumes "fw_holds crc c r f"
  shows "counter_load crc ram_flash_ops es (counters_at f) =
      (case c of None \<Rightarrow> Err Empty | Some (_, c) \<Rightarrow> Ok c)"
    "receipt_load crc ram_flash_ops es (receipts_at f) =
      (case r of None \<Rightarrow> Err Empty | Some (_, r) \<Rightarrow> Ok r)"
  using assms
  by (simp_all add: fw_holds_def counter_load_def receipt_load_def ram_load held_t_def held_r_def)

lemma fw_save_t:
  assumes "fw_holds crc c r f" and "counter_wf x"
    and "n = (case c of None \<Rightarrow> 1 | Some (q, _) \<Rightarrow> q + 1)" and "n \<noteq> 0"
  obtains f' where "counter_save oc crc ram_flash_ops es x (counters_at f) = (Ok n, counters_at f')"
    "fw_holds crc (Some (n, x)) r f'"
proof -
  have len: "length f = 256" using assms(1) by (simp add: fw_holds_def)
  then have lay: "store_layout (\<lambda>m. m) (counters_at f)" by simp
  have q: "case stored (counter_codec crc) (\<lambda>m. m) (counters_at f) of None \<Rightarrow> n = 1
      | Some (q, _) \<Rightarrow> n = q + 1"
    using assms(1,3) by (auto simp: fw_holds_def held_t_def split: option.split)
  obtain st' where sv: "counter_save oc crc ram_flash_ops es x (counters_at f) = (Ok n, st')"
    using ram_save_stored [OF counter.slot_codec_axioms lay assms(2) q assms(4), of oc es]
    unfolding counter_save_def by blast
  obtain f' where f': "st' = counters_at f'" "length f' = 256"
    "held_r crc (\<lambda>m. m) f' = held_r crc (\<lambda>m. m) f"
    "\<And>k. Ok n = (Ok k :: u32 storage) \<Longrightarrow> k \<noteq> 0 \<Longrightarrow> held_t crc (\<lambda>m. m) f' = Some (k, x)"
    by (rule counter_save_effect [OF ram.nor_flash_axioms len assms(2) sv]) blast
  show thesis
    using that [of f'] sv f' assms(1,4) by (simp add: fw_holds_def)
qed

lemma fw_save_r:
  assumes "fw_holds crc c r f" and "receipt_wf x"
    and "n = (case r of None \<Rightarrow> 1 | Some (q, _) \<Rightarrow> q + 1)" and "n \<noteq> 0"
  obtains f' where "receipt_save oc crc ram_flash_ops es x (receipts_at f) = (Ok n, receipts_at f')"
    "fw_holds crc c (Some (n, x)) f'"
proof -
  have len: "length f = 256" using assms(1) by (simp add: fw_holds_def)
  then have lay: "store_layout (\<lambda>m. m) (receipts_at f)" by simp
  have q: "case stored (retained_codec crc) (\<lambda>m. m) (receipts_at f) of None \<Rightarrow> n = 1
      | Some (q, _) \<Rightarrow> n = q + 1"
    using assms(1,3) by (auto simp: fw_holds_def held_r_def split: option.split)
  obtain st' where sv: "receipt_save oc crc ram_flash_ops es x (receipts_at f) = (Ok n, st')"
    using ram_save_stored [OF retained.slot_codec_axioms lay assms(2) q assms(4), of oc es]
    unfolding receipt_save_def by blast
  obtain f' where f': "st' = receipts_at f'" "length f' = 256"
    "held_t crc (\<lambda>m. m) f' = held_t crc (\<lambda>m. m) f"
    "\<And>k. Ok n = (Ok k :: u32 storage) \<Longrightarrow> k \<noteq> 0 \<Longrightarrow> held_r crc (\<lambda>m. m) f' = Some (k, x)"
    by (rule receipt_save_effect [OF ram.nor_flash_axioms len assms(2) sv]) blast
  show thesis
    using that [of f'] sv f' assms(1,4) by (simp add: fw_holds_def)
qed

lemma fw_mark:
  assumes "fw_holds crc c (Some (q, x)) f" and "receipt_wf x" and "\<not> rr_consumed x" and "q + 1 \<noteq> 0"
  obtains f' where
    "receipt_mark_consumed oc crc ram_flash_ops es (receipts_at f) = (Ok (), receipts_at f')"
    "fw_holds crc c (Some (q + 1, x \<lparr> rr_consumed := True \<rparr>)) f'"
proof -
  obtain el es' where es: "es = (el, es')" by (cases es)
  have "receipt_wf (x \<lparr> rr_consumed := True \<rparr>)" using assms(2) by (simp add: receipt_wf_def)
  from fw_save_r [OF assms(1) this, of "q + 1" oc es'] assms(4) obtain f' where
    "receipt_save oc crc ram_flash_ops es' (x \<lparr> rr_consumed := True \<rparr>) (receipts_at f) =
       (Ok (q + 1), receipts_at f')"
    "fw_holds crc c (Some (q + 1, x \<lparr> rr_consumed := True \<rparr>)) f'" by auto
  with assms(3) that [of f'] fw_loads(2) [OF assms(1), of el] show thesis
    by (simp add: receipt_mark_consumed_def es)
qed

section \<open>A boot on a working flash\<close>

abbreviation fw_seed :: seed where
  "fw_seed \<equiv> seed_from_bytes (replicate 32 0xAB)"

definition fw_receipt :: "crypto_lib \<Rightarrow> seed_id \<Rightarrow> u64 \<Rightarrow> bool \<Rightarrow> receipt" where
  "fw_receipt L sid t consumed =
     \<lparr> rr_seed_id = sid, rr_counter = t, rr_amount_cents = 9900,
       rr_expected_c2 = c2_spec L fw_seed t (c1_spec L fw_seed t), rr_consumed = consumed \<rparr>"

lemma fw_receipt_wf: "seed_id_wf sid \<Longrightarrow> receipt_wf (fw_receipt L sid t b)"
  by (simp add: receipt_wf_def fw_receipt_def)

lemma plus_oc_1: "unat w + 1 < 2 ^ LENGTH('a) \<Longrightarrow> plus_oc oc w 1 = Ok (w + 1)"
  for w :: "'a::len word"
  by (simp add: plus_oc_def)

lemma fw_advance_ram:
  assumes "fw_holds crc c r f" and "seed_id_wf sid"
    and t: "t = (case c of None \<Rightarrow> 0 | Some (_, x) \<Rightarrow> pc_last_t x)" "unat t + 1 < 2 ^ 64"
    and n: "n = (case c of None \<Rightarrow> 1 | Some (q, _) \<Rightarrow> q + 1)" "n \<noteq> 0"
  obtains f' where "fw_advance oc crc ram_flash_ops env sid f = (Ok (t + 1), f')"
    "fw_holds crc (Some (n, \<lparr> pc_seed_id = sid, pc_last_t = t + 1 \<rparr>)) r f'"
proof -
  let ?x = "\<lparr> pc_seed_id = sid, pc_last_t = t + 1 \<rparr>"
  have wf: "counter_wf ?x" using assms(2) by (simp add: counter_wf_def)
  obtain f' where f': "counter_save oc crc ram_flash_ops (be_save_t env) ?x (counters_at f) =
      (Ok n, counters_at f')" "fw_holds crc (Some (n, ?x)) r f'"
    by (rule fw_save_t [OF assms(1) wf n, of oc "be_save_t env"])
  have free: "store_free (counters_at f') = f'" by (simp add: store_free_def)
  have "plus_oc oc t 1 = (Ok (t + 1) :: u64 storage)" using t(2) by (intro plus_oc_1) simp
  then have "fw_advance oc crc ram_flash_ops env sid f = (Ok (t + 1), f')"
    using f'(1) t(1) by (cases c)
      (auto simp: fw_advance_def fw_loads [OF assms(1)] Let_def free)
  with f'(2) that show thesis by blast
qed

lemma fw_charge_ram:
  assumes h: "fw_holds crc (Some (nt, \<lparr> pc_seed_id = sid, pc_last_t = t \<rparr>)) r f"
    and L: "crypto_ok L" and Q: "qr_ok Q" and wf: "seed_id_wf sid"
    and n: "n = (case r of None \<Rightarrow> 1 | Some (q, _) \<Rightarrow> q + 1)" "n \<noteq> 0" "n + 1 \<noteq> 0"
  obtains f' where "fw_charge oc crc L Q ram_flash_ops env fw_seed sid t f = (6, f')"
    "fw_holds crc (Some (nt, \<lparr> pc_seed_id = sid, pc_last_t = t \<rparr>))
       (Some (n + 1, fw_receipt L sid t True)) f'"
proof -
  let ?q = "fw_receipt L sid t False" and ?c1 = "c1_spec L fw_seed t"
  obtain f1 where f1: "receipt_save oc crc ram_flash_ops (be_save_r env) ?q (receipts_at f) =
      (Ok n, receipts_at f1)"
    "fw_holds crc (Some (nt, \<lparr> pc_seed_id = sid, pc_last_t = t \<rparr>)) (Some (n, ?q)) f1"
    by (rule fw_save_r [OF h fw_receipt_wf [OF wf] n(1,2), of oc "be_save_r env"])
  obtain f2 where f2: "receipt_mark_consumed oc crc ram_flash_ops (be_mark env) (receipts_at f1) =
      (Ok (), receipts_at f2)"
    "fw_holds crc (Some (nt, \<lparr> pc_seed_id = sid, pc_last_t = t \<rparr>))
       (Some (n + 1, ?q \<lparr> rr_consumed := True \<rparr>)) f2"
    using fw_mark [OF f1(2) fw_receipt_wf [OF wf] _ n(3), of oc "be_mark env"]
    by (auto simp: fw_receipt_def)
  have enc: "encode_into sid ?c1 (replicate E_TRANSPORT_FIELD_LEN 0) =
      (Ok (field_of sid ?c1) :: bytes embed)"
    by (rule encode_into_eq [OF wf]) (simp_all add: embed_len_defs)
  have "\<exists>qr. charge_qr Q (field_of sid ?c1) = Ok qr"
    using Q length_field_of [OF wf c1_spec_wf [of L fw_seed t]]
    by (auto simp: qr_ok_def charge_qr_def embed_len_defs)
  then obtain qr where qr: "charge_qr Q (field_of sid ?c1) = Ok qr" ..
  have save: "\<lparr> rr_seed_id = sid, rr_counter = t, rr_amount_cents = 9900,
      rr_expected_c2 = c2_spec L fw_seed t ?c1, rr_consumed = False \<rparr> = ?q"
    by (simp add: fw_receipt_def)
  have "fw_charge oc crc L Q ram_flash_ops env fw_seed sid t f = (6, f2)"
    using L f1(1) f2(1)
    by (simp add: fw_charge_def go_on_def embed_derive_pair_eq enc qr save Let_def store_free_def
        fw_loads [OF f1(2)] embed_verify_c2_def)
  moreover have "?q \<lparr> rr_consumed := True \<rparr> = fw_receipt L sid t True"
    by (simp add: fw_receipt_def)
  ultimately show thesis using that f2(2) by metis
qed

section \<open>Properties\<close>

lemma word_of_nat_ne_0: "0 < n \<Longrightarrow> n < 2 ^ LENGTH('a) \<Longrightarrow> (word_of_nat n :: 'a::len word) \<noteq> 0"
  by (metis mod_less neq0_conv unat_0 unat_of_nat)

lemma fw_boots_holds:
  assumes L: "crypto_ok L" and Q: "qr_ok Q" and sid: "embed_seed_id_new sid_text = Ok sid"
    and n: "0 < n" "2 * n < 2 ^ 32"
  shows "\<exists>f. fw_boots oc crc L Q sid_text n = (6, f) \<and>
    fw_holds crc (Some (word_of_nat n, \<lparr> pc_seed_id = sid, pc_last_t = word_of_nat n \<rparr>))
      (Some (word_of_nat (2 * n), fw_receipt L sid (word_of_nat n) True)) f"
  using n
proof (induction n)
  case (Suc n)
  have wf: "seed_id_wf sid" using sid by (simp add: embed_seed_id_new_Ok_iff)
  define c where "c = (if n = 0 then None
    else Some (word_of_nat n :: u32, \<lparr> pc_seed_id = sid, pc_last_t = word_of_nat n \<rparr>))"
  define r where "r = (if n = 0 then None
    else Some (word_of_nat (2 * n) :: u32, fw_receipt L sid (word_of_nat n) True))"
  obtain f where f: "snd (fw_boots oc crc L Q sid_text n) = f" "fw_holds crc c r f"
    using Suc fw_holds_erased [of crc] by (cases "n = 0") (auto simp: c_def r_def)
  have t: "(word_of_nat n :: u64) = (case c of None \<Rightarrow> 0 | Some (_, x) \<Rightarrow> pc_last_t x)"
    "unat (word_of_nat n :: u64) + 1 < 2 ^ 64"
    using Suc.prems by (simp_all add: c_def unat_of_nat)
  have nt: "(word_of_nat (Suc n) :: u32) = (case c of None \<Rightarrow> 1 | Some (q, _) \<Rightarrow> q + 1)"
    "(word_of_nat (Suc n) :: u32) \<noteq> 0"
    using Suc.prems word_of_nat_ne_0 [of "Suc n", where 'a = 32] by (simp_all add: c_def)
  have nr: "(word_of_nat (Suc (2 * n)) :: u32) = (case r of None \<Rightarrow> 1 | Some (q, _) \<Rightarrow> q + 1)"
    by (simp add: r_def)
  have nr': "(word_of_nat (Suc (2 * n)) :: u32) \<noteq> 0"
    by (rule word_of_nat_ne_0) (use Suc.prems in simp_all)
  have "(word_of_nat (Suc (Suc (2 * n))) :: u32) \<noteq> 0"
    by (rule word_of_nat_ne_0) (use Suc.prems in simp_all)
  then have nr'': "(word_of_nat (Suc (2 * n)) :: u32) + 1 \<noteq> 0"
    by (simp only: of_nat_Suc add.commute) simp
  have suc: "(word_of_nat n :: u64) + 1 = word_of_nat (Suc n)"
    "(word_of_nat (Suc (2 * n)) :: u32) + 1 = word_of_nat (2 * Suc n)" by simp_all
  obtain f1 where f1: "fw_advance oc crc ram_flash_ops ram_env sid f = (Ok (word_of_nat (Suc n)), f1)"
    "fw_holds crc (Some (word_of_nat (Suc n), \<lparr> pc_seed_id = sid, pc_last_t = word_of_nat (Suc n) \<rparr>)) r f1"
    by (rule fw_advance_ram [OF f(2) wf t nt, of oc ram_env, unfolded suc])
  obtain f2 where f2: "fw_charge oc crc L Q ram_flash_ops ram_env fw_seed sid (word_of_nat (Suc n)) f1 = (6, f2)"
    "fw_holds crc (Some (word_of_nat (Suc n), \<lparr> pc_seed_id = sid, pc_last_t = word_of_nat (Suc n) \<rparr>))
      (Some (word_of_nat (2 * Suc n), fw_receipt L sid (word_of_nat (Suc n)) True)) f2"
    by (rule fw_charge_ram [OF f1(2) L Q wf nr nr' nr'', of oc ram_env, unfolded suc])
  have "fw_boots oc crc L Q sid_text (Suc n) = (6, f2)"
    using f1(1) f2(1) by (simp add: firmware_def sid go_on_def f(1) del: of_nat_Suc)
  with f2(2) show ?case by blast
qed simp

text \<open>
  C14. The device works boot after boot: on a flash that keeps its contents every boot, up to the
  last sequence number of the receipt slots, ends with status 6; after boot \<open>n\<close> the flash gives
  back \<open>T = n\<close>, so no \<open>T\<close> is used twice, and the receipt of this \<open>T\<close>, with the code the device
  derived for it, marked consumed.
\<close>
theorem firmware_boots_charge_and_consume:
  assumes "crypto_ok L" and "qr_ok Q" and "embed_seed_id_new sid_text = Ok sid"
    and "0 < n" and "2 * n < 2 ^ 32"
  shows "\<exists>f c1 c2. fw_boots oc crc L Q sid_text n = (6, f) \<and>
    counter_load crc ram_flash_ops es (counters_at f) =
      Ok \<lparr> pc_seed_id = sid, pc_last_t = word_of_nat n \<rparr> \<and>
    embed_derive_pair L (seed_from_bytes (replicate 32 0xAB)) (word_of_nat n) =
      (Ok (c1, c2) :: (c1 \<times> c2) embed) \<and>
    receipt_load crc ram_flash_ops es (receipts_at f) =
      Ok \<lparr> rr_seed_id = sid, rr_counter = word_of_nat n, rr_amount_cents = 9900,
           rr_expected_c2 = c2, rr_consumed = True \<rparr>"
proof -
  from fw_boots_holds [OF assms, of oc crc] obtain f where f:
    "fw_boots oc crc L Q sid_text n = (6, f)"
    "fw_holds crc (Some (word_of_nat n, \<lparr> pc_seed_id = sid, pc_last_t = word_of_nat n \<rparr>))
      (Some (word_of_nat (2 * n), fw_receipt L sid (word_of_nat n) True)) f" by blast
  show ?thesis
    by (rule exI [of _ f], rule exI [of _ "c1_spec L fw_seed (word_of_nat n)"],
        rule exI [of _ "c2_spec L fw_seed (word_of_nat n) (c1_spec L fw_seed (word_of_nat n))"])
      (simp add: f(1) fw_loads [OF f(2)] embed_derive_pair_eq [OF assms(1)] fw_receipt_def)
qed

definition demo_qr :: "unit qr_encode_text" where
  "demo_qr field ecc lo hi m boost = (if length field \<le> 62 then Some () else None)"

lemma demo_qr_ok: "qr_ok demo_qr"
  by (simp add: qr_ok_def demo_qr_def embed_len_defs)

theorem firmware_boots_charge_and_consume_witness:
  "fst (embedded_main True (\<lambda>_. 0) demo_crypto demo_qr) = 6 \<and>
   fst (uno_q_main True (\<lambda>_. 0) demo_crypto demo_qr) = 6"
proof -
  have sid: "embed_seed_id_new (ascii ''R1'') = Ok (SeedId (ascii ''R1''))"
    "embed_seed_id_new (ascii ''UQ1'') = Ok (SeedId (ascii ''UQ1''))"
    by (simp_all add: embed_seed_id_new_Ok_iff seed_id_wf_def ascii_def is_alnum_def is_digit_def)
  have "\<exists>f. fw_boots True (\<lambda>_. 0) demo_crypto demo_qr (ascii ''R1'') 1 = (6, f)"
    "\<exists>f. fw_boots True (\<lambda>_. 0) demo_crypto demo_qr (ascii ''UQ1'') 1 = (6, f)"
    using firmware_boots_charge_and_consume
        [OF demo_crypto_ok demo_qr_ok sid(1), of 1 True "\<lambda>_. 0" "((), ())"]
      firmware_boots_charge_and_consume
        [OF demo_crypto_ok demo_qr_ok sid(2), of 1 True "\<lambda>_. 0" "((), ())"]
    by auto
  then show ?thesis by (auto simp: embedded_main_def uno_q_main_def)
qed

text \<open>What \<open>fw_advance\<close> leaves on any flash, and that the rest of the boot keeps it.\<close>

lemma fw_advance_Ok:
  assumes "fw_advance oc crc F env sid f = (Ok t, f')"
  obtains last_t n st' where "t = last_t + 1"
    "\<And>c. counter_load crc F (be_load_t env) (counters_at f) = Ok c \<Longrightarrow> last_t = pc_last_t c"
    "counter_save oc crc F (be_save_t env) \<lparr> pc_seed_id = sid, pc_last_t = t \<rparr> (counters_at f) =
       (Ok n, st')" "f' = store_free st'"
proof -
  let ?load = "counter_load crc F (be_load_t env) (counters_at f)"
  let ?save = "\<lambda>t. counter_save oc crc F (be_save_t env) \<lparr> pc_seed_id = sid, pc_last_t = t \<rparr>
    (counters_at f)"
  from assms obtain last_t t' where
    l: "(case map_ok pc_last_t ?load of Ok t \<Rightarrow> Ok t | Err _ \<Rightarrow> Ok 0 | Panic \<Rightarrow> Panic) =
      (Ok last_t :: u64 storage)" and p: "plus_oc oc last_t 1 = (Ok t' :: u64 storage)"
    and s: "(let (r, store) = ?save t' in (map_ok (\<lambda>_. t') r, store_free store)) = (Ok t, f')"
    by (auto simp: fw_advance_def st_then_Ok_iff)
  obtain r st' where rs: "?save t' = (r, st')" by fastforce
  from s rs obtain n where "r = Ok n" "t' = t" "f' = store_free st'" by (auto simp: outcome_simps)
  moreover have "t' = last_t + 1" using p by (simp add: plus_oc_def split: if_splits)
  moreover have "last_t = pc_last_t c" if "?load = Ok c" for c using l that by simp
  ultimately show thesis using that [of last_t n st'] rs by simp
qed

lemma fw_advance_effect:
  assumes F: "nor_flash F mem" and len: "length (mem f) = 256" and wf: "seed_id_wf sid"
    and room: "case held_t crc mem f of None \<Rightarrow> True | Some (q, _) \<Rightarrow> q + 1 \<noteq> 0"
    and adv: "fw_advance oc crc F env sid f = (Ok t, f')"
  shows "length (mem f') = 256 \<and>
    (\<exists>n. held_t crc mem f' = Some (n, \<lparr> pc_seed_id = sid, pc_last_t = t \<rparr>))"
proof -
  let ?x = "\<lparr> pc_seed_id = sid, pc_last_t = t \<rparr>"
  have x: "counter_wf ?x" using wf by (simp add: counter_wf_def)
  from adv obtain last_t n st' where
    sv: "counter_save oc crc F (be_save_t env) ?x (counters_at f) = (Ok n, st')"
    and f': "f' = store_free st'" by (rule fw_advance_Ok)
  have lay: "store_layout mem (counters_at f)" using len by simp
  from slot_store.save_effect [OF slot_stores(1) [OF F] lay x sv [unfolded counter_save_def]]
  have "next_seq oc (slot_of (counter_codec crc) mem (counters_at f) 128)
      (slot_of (counter_codec crc) mem (counters_at f) 192) = Ok n" by simp
  then have "(case held_t crc mem f of None \<Rightarrow> Ok 1 | Some (q, _) \<Rightarrow> plus_oc oc q 1) =
      (Ok n :: u32 storage)"
    by (simp add: held_t_def stored_def next_seq_stored)
  with room have n: "n \<noteq> 0" by (auto simp: plus_oc_def split: option.splits prod.splits if_splits)
  obtain f'' where "st' = counters_at f''" "length (mem f'') = 256"
      "\<And>n'. (Ok n :: u32 storage) = Ok n' \<Longrightarrow> n' \<noteq> 0 \<Longrightarrow> held_t crc mem f'' = Some (n', ?x)"
    by (rule counter_save_effect [OF F len x sv]) blast
  with n f' show ?thesis by (auto simp: store_free_def)
qed

lemma fw_charge_keeps_t:
  assumes F: "nor_flash F mem" and len: "length (mem f) = 256" and wf: "seed_id_wf sid"
    and L: "crypto_ok L" and ch: "fw_charge oc crc L Q F env s sid t f = (status, f')"
  shows "length (mem f') = 256 \<and> held_t crc mem f' = held_t crc mem f"
proof -
  let ?c1 = "c1_spec L s t"
  define q where "q = \<lparr> rr_seed_id = sid, rr_counter = t, rr_amount_cents = 9900,
      rr_expected_c2 = c2_spec L s t ?c1, rr_consumed = False \<rparr>"
  have q: "receipt_wf q" using wf by (simp add: q_def receipt_wf_def)
  have enc: "encode_into sid ?c1 (replicate E_TRANSPORT_FIELD_LEN 0) =
      (Ok (field_of sid ?c1) :: bytes embed)"
    by (rule encode_into_eq [OF wf]) (simp_all add: embed_len_defs)
  note ch = ch [unfolded fw_charge_def embed_derive_pair_eq [OF L] go_on_def prod.case
      outcome.case enc, folded q_def]
  show ?thesis
  proof (cases "charge_qr Q (field_of sid ?c1)")
    case (Ok qr)
    obtain res st1 where sv: "receipt_save oc crc F (be_save_r env) q (receipts_at f) = (res, st1)"
      by fastforce
    obtain f1 where f1: "st1 = receipts_at f1" "length (mem f1) = 256"
      "held_t crc mem f1 = held_t crc mem f"
      by (rule receipt_save_effect [OF F len q sv])
    have free: "store_free (receipts_at g) = g" for g :: 'b by (simp add: store_free_def)
    note ch = ch [unfolded Ok Let_def sv apsnd_conv f1(1) free prod.case outcome.case]
    show ?thesis
    proof (cases "\<exists>n. res = Ok n \<and> receipt_load crc F (be_load_r env) (receipts_at f1) = Ok q")
      case True
      then obtain n where n: "res = Ok n" "receipt_load crc F (be_load_r env) (receipts_at f1) = Ok q"
        by blast
      from held_r_load [OF F n(2)] obtain k where k: "held_r crc mem f1 = Some (k, q)" .
      obtain r2 st2 where mk:
        "receipt_mark_consumed oc crc F (be_mark env) (receipts_at f1) = (r2, st2)" by fastforce
      have "length (mem (ss_flash st2)) = 256 \<and> held_t crc mem (ss_flash st2) = held_t crc mem f1"
        by (rule mark_keeps_t [OF F f1(2) _ mk]) (use k q in simp)
      moreover have "f' = f1 \<or> f' = ss_flash st2"
        using ch n by (auto simp: mk store_free_def split: outcome.splits if_splits)
      ultimately show ?thesis using f1 by auto
    next
      case False
      then have "f' = f1" using ch by (auto split: outcome.splits if_splits)
      with f1 show ?thesis by simp
    qed
  qed (use ch len in auto)
qed

text \<open>
  C19. \<open>T\<close> is spent before it is used: on any flash that keeps its documented contract, once the
  counter step of a boot has succeeded, the flash holds the new \<open>T\<close>, and nothing the rest of the
  boot does or fails to do with its charge brings it back. The next boot whose read of the
  counter succeeds gets \<open>T + 1\<close>.
\<close>
theorem persisted_t_is_spent:
  assumes "nor_flash F mem" and "length (mem f) = 256" and "seed_id_wf sid" and "crypto_ok L"
    and "case held_t crc mem f of None \<Rightarrow> True | Some (q, _) \<Rightarrow> q + 1 \<noteq> 0"
    and "fw_advance oc crc F env sid f = (Ok t, f1)"
    and "fw_charge oc crc L Q F env s sid t f1 = (status, f2)"
    and "fw_advance oc crc F env' sid f2 = (Ok t', f3)"
    and "counter_load crc F (be_load_t env') (counters_at f2) = Ok c"
  shows "pc_last_t c = t \<and> t' = t + 1"
proof -
  from fw_advance_effect [OF assms(1,2,3,5,6)] obtain n where
    1: "length (mem f1) = 256" "held_t crc mem f1 = Some (n, \<lparr> pc_seed_id = sid, pc_last_t = t \<rparr>)"
    by blast
  from fw_charge_keeps_t [OF assms(1) 1(1) assms(3,4,7)] 1(2) have
    2: "length (mem f2) = 256" "held_t crc mem f2 = Some (n, \<lparr> pc_seed_id = sid, pc_last_t = t \<rparr>)"
    by simp_all
  obtain q where "held_t crc mem f2 = Some (q, c)" by (rule held_t_load [OF assms(1,9)])
  with 2(2) have c: "pc_last_t c = t" by simp
  have "t' = pc_last_t c + 1"
    by (rule fw_advance_Ok [OF assms(8)]) (use assms(9) in blast)
  with c show ?thesis by simp
qed

text \<open>A first boot whose QR code cannot be drawn, and a second one.\<close>

theorem persisted_t_is_spent_witness:
  "\<exists>f1 f2 f3. fw_advance True (\<lambda>_. 0) ram_flash_ops ram_env (SeedId [0x41]) (ram_flash_new FLASH_LEN) =
      (Ok 1, f1) \<and>
    fw_charge True (\<lambda>_. 0) demo_crypto (\<lambda>_ _ _ _ _ _. None :: unit option) ram_flash_ops ram_env
      fw_seed (SeedId [0x41]) 1 f1 = (0xFF, f2) \<and>
    fw_advance True (\<lambda>_. 0) ram_flash_ops ram_env (SeedId [0x41]) f2 = (Ok 2, f3)"
proof -
  let ?sid = "SeedId [0x41]" and ?crc = "\<lambda>_. 0 :: u32" and ?Q = "\<lambda>_ _ _ _ _ _. None :: unit option"
  have wf: "seed_id_wf ?sid" by (simp add: seed_id_wf_def is_alnum_def is_digit_def)
  have h0: "held_t ?crc (\<lambda>m. m) (ram_flash_new FLASH_LEN) = None"
    and len: "length (ram_flash_new FLASH_LEN) = 256"
    using fw_holds_erased [of ?crc] by (simp_all add: fw_holds_def)
  obtain f1 where f1: "fw_advance True ?crc ram_flash_ops ram_env ?sid (ram_flash_new FLASH_LEN) = (Ok 1, f1)"
    "fw_holds ?crc (Some (1, \<lparr> pc_seed_id = ?sid, pc_last_t = 1 \<rparr>)) None f1"
    using fw_advance_ram [OF fw_holds_erased wf, of 0 1 True ?crc ram_env] by auto
  have ch: "fw_charge True ?crc demo_crypto ?Q ram_flash_ops ram_env fw_seed ?sid 1 f1 = (0xFF, f1)"
  proof -
    have "encode_into ?sid (c1_spec demo_crypto fw_seed 1) (replicate E_TRANSPORT_FIELD_LEN 0) =
        (Ok (field_of ?sid (c1_spec demo_crypto fw_seed 1)) :: bytes embed)"
      by (rule encode_into_eq [OF wf]) (simp_all add: embed_len_defs)
    then show ?thesis
      by (simp add: fw_charge_def go_on_def embed_derive_pair_eq charge_qr_def)
  qed
  have "\<exists>f3. fw_advance True ?crc ram_flash_ops ram_env ?sid f1 = (Ok (1 + 1), f3)"
    by (rule fw_advance_ram [OF f1(2) wf, of 1 2 True ram_env]) auto
  then obtain t' f3 where f3: "fw_advance True ?crc ram_flash_ops ram_env ?sid f1 = (Ok t', f3)"
    by blast
  have load: "counter_load ?crc ram_flash_ops (be_load_t ram_env) (counters_at f1) =
      Ok \<lparr> pc_seed_id = ?sid, pc_last_t = 1 \<rparr>"
    by (simp add: fw_loads [OF f1(2)])
  have "case held_t ?crc (\<lambda>m. m) (ram_flash_new FLASH_LEN) of None \<Rightarrow> True | Some (q, _) \<Rightarrow> q + 1 \<noteq> 0"
    by (simp add: h0)
  from persisted_t_is_spent [OF ram.nor_flash_axioms len wf demo_crypto_ok this f1(1) ch f3 load]
  have "t' = 2" by simp
  with f1(1) ch f3 show ?thesis by blast
qed

text \<open>A flash whose reads can fail, and nothing else.\<close>

definition glitch_flash_ops :: "(bool, bytes) nor_flash_ops" where
  "glitch_flash_ops =
     \<lparr> nf_read = \<lambda>e off n m. if e then Err FlashError else ram_read off n m,
       nf_erase = \<lambda>e. ram_erase, nf_write = \<lambda>e. ram_write \<rparr>"

interpretation glitch: nor_flash glitch_flash_ops "\<lambda>m. m"
  using ram.read_law ram.erase_law ram.write_law
  by unfold_locales (auto simp: glitch_flash_ops_def ram_flash_ops_def split: if_splits)

lemma glitch_save:
  "save_record oc C glitch_flash_ops ((False, False), False, False) =
   save_record oc C ram_flash_ops (((), ()), (), ())"
  by (intro ext)
    (simp add: save_record_def choose_save_target_def read_slot_def glitch_flash_ops_def
      ram_flash_ops_def)

text \<open>
  The counter step cannot tell a first boot from a failed read: if the first read of the
  counter store fails and the rest of the boot works, \<open>T\<close> restarts at 1 whatever \<open>last_t\<close> was,
  the flash then says 1, and the codes of \<open>T = 1\<close> are derived a second time.
\<close>
theorem failed_read_restarts_t:
  assumes "length f = 256" and "seed_id_wf sid" and "be_load_t env = (True, e)"
    and "be_save_t env = ((False, False), False, False)"
    and "held_t crc (\<lambda>m. m) f = Some (q, old)" and "q + 1 \<noteq> 0"
  shows "\<exists>f'. fw_advance oc crc glitch_flash_ops env sid f = (Ok 1, f') \<and>
    counter_load crc ram_flash_ops el (counters_at f') = Ok \<lparr> pc_seed_id = sid, pc_last_t = 1 \<rparr>"
proof -
  let ?x = "\<lparr> pc_seed_id = sid, pc_last_t = 1 \<rparr>"
  have wf: "counter_wf ?x" using assms(2) by (simp add: counter_wf_def)
  have h: "fw_holds crc (Some (q, old)) (held_r crc (\<lambda>m. m) f) f"
    using assms(1,5) by (simp add: fw_holds_def)
  obtain f' where f': "counter_save oc crc ram_flash_ops (((), ()), (), ()) ?x (counters_at f) =
      (Ok (q + 1), counters_at f')" "fw_holds crc (Some (q + 1, ?x)) (held_r crc (\<lambda>m. m) f) f'"
    by (rule fw_save_t [OF h wf _ assms(6), of oc "(((), ()), (), ())"]) simp_all
  have "counter_load crc glitch_flash_ops (be_load_t env) (counters_at f) = Err Backend"
    by (simp add: assms(3) counter_load_def load_record_def read_slot_def glitch_flash_ops_def)
  then have "fw_advance oc crc glitch_flash_ops env sid f = (Ok 1, f')"
    using f'(1) by (simp add: fw_advance_def plus_oc_def assms(4) counter_save_def glitch_save
        store_free_def)
  with fw_loads(1) [OF f'(2)] show ?thesis by simp
qed

theorem failed_read_restarts_t_witness:
  "\<exists>f1 f2. fw_advance True (\<lambda>_. 0) ram_flash_ops ram_env (SeedId [0x41]) (ram_flash_new FLASH_LEN) =
      (Ok 1, f1) \<and>
    fw_advance True (\<lambda>_. 0) glitch_flash_ops \<lparr> be_load_t = (True, False),
      be_save_t = ((False, False), False, False), be_save_r = ((False, False), False, False),
      be_load_r = (False, False), be_reload_t = (False, False),
      be_mark = ((False, False), ((False, False), False, False)) \<rparr> (SeedId [0x41]) f1 = (Ok 1, f2)"
  (is "\<exists>f1 f2. _ \<and> fw_advance _ _ _ ?env _ _ = _")
proof -
  let ?sid = "SeedId [0x41]" and ?crc = "\<lambda>_. 0 :: u32"
  have wf: "seed_id_wf ?sid" by (simp add: seed_id_wf_def is_alnum_def is_digit_def)
  obtain f1 where f1: "fw_advance True ?crc ram_flash_ops ram_env ?sid (ram_flash_new FLASH_LEN) = (Ok 1, f1)"
    "fw_holds ?crc (Some (1, \<lparr> pc_seed_id = ?sid, pc_last_t = 1 \<rparr>)) None f1"
    using fw_advance_ram [OF fw_holds_erased wf, of 0 1 True ?crc ram_env] by auto
  then have "length f1 = 256"
    "held_t ?crc (\<lambda>m. m) f1 = Some (1, \<lparr> pc_seed_id = ?sid, pc_last_t = 1 \<rparr>)"
    by (simp_all add: fw_holds_def)
  from failed_read_restarts_t [OF this(1) wf _ _ this(2), of ?env False True "((), ())"] f1(1)
  show ?thesis by (simp, blast)
qed

end
