(* ===== verification/EndToEnd.thy ===== *)
theory EndToEnd
  imports Uniffi HttpBank PayerBank Firmware
begin

text \<open>
  The parties together: a receiver that charges, the bank that keeps its seed, the bank of the
  payer that recomputes the code from the public field, and the receiver that validates it; with
  \<^verbatim>\<open>examples/e2e_demo.rs\<close>, the program that runs them side by side.
\<close>

section \<open>The demonstration program\<close>

text \<open>\<^verbatim>\<open>unwrap\<close>, \<^verbatim>\<open>unwrap_err\<close> and \<^verbatim>\<open>assert!\<close>: the value that is asked for, or a panic.\<close>

fun unwrap :: "('e, 'a) outcome \<Rightarrow> (unit, 'a) outcome" where
  "unwrap (Ok v) = Ok v"
| "unwrap _ = Panic"

fun unwrap_some :: "'a option \<Rightarrow> (unit, 'a) outcome" where
  "unwrap_some (Some v) = Ok v"
| "unwrap_some None = Panic"

fun unwrap_err :: "('e, 'a) outcome \<Rightarrow> (unit, 'e) outcome" where
  "unwrap_err (Err e) = Ok e"
| "unwrap_err _ = Panic"

definition assert_that :: "bool \<Rightarrow> (unit, unit) outcome" where
  "assert_that b = (if b then Ok () else Panic)"

definition bank_payer :: requester where
  "bank_payer = \<lparr> institution_id = ascii ''BANK_PAYER'' \<rparr>"

text \<open>Part A, with the sequential counter; its result is the receiving bank.\<close>

definition e2e_sequential ::
  "crypto_lib \<Rightarrow> bytes + (nat \<Rightarrow> byte) \<Rightarrow> mem_bank \<Rightarrow> (unit, mem_bank) outcome" where
  "e2e_sequential L os bank =
     (let st = \<lparr> store_st = mem_store_new, counter_st = counter_new \<rparr> in
      and_then (unwrap (seed_id_new (ascii ''R1''))) (\<lambda>seed_id.
      let (proof, st) = register default_sdk (os, ()) seed_id st in
      and_then (unwrap proof) (\<lambda>_.
      and_then (unwrap (mem_get_seed seed_id (store_st st))) (\<lambda>s.
      let seed_for_bank = (case s of Some s \<Rightarrow> s | None \<Rightarrow> seed_from_bytes (replicate 32 0));
          (r, bank) = bank_register_seed seed_id seed_for_bank bank in
      and_then (unwrap r) (\<lambda>_.
      let (charge, st) = generate_charge L default_sdk ((), (), ()) seed_id 9900 st in
      and_then (unwrap charge) (\<lambda>charge.
      and_then (unwrap (peek_retained default_sdk () seed_id (ch_counter charge) st)) (\<lambda>retained.
      and_then (unwrap_some retained) (\<lambda>retained.
      and_then (c2_as_str (rr_expected_c2 retained)) (\<lambda>_.
      and_then (unwrap (process_payment L mem_bank_ops ()
          \<lparr> pr_instrument_string = ch_transport_field charge,
            pr_amount_cents = ch_amount_cents charge, pr_counter = ch_counter charge,
            pr_requester = bank_payer \<rparr> bank)) (\<lambda>receipt.
      let (outc, st) = validate_receipt L default_sdk ((), ()) seed_id (ch_counter charge)
            (py_identifier receipt) st in
      and_then (unwrap outc) (\<lambda>outc.
      and_then (assert_that (outc = Valid)) (\<lambda>_.
      let (replay, st) = validate_receipt L default_sdk ((), ()) seed_id (ch_counter charge)
            (py_identifier receipt) st in
      and_then (unwrap replay) (\<lambda>replay.
      and_then (assert_that (replay = Replay)) (\<lambda>_. Ok bank))))))))))))))"

text \<open>The loop of step 10, which stops at the first candidate that is valid.\<close>

fun try_candidates ::
  "crypto_lib \<Rightarrow> seed_id \<Rightarrow> u64 \<Rightarrow> (u64 \<times> bytes) list \<Rightarrow> (mem_store, ts_counter) sdk_state \<Rightarrow>
   (unit, bool) outcome" where
  "try_candidates L sid counter [] st = Ok False"
| "try_candidates L sid counter ((_, c2) # rest) st =
     (let (outc, st) = validate_receipt L quantized_sdk ((), ()) sid counter c2 st in
      and_then (unwrap outc) (\<lambda>outc.
      if outc = Valid then Ok True else try_candidates L sid counter rest st))"

text \<open>Part B, with the quantised timestamp; \<open>oc\<close> says whether overflows are checked.\<close>

definition e2e_quantized ::
  "bool \<Rightarrow> crypto_lib \<Rightarrow> bytes + (nat \<Rightarrow> byte) \<Rightarrow> mem_bank \<Rightarrow> (unit, unit) outcome" where
  "e2e_quantized oc L os bank =
     (let clock = test_clock_new 1700000010 in
      and_then (ts_with_window 30) (\<lambda>counter.
      let st = \<lparr> store_st = mem_store_new, counter_st = counter \<rparr> in
      and_then (unwrap (seed_id_new (ascii ''R2''))) (\<lambda>sid.
      let (proof, st) = register quantized_sdk (os, ()) sid st in
      and_then (unwrap proof) (\<lambda>_.
      and_then (unwrap (mem_get_seed sid (store_st st))) (\<lambda>s.
      and_then (unwrap_some s) (\<lambda>seed_for_bank.
      let (r, bank) = bank_register_seed sid seed_for_bank bank in
      and_then (unwrap r) (\<lambda>_.
      let (q_charge, st) = generate_charge L quantized_sdk ((), test_clock_now clock, ()) sid 4200 st in
      and_then (unwrap q_charge) (\<lambda>q_charge.
      let (second, st) = generate_charge L quantized_sdk ((), test_clock_now clock, ()) sid 100 st in
      and_then (unwrap_err second) (\<lambda>_.
      let clock = test_clock_advance 30 clock;
          (q_charge2, st) = generate_charge L quantized_sdk ((), test_clock_now clock, ()) sid 100 st in
      and_then (unwrap q_charge2) (\<lambda>q_charge2.
      and_then (plus_oc oc (ch_counter q_charge) 1) (\<lambda>next_t.
      and_then (assert_that (ch_counter q_charge2 = next_t)) (\<lambda>_.
      and_then (unwrap (process_payment_windowed L mem_bank_ops ()
          \<lparr> pw_instrument_string = ch_transport_field q_charge, pw_amount_cents = 4200,
            pw_current_quantum = ch_counter q_charge, pw_tolerance_windows = 1,
            pw_requester = bank_payer \<rparr> bank)) (\<lambda>receipt_w.
      and_then (try_candidates L sid (ch_counter q_charge) (wr_candidates receipt_w) st) (\<lambda>accepted.
      assert_that accepted))))))))))))))"

definition e2e_demo ::
  "bool \<Rightarrow> crypto_lib \<Rightarrow> bytes + (nat \<Rightarrow> byte) \<Rightarrow> bytes + (nat \<Rightarrow> byte) \<Rightarrow> (unit, unit) outcome" where
  "e2e_demo oc L os1 os2 =
     and_then (e2e_sequential L os1 mem_bank_new) (e2e_quantized oc L os2)"

section \<open>A charge, paid and presented\<close>

lemma mem_payment:
  assumes "crypto_ok L" and "seed_id_wf sid" and "c1_wf c"
  shows "process_payment L mem_bank_ops e \<lparr> pr_instrument_string = field_of sid c,
      pr_amount_cents = amount, pr_counter = t, pr_requester = rq \<rparr> b =
    (case b sid of None \<Rightarrow> Err UnknownSeed
     | Some s \<Rightarrow> Ok \<lparr> py_receiver_seed_id = sid, py_counter_used = t, py_amount_cents = amount,
         py_identifier = c2_chars (c2_spec L s t c),
         py_note = ascii ''settled via institutional substitution'' \<rparr>)"
proof (cases "b sid")
  case None
  then show ?thesis using assms by (simp add: process_payment_def field_is_protocol parse_field_of)
next
  case (Some s)
  then show ?thesis using assms by (simp add: process_payment_field [where s = s])
qed

lemma mem_payment_windowed:
  assumes "crypto_ok L" and "seed_id_wf sid" and "c1_wf c"
  shows "process_payment_windowed L mem_bank_ops e \<lparr> pw_instrument_string = field_of sid c,
      pw_amount_cents = amount, pw_current_quantum = q, pw_tolerance_windows = n,
      pw_requester = rq \<rparr> b =
    (case b sid of None \<Rightarrow> Err UnknownSeed
     | Some s \<Rightarrow> Ok \<lparr> wr_receiver_seed_id = sid, wr_amount_cents = amount,
         wr_candidates = map (\<lambda>t. (t, c2_chars (c2_spec L s t c)))
           (inclusive_range (saturating_sub q (ucast n)) (saturating_add q (ucast n))),
         wr_note = ascii ''settled via institutional substitution (windowed)'' \<rparr>)"
proof (cases "b sid")
  case None
  then show ?thesis
    using assms by (simp add: process_payment_windowed_def field_is_protocol parse_field_of)
next
  case (Some s)
  then show ?thesis using assms by (simp add: process_payment_windowed_field [where s = s])
qed

lemma c2_eta [simp]: "C2 (c2_chars c) = c"
  by (cases c) simp

text \<open>A receipt of the charge decides a presentation of a code the bank computed.\<close>

lemma present_spec:
  assumes "crypto_ok L" and "sdk_store sdk = mem_store_ops"
    and "ms_receipts (store_st st) (sid, t) = Some q"
  shows "validate_receipt L sdk (e1, e2) sid t (c2_chars (c2_spec L s t' c)) st =
    (if rr_consumed q then (Ok Replay, st)
     else if c2_spec L s t' c = rr_expected_c2 q then (Ok Valid, st \<lparr> store_st := (store_st st)
       \<lparr> ms_receipts := (ms_receipts (store_st st))((sid, t) \<mapsto> q \<lparr> rr_consumed := True \<rparr>) \<rparr> \<rparr>)
     else (Ok MismatchOutcome, st))"
  using assms by (simp add: mem_validate_receipt c2_parse_chars)

lemma e2e_sequential_Ok:
  assumes "crypto_ok L"
  shows "\<exists>s. e2e_sequential L (Inr stream) bank = Ok (bank(SeedId (ascii ''R1'') \<mapsto> s))"
proof -
  have wf: "seed_id_wf (SeedId (ascii ''R1''))"
    by (simp add: seed_id_wf_def ascii_def is_alnum_def is_digit_def)
  then have sid: "seed_id_new (ascii ''R1'') = Ok (SeedId (ascii ''R1''))"
    by (simp add: seed_id_new_Ok_iff)
  show ?thesis
    by (simp add: e2e_sequential_def sid mem_register mem_put_seed_def mem_get_seed_def
        bank_register_seed_def mem_generate_charge [OF assms wf] counter_next_def
        slot_or_insert_def counter_new_def checked_add_0_1 peek_retained_def mem_store_ops_def
        mem_get_receipt_def mem_save_receipt_def mem_payment [OF assms wf]
        mem_validate_receipt [OF assms] c2_parse_chars assert_that_def) (rule exI, rule refl)
qed

text \<open>The first candidate that matches is accepted; the others leave the receipt open.\<close>

lemma try_candidates_accepts:
  assumes L: "crypto_ok L" and "ms_receipts (store_st st) (sid, t) = Some q" and "\<not> rr_consumed q"
    and "\<forall>x \<in> set cs. c2_wf (C2 (snd x))" and "c2_chars (rr_expected_c2 q) \<in> snd ` set cs"
  shows "try_candidates L sid t cs st = Ok True"
  using assms(4,5)
proof (induction cs)
  case (Cons x cs)
  obtain k b where x: "x = (k, b)" by (cases x)
  have p: "c2_parse b = Ok (C2 b)" using Cons.prems(1) x by (simp add: c2_parse_Ok_iff)
  show ?case
  proof (cases "C2 b = rr_expected_c2 q")
    case True
    then show ?thesis using assms(1-3) p by (simp add: x mem_validate_receipt)
  next
    case False
    then have "try_candidates L sid t cs st = Ok True"
      using Cons x by auto
    then show ?thesis using assms(1-3) p False by (simp add: x mem_validate_receipt)
  qed
qed simp

lemma e2e_quantized_Ok:
  assumes "crypto_ok L"
  shows "e2e_quantized oc L (Inr stream) bank = Ok ()"
proof -
  let ?sid = "SeedId (ascii ''R2'')"
  have wf: "seed_id_wf ?sid"
    by (simp add: seed_id_wf_def ascii_def is_alnum_def is_digit_def)
  then have sid: "seed_id_new (ascii ''R2'') = Ok ?sid"
    by (simp add: seed_id_new_Ok_iff)
  define s where "s = seed_from_bytes (map stream [0 ..< SEED_LEN])"
  have tc: "try_candidates L ?sid 56666667
      (map (\<lambda>t. (t, c2_chars (c2_spec L s t (c1_spec L s 56666667))))
        (inclusive_range (saturating_sub 56666667 1) (saturating_add 56666667 1))) st = Ok True"
    if "ms_receipts (store_st st) (?sid, 56666667) = Some (receipt_spec L s ?sid 56666667 4200)"
    for st
    by (rule try_candidates_accepts [OF assms that])
      (auto simp: set_inclusive_range image_image saturating_sub_def saturating_add_def
        intro!: image_eqI [where x = 56666667])
  show ?thesis
    by (simp add: e2e_quantized_def sid tc s_def [symmetric] ts_with_window_def mem_register mem_put_seed_def mem_get_seed_def
        bank_register_seed_def mem_generate_charge [OF assms wf] ts_next_def div_oc_def
        test_clock_now_def test_clock_new_def test_clock_advance_def mem_store_ops_def
        mem_save_receipt_def mem_payment_windowed [OF assms wf] mem_store_new_def plus_oc_def
        assert_that_def)
qed

text \<open>The same payment through the HTTP client, and what a fault of the network makes of it.\<close>

lemma http_payment:
  assumes "crypto_ok L" and "http_inv W h b" and "seed_id_wf sid" and "c1_wf c"
    and "pr_instrument_string req = field_of sid c"
  shows "process_payment L (http_bank_ops W h mem_bank_ops) (Delivered, e) req b =
      process_payment L mem_bank_ops e' req b"
    and "n \<noteq> Delivered \<Longrightarrow>
      \<exists>m. process_payment L (http_bank_ops W h mem_bank_ops) (n, e) req b = Err (Transport m)"
proof -
  have "lookup_seed (http_bank_ops W h mem_bank_ops) (Delivered, e) sid rq b =
      lookup_seed mem_bank_ops e' sid rq b" for rq
    using http_lookup_mem [OF assms(2,3)] by (simp add: http_bank_ops_def)
  then show "process_payment L (http_bank_ops W h mem_bank_ops) (Delivered, e) req b =
      process_payment L mem_bank_ops e' req b"
    using assms by (simp add: process_payment_def parse_field_of del: mem_bank_simps)
  assume "n \<noteq> Delivered"
  then obtain m where "lookup_seed (http_bank_ops W h mem_bank_ops) (n, e) sid (pr_requester req) b =
      Err (Transport m)"
    using http_lookup_lost [of n W h mem_bank_ops e sid "pr_requester req" b]
    by (auto simp: http_bank_ops_def)
  then show "\<exists>m. process_payment L (http_bank_ops W h mem_bank_ops) (n, e) req b = Err (Transport m)"
    using assms by (simp add: process_payment_def parse_field_of field_is_protocol)
qed

section \<open>Properties\<close>

text \<open>
  C8. Institutional substitution: when the bank behind the HTTP interface holds the receiver's
  seed, the payer's bank, which sees only the public field and the counter, produces over a
  delivered exchange the code the receiver expects: the first presentation is valid and the
  second a replay. A fault of the network is a transport error and leaves nobody with a code. The
  amount paid is not part of the code, so it is any amount here.
\<close>
theorem institutional_substitution:
  assumes "crypto_ok L" and "seed_id_wf sid" and "http_inv W h b"
    and "ms_seeds (store_st st) sid = Some s" and "b sid = Some s"
    and "generate_charge L default_sdk ((), (), ()) sid amount st = (Ok c, st1)"
    and "req = \<lparr> pr_instrument_string = ch_transport_field c, pr_amount_cents = paid,
           pr_counter = ch_counter c, pr_requester = rq \<rparr>"
  shows "\<exists>r st2. process_payment L (http_bank_ops W h mem_bank_ops) (Delivered, e) req b = Ok r \<and>
    py_receiver_seed_id r = sid \<and> py_amount_cents r = paid \<and>
    validate_receipt L default_sdk ((), ()) sid (ch_counter c) (py_identifier r) st1 = (Ok Valid, st2) \<and>
    validate_receipt L default_sdk ((), ()) sid (ch_counter c) (py_identifier r) st2 = (Ok Replay, st2) \<and>
    (\<forall>n. n \<noteq> Delivered \<longrightarrow>
      (\<exists>m. process_payment L (http_bank_ops W h mem_bank_ops) (n, e) req b = Err (Transport m)))"
proof -
  from assms(6) obtain t where c: "c = charge_spec L s sid t amount"
    and st1: "store_st st1 = snd (mem_save_receipt (receipt_spec L s sid t amount) (store_st st))"
    by (auto simp: mem_generate_charge [OF assms(1,2)] assms(4) split: prod.splits outcome.splits)
  have q: "ms_receipts (store_st st1) (sid, t) = Some (receipt_spec L s sid t amount)"
    by (simp add: st1 mem_save_receipt_def Let_def)
  have f: "pr_instrument_string req = field_of sid (c1_spec L s t)" by (simp add: assms(7) c)
  note http = http_payment [OF assms(1,3,2) c1_spec_wf f]
  show ?thesis
    using http(1) [of e e] http(2) [of _ e] assms(7)
    by (simp add: c mem_payment [OF assms(1,2)] assms(5) present_spec [OF assms(1) _ q])
      (simp add: present_spec [OF assms(1)])
qed

definition demo_bank_of :: "seed_id \<Rightarrow> seed \<Rightarrow> mem_bank" where
  "demo_bank_of sid s = [sid \<mapsto> s]"

lemma demo_bank_of_seed [simp]: "demo_bank_of sid s sid = Some s"
  by (simp add: demo_bank_of_def)

theorem institutional_substitution_witness:
  "\<exists>r st2. process_payment demo_crypto (http_bank_ops demo_wire demo_http mem_bank_ops) (Delivered, ())
      \<lparr> pr_instrument_string = ch_transport_field (charge_spec demo_crypto demo_seed demo_sid 1 1990),
        pr_amount_cents = 1, pr_counter = 1, pr_requester = demo_requester \<rparr>
      (demo_bank_of demo_sid demo_seed) = Ok r \<and>
    validate_receipt demo_crypto default_sdk ((), ()) demo_sid 1 (py_identifier r) demo_charged =
      (Ok Valid, st2)"
proof -
  have "http_inv demo_wire demo_http (demo_bank_of demo_sid demo_seed)"
    by (simp add: http_inv_def bank_wf_def demo_bank_of_def)
  from institutional_substitution [OF demo_crypto_ok demo_sid_wf this _ demo_bank_of_seed demo_generate refl,
      where paid = 1 and rq = demo_requester and e = "()"] show ?thesis
    by (auto simp: demo_charged_def)
qed

text \<open>
  C15. The two clocks may drift: a charge of the quantised receiver carries its window \<open>T\<close>, and
  when the bank's window is at most \<open>N\<close> away from \<open>T\<close>, one of the candidates of the windowed
  payment is accepted by the receiver; when it is further away, the bank offers no candidate for
  \<open>T\<close>.
\<close>
theorem drift_within_tolerance_is_accepted:
  assumes "crypto_ok L" and "seed_id_wf sid" and "quantized_inv st"
    and "ms_seeds (store_st st) sid = Some s" and "b sid = Some s"
    and "generate_charge L quantized_sdk ((), now_t, ()) sid amount st = (Ok c, st1)"
    and "req = \<lparr> pw_instrument_string = ch_transport_field c, pw_amount_cents = paid,
           pw_current_quantum = Q, pw_tolerance_windows = n, pw_requester = rq \<rparr>"
    and T: "T = unat (now_t div tc_window_seconds (counter_st st))"
  shows "\<exists>r. process_payment_windowed L mem_bank_ops e req b = Ok r \<and> unat (ch_counter c) = T \<and>
    (if T \<le> unat Q + unat n \<and> unat Q \<le> T + unat n
     then try_candidates L sid (ch_counter c) (wr_candidates r) st1 = Ok True
     else ch_counter c \<notin> fst ` set (wr_candidates r))"
proof -
  have w: "tc_window_seconds (counter_st st) \<noteq> 0" using assms(3) by (simp add: quantized_inv_def)
  define t where "t = now_t div tc_window_seconds (counter_st st)"
  from assms(6) have c: "c = charge_spec L s sid t amount"
    and st1: "store_st st1 = snd (mem_save_receipt (receipt_spec L s sid t amount) (store_st st))"
    by (auto simp: mem_generate_charge [OF assms(1,2)] assms(4) ts_next_cases [OF w] t_def Let_def
        split: prod.splits outcome.splits option.splits if_splits)
  have q: "ms_receipts (store_st st1) (sid, t) = Some (receipt_spec L s sid t amount)"
    by (simp add: st1 mem_save_receipt_def Let_def)
  let ?lo = "saturating_sub Q (ucast n)" and ?hi = "saturating_add Q (ucast n)"
  let ?g = "\<lambda>t'. (t', c2_chars (c2_spec L s t' (c1_spec L s t)))"
  have r: "process_payment_windowed L mem_bank_ops e req b = Ok
      \<lparr> wr_receiver_seed_id = sid, wr_amount_cents = paid,
        wr_candidates = map ?g (inclusive_range ?lo ?hi),
        wr_note = ascii ''settled via institutional substitution (windowed)'' \<rparr>"
    by (simp add: assms(7) c mem_payment_windowed [OF assms(1,2)] assms(5))
  have T': "T = unat t" by (simp add: T t_def)
  have mem: "t \<in> set (inclusive_range ?lo ?hi) \<longleftrightarrow> T \<le> unat Q + unat n \<and> unat Q \<le> T + unat n"
    using unat_bound [of t]
    by (auto simp: set_inclusive_range word_le_nat_alt unat_saturating_sub unat_saturating_add
        unat_ucast_u32 T')
  have acc: "try_candidates L sid t (map ?g (inclusive_range ?lo ?hi)) st1 = Ok True"
    if "t \<in> set (inclusive_range ?lo ?hi)"
    by (rule try_candidates_accepts [OF assms(1) q]) (use that in \<open>simp_all add: image_image\<close>)
  have "t \<notin> fst ` set (map ?g (inclusive_range ?lo ?hi))"
    if "t \<notin> set (inclusive_range ?lo ?hi)"
    using that by auto
  with acc mem show ?thesis by (simp add: r c T')
qed

theorem drift_within_tolerance_is_accepted_witness:
  "\<exists>c st1 r. generate_charge demo_crypto quantized_sdk ((), 95, ()) demo_sid 5
      \<lparr> store_st = \<lparr> ms_seeds = [demo_sid \<mapsto> demo_seed], ms_receipts = Map.empty \<rparr>,
        counter_st = \<lparr> tc_window_seconds = 30, tc_last_issued = Map.empty \<rparr> \<rparr> = (Ok c, st1) \<and>
    process_payment_windowed demo_crypto mem_bank_ops () \<lparr> pw_instrument_string = ch_transport_field c,
      pw_amount_cents = 5, pw_current_quantum = 4, pw_tolerance_windows = 1,
      pw_requester = demo_requester \<rparr> (demo_bank_of demo_sid demo_seed) = Ok r \<and>
    try_candidates demo_crypto demo_sid (ch_counter c) (wr_candidates r) st1 = Ok True"
proof -
  let ?st = "\<lparr> store_st = \<lparr> ms_seeds = [demo_sid \<mapsto> demo_seed], ms_receipts = Map.empty \<rparr>,
        counter_st = \<lparr> tc_window_seconds = 30, tc_last_issued = Map.empty \<rparr> \<rparr>"
  have inv: "quantized_inv ?st"
    by (simp add: quantized_inv_def store_view_wf_def receipts_bounded_def)
  have s: "ms_seeds (store_st ?st) demo_sid = Some demo_seed" by simp
  obtain c st1 where g: "generate_charge demo_crypto quantized_sdk ((), 95, ()) demo_sid 5 ?st = (Ok c, st1)"
    by (simp add: mem_generate_charge ts_next_def div_oc_def)
  from drift_within_tolerance_is_accepted
      [where b = "demo_bank_of demo_sid demo_seed" and paid = 5 and Q = 4 and n = 1
        and rq = demo_requester and e = "()",
        OF demo_crypto_ok demo_sid_wf inv s demo_bank_of_seed g refl refl] g
  show ?thesis by auto
qed

text \<open>
  C34. The demonstration program runs to its end whatever bytes the operating system delivers: no
  \<^verbatim>\<open>unwrap\<close> and no assertion of its ten steps fails, and the windowed payment is accepted. Without
  random bytes it stops in the first step.
\<close>
theorem e2e_demo_accepts:
  assumes "crypto_ok L"
  shows "e2e_demo oc L (Inr stream1) (Inr stream2) = Ok () \<and> e2e_demo oc L (Inl m) os = Panic"
proof
  obtain s where "e2e_sequential L (Inr stream1) mem_bank_new =
      Ok (mem_bank_new(SeedId (ascii ''R1'') \<mapsto> s))"
    using e2e_sequential_Ok [OF assms] by blast
  then show "e2e_demo oc L (Inr stream1) (Inr stream2) = Ok ()"
    using e2e_quantized_Ok [OF assms] by (simp add: e2e_demo_def)
  show "e2e_demo oc L (Inl m) os = Panic"
    by (cases "seed_id_new (ascii ''R1'')") (simp_all add: e2e_demo_def e2e_sequential_def mem_register)
qed

theorem e2e_demo_accepts_witness: "e2e_demo True demo_crypto (Inr (\<lambda>_. 1)) (Inr (\<lambda>_. 2)) = Ok ()"
  using e2e_demo_accepts [OF demo_crypto_ok] by blast

text \<open>
  C22. A device that speaks the protocol on its own is understood by the host: after boot \<open>n\<close> of the
  firmware, the field it shows, paid by a bank of the host implementation that holds the device's
  seed, comes back as the code the device has stored for this charge.
\<close>
theorem device_charge_is_payable:
  assumes "crypto_ok L" and "qr_ok Q" and "embed_seed_id_new sid_text = Ok sid"
    and "0 < n" and "2 * n < 2 ^ 32"
    and "b sid = Some (seed_from_bytes (replicate 32 0xAB))"
  shows "\<exists>f c1 c2 field q p. fw_boots oc crc L Q sid_text n = (6, f) \<and>
    embed_derive_pair L (seed_from_bytes (replicate 32 0xAB)) (word_of_nat n) =
      (Ok (c1, c2) :: (c1 \<times> c2) embed) \<and>
    encode_into sid c1 (replicate E_TRANSPORT_FIELD_LEN 0) = (Ok field :: bytes embed) \<and>
    receipt_load crc ram_flash_ops es (receipts_at f) = Ok q \<and> rr_counter q = word_of_nat n \<and>
    process_payment L mem_bank_ops e \<lparr> pr_instrument_string = field, pr_amount_cents = paid,
      pr_counter = rr_counter q, pr_requester = rq \<rparr> b = Ok p \<and>
    py_identifier p = c2_chars (rr_expected_c2 q)"
proof -
  let ?t = "word_of_nat n :: u64"
  let ?c1 = "c1_spec L fw_seed ?t"
  have wf: "seed_id_wf sid" using assms(3) by (simp add: embed_seed_id_new_Ok_iff)
  obtain f where f: "fw_boots oc crc L Q sid_text n = (6, f)"
    "fw_holds crc (Some (word_of_nat n, \<lparr> pc_seed_id = sid, pc_last_t = ?t \<rparr>))
      (Some (word_of_nat (2 * n), fw_receipt L sid ?t True)) f"
    using fw_boots_holds [OF assms(1-5)] by blast
  have enc: "encode_into sid ?c1 (replicate E_TRANSPORT_FIELD_LEN 0) =
      (Ok (field_of sid ?c1) :: bytes embed)"
    by (rule encode_into_eq [OF wf]) (simp_all add: embed_len_defs)
  show ?thesis
    by (rule exI [of _ f], rule exI [of _ ?c1], rule exI [of _ "c2_spec L fw_seed ?t ?c1"],
        rule exI [of _ "field_of sid ?c1"], rule exI [of _ "fw_receipt L sid ?t True"])
      (simp add: f(1) fw_loads [OF f(2)] embed_derive_pair_eq [OF assms(1)] enc
        mem_payment [OF assms(1) wf] assms(6), simp add: fw_receipt_def)
qed

theorem device_charge_is_payable_witness:
  "\<exists>f q. fw_boots True (\<lambda>_. 0) demo_crypto demo_qr (ascii ''R1'') 3 = (6, f) \<and>
    receipt_load (\<lambda>_. 0) ram_flash_ops ((), ()) (receipts_at f) = Ok q \<and> rr_counter q = 3"
proof -
  have sid: "embed_seed_id_new (ascii ''R1'') = Ok (SeedId (ascii ''R1''))"
    by (simp add: embed_seed_id_new_Ok_iff seed_id_wf_def ascii_def is_alnum_def is_digit_def)
  have n: "(0 :: nat) < 3" "2 * 3 < (2 :: nat) ^ 32" by simp_all
  from device_charge_is_payable [where b = "demo_bank_of (SeedId (ascii ''R1'')) fw_seed" and oc = True
      and crc = "\<lambda>_. 0" and es = "((), ())" and e = "()" and paid = 5 and rq = demo_requester,
      OF demo_crypto_ok demo_qr_ok sid n demo_bank_of_seed]
  show ?thesis unfolding of_nat_numeral by blast
qed

text \<open>What the next charge of a restored receiver is, and the state it leaves.\<close>

lemma restored_generate:
  assumes "crypto_ok L" and "seed_id_wf (rs_seed_id r)" and "rs_counter_t r \<noteq> - 1"
  shows "\<exists>st1. uniffi_generate_charge L (sid_as_str (rs_seed_id r)) amount (restored_receiver r) =
      (Ok \<lparr> uc_transport_field = field_of (rs_seed_id r) (c1_spec L (rs_seed r) (rs_counter_t r + 1)),
            uc_counter = rs_counter_t r + 1, uc_amount_cents = amount \<rparr>, st1) \<and>
    ms_receipts (store_st st1) (rs_seed_id r, rs_counter_t r + 1) =
      Some (receipt_spec L (rs_seed r) (rs_seed_id r) (rs_counter_t r + 1) amount)"
proof -
  have "ms_seeds (store_st (restored_receiver r)) (rs_seed_id r) = Some (rs_seed r)"
    "counter_st (restored_receiver r) (rs_seed_id r) = Some (rs_counter_t r)"
    by (simp_all add: restored_receiver_def)
  with assms counter_next_Some [of "counter_st (restored_receiver r)" "rs_seed_id r", OF this(2)]
  show ?thesis
    by (simp add: uniffi_generate_charge_def seed_id_new_as_str uniffi_call_def Let_def
        mem_generate_charge mem_save_receipt_def)
qed

text \<open>
  C10. A merchant who loses the device and restores the backup on a new one is still paid: the next
  charge of the restored receiver, paid through the bank that holds the old seed, comes back as a
  code that the restored receiver accepts, and accepts once.
\<close>
theorem restored_receiver_is_paid:
  assumes "backup_lib_ok B" and "crypto_ok L" and "input_wf i" and "ei_counter_mode i = Sequential"
    and "export_with_params B os i pw params = Ok bk" and "ei_counter_t i \<noteq> - 1"
    and "b (ei_seed_id i) = Some (ei_seed i)"
  shows "\<exists>st c st1 p st2. from_sealed_backup B bk pw = Ok st \<and>
    uniffi_generate_charge L (sid_as_str (ei_seed_id i)) amount st = (Ok c, st1) \<and>
    process_payment L mem_bank_ops e \<lparr> pr_instrument_string = uc_transport_field c,
      pr_amount_cents = amount, pr_counter = uc_counter c, pr_requester = rq \<rparr> b = Ok p \<and>
    uniffi_validate_receipt L (sid_as_str (ei_seed_id i)) (uc_counter c) (py_identifier p) st1 =
      (Ok UValid, st2) \<and>
    uniffi_validate_receipt L (sid_as_str (ei_seed_id i)) (uc_counter c) (py_identifier p) st2 =
      (Ok UReplay, st2)"
proof -
  let ?r = "state_of i" and ?sid = "ei_seed_id i" and ?t = "ei_counter_t i + 1"
  have wf: "seed_id_wf ?sid" using assms(3) by (simp add: input_wf_def)
  have r: "rs_seed_id ?r = ?sid" "rs_seed ?r = ei_seed i" "rs_counter_t ?r = ei_counter_t i"
    "rs_counter_mode ?r = Sequential"
    using assms(4) by (simp_all add: state_of_def)
  have imp: "from_sealed_backup B bk pw = Ok (restored_receiver ?r)"
    using export_then_import [OF assms(1,3,5)] r by (simp add: from_sealed_backup_import)
  obtain st1 where g: "uniffi_generate_charge L (sid_as_str ?sid) amount (restored_receiver ?r) =
      (Ok \<lparr> uc_transport_field = field_of ?sid (c1_spec L (ei_seed i) ?t), uc_counter = ?t,
            uc_amount_cents = amount \<rparr>, st1)"
    and q: "ms_receipts (store_st st1) (?sid, ?t) = Some (receipt_spec L (ei_seed i) ?sid ?t amount)"
    using restored_generate [OF assms(2), of ?r amount] wf assms(6) unfolding r by blast
  show ?thesis
    by (rule exI [of _ "restored_receiver ?r"])
      (simp add: imp g mem_payment [OF assms(2) wf] assms(7) uniffi_validate_receipt_def
        seed_id_new_as_str [OF wf] uniffi_call_def present_spec [OF assms(2) _ q],
        simp add: present_spec [OF assms(2)])
qed

theorem restored_receiver_is_paid_witness:
  "\<exists>bk st c st1. export_with_params demo_backup (Inr (\<lambda>_. 3), Inr (\<lambda>_. 4)) demo_input (ascii ''pw'')
      default_embed = Ok bk \<and> from_sealed_backup demo_backup bk (ascii ''pw'') = Ok st \<and>
    uniffi_generate_charge demo_crypto (sid_as_str (ei_seed_id demo_input)) 100 st = (Ok c, st1)"
proof -
  obtain bk where t: "export_with_params demo_backup (Inr (\<lambda>_. 3), Inr (\<lambda>_. 4)) demo_input
    (ascii ''pw'') default_embed = Ok bk" using demo_export by blast
  have m: "ei_counter_mode demo_input = Sequential" "ei_counter_t demo_input \<noteq> - 1"
    by (simp_all add: demo_input_def)
  from restored_receiver_is_paid [where b = "demo_bank_of (ei_seed_id demo_input) (ei_seed demo_input)"
      and amount = 100 and e = "()" and rq = demo_requester,
      OF demo_backup_ok demo_crypto_ok demo_input_wf m(1) t m(2) demo_bank_of_seed] t
  show ?thesis by blast
qed

end
