(* ===== verification/LongRuns.thy ===== *)
theory LongRuns
  imports EndToEnd SharedLedger
begin

text \<open>
  What holds of a charge long after it was made: as its window passes (the timestamp counter of
  \<^verbatim>\<open>mcpix-receiver-sdk/src/timestamp_counter.rs\<close>), and as the receiver moves to another device
  (\<^verbatim>\<open>from_sealed_backup\<close> of \<^verbatim>\<open>mcpix-uniffi/src/lib.rs\<close>, \<^verbatim>\<open>mcpix-backup/src/lib.rs\<close>).
\<close>

section \<open>The counter over a run\<close>

context receiver
begin

lemma register_counter: "register sdk e sid st = (r, st') \<Longrightarrow> counter_st st' = counter_st st"
  by (cases e; auto simp: register_def on_store_def Let_def split_beta st_then_snd_cases
      dest!: arg_cong [where f = snd] split: outcome.splits)

lemma validate_counter: "validate_receipt L sdk e sid t code st = (r, st') \<Longrightarrow> counter_st st' = counter_st st"
  by (cases e; auto simp: validate_receipt_def on_store_def Let_def split_beta st_then_snd_cases
      dest!: arg_cong [where f = snd] split: outcome.splits)

lemma generate_counter:
  assumes L: "crypto_ok L" and sid: "seed_id_wf sid"
    and g: "generate_charge L sdk e sid amount st = (r, st')"
  shows "(counter_st st' = counter_st st \<and> \<not> is_ok r) \<or>
    (\<exists>ec r1 st1. on_counter (sdk_counter sdk ec sid) st = (r1, st1) \<and> counter_st st' = counter_st st1 \<and>
       (\<forall>c. r = Ok c \<longrightarrow> r1 = Ok (ch_counter c)))"
proof -
  obtain e1 ec e2 where e: "e = (e1, ec, e2)" by (metis surj_pair)
  show ?thesis
  proof (cases "and_then (get_seed (sdk_store sdk) e1 sid (store_st st)) (ok_or UnknownSeed)")
    case (Ok s)
    note seed = this
    obtain r1 st1 where cnt: "on_counter (sdk_counter sdk ec sid) st = (r1, st1)" by force
    have "counter_st st' = counter_st st1 \<and> (\<forall>c. r = Ok c \<longrightarrow> r1 = Ok (ch_counter c))"
    proof (cases r1)
      case (Ok n)
      have app: "apply_generate_charge L s
          \<lparr> gc_seed_id = sid, gc_counter = n, gc_amount_cents = amount \<rparr> =
          (Ok \<lparr> co_charge = charge_spec L s sid n amount, co_retained = receipt_spec L s sid n amount \<rparr> ::
            charge_outcome mcpix)"
        by (simp add: apply_generate_charge_eq [OF L] sid)
      obtain r2 st2 where
        save: "on_store (save_receipt (sdk_store sdk) e2 (receipt_spec L s sid n amount)) st1 = (r2, st2)"
        by force
      have "st' = st2 \<and> (\<forall>c. r = Ok c \<longrightarrow> c = charge_spec L s sid n amount)"
        using g unfolding e generate_charge_def by (cases r2) (auto simp: seed cnt Ok app save)
      with on_store_counter [OF save] Ok show ?thesis by auto
    qed (use g seed cnt in \<open>auto simp: e generate_charge_def\<close>)
    with cnt show ?thesis by blast
  qed (use g in \<open>auto simp: e generate_charge_def\<close>)
qed

text \<open>The values issued for a seed identifier never go back, and a charge is above them all.\<close>

definition issued_grow :: "('st, 'ct) sdk_state \<Rightarrow> sdk_event list \<Rightarrow> ('st, 'ct) sdk_state \<Rightarrow> bool" where
  "issued_grow st evs st' \<longleftrightarrow>
     (\<forall>sid m. last_issued (counter_st st) sid = Some m \<longrightarrow>
        (\<exists>m'. last_issued (counter_st st') sid = Some m' \<and> m \<le> m')) \<and>
     (\<forall>sid t m. (sid, t) \<in> set (charged evs) \<longrightarrow> last_issued (counter_st st) sid = Some m \<longrightarrow> m < t)"

lemma issued_grow_refl: "last_issued (counter_st st') = last_issued (counter_st st) \<Longrightarrow>
    charged evs = [] \<Longrightarrow> issued_grow st evs st'"
  by (simp add: issued_grow_def)

lemma issued_grow_append:
  assumes "issued_grow st xs st1" and "issued_grow st1 ys st2"
  shows "issued_grow st (xs @ ys) st2"
proof -
  have "\<exists>m'. last_issued (counter_st st2) sid = Some m' \<and> m \<le> m'"
    if "last_issued (counter_st st) sid = Some m" for sid m
    using assms that unfolding issued_grow_def by (meson order_trans)
  moreover have "m < t" if c: "(sid, t) \<in> set (charged (xs @ ys))" and m: "last_issued (counter_st st) sid = Some m"
    for sid t m
  proof (cases "(sid, t) \<in> set (charged xs)")
    case True
    then show ?thesis using assms(1) m unfolding issued_grow_def by blast
  next
    case False
    then have "(sid, t) \<in> set (charged ys)" using c by simp
    moreover obtain m1 where "last_issued (counter_st st1) sid = Some m1" "m \<le> m1"
      using assms(1) m unfolding issued_grow_def by blast
    ultimately show ?thesis using assms(2) unfolding issued_grow_def by (meson le_less_trans)
  qed
  ultimately show ?thesis unfolding issued_grow_def by blast
qed

lemma step_issued:
  assumes L: "crypto_ok L" and I: "I st" and sid: "seed_id_wf (call_seed_id call)"
    and step: "sdk_step L sdk call st = (ev, st')"
  shows "issued_grow st ev st'"
proof (cases call)
  case (Register e i)
  obtain r st1 where r: "register sdk e i st = (r, st1)" by force
  then show ?thesis using step register_counter [OF r] Register by (simp add: issued_grow_refl)
next
  case (Generate e i a)
  obtain r st1 where r: "generate_charge L sdk e i a st = (r, st1)" by force
  have st': "st' = st1" "ev = (case r of Ok c \<Rightarrow> [Charged (ch_seed_id c) (ch_counter c)] | _ \<Rightarrow> [])"
    using step r Generate by (auto split: outcome.splits)
  have wf: "seed_id_wf i" using sid Generate by simp
  from generate_counter [OF L wf r] show ?thesis
  proof (elim disjE exE conjE)
    assume "counter_st st1 = counter_st st" "\<not> is_ok r"
    then show ?thesis by (cases r) (simp_all add: st' issued_grow_refl)
  next
    fix ec r1 st2
    assume cnt: "on_counter (sdk_counter sdk ec i) st = (r1, st2)" and eq: "counter_st st1 = counter_st st2"
      and ok: "\<forall>c. r = Ok c \<longrightarrow> r1 = Ok (ch_counter c)"
    note iss = on_counter_issue [OF I cnt]
    show ?thesis
    proof (cases r)
      case (Ok c)
      have "ch_seed_id c = i" using generate_effect [OF L I wf r] Ok by auto
      then show ?thesis
        using iss ok Ok eq st' unfolding issued_grow_def by (auto intro: less_imp_le)
    next
      case (Err x)
      then show ?thesis
        using iss eq st' unfolding issued_grow_def by (cases r1) (auto intro: less_imp_le)
    next
      case Panic
      then show ?thesis
        using iss eq st' unfolding issued_grow_def by (cases r1) (auto intro: less_imp_le)
    qed
  qed
next
  case (Validate e i t code)
  obtain r st1 where r: "validate_receipt L sdk e i t code st = (r, st1)" by force
  then have "st' = st1" "charged ev = []"
    using step Validate by (auto split: outcome.splits validation_outcome.splits)
  with validate_counter [OF r] show ?thesis by (simp add: issued_grow_refl)
qed

lemma run_issued:
  assumes L: "crypto_ok L"
  shows "I st \<Longrightarrow> \<forall>call \<in> set calls. seed_id_wf (call_seed_id call) \<Longrightarrow>
    sdk_run L sdk calls st = (evs, st') \<Longrightarrow> issued_grow st evs st'"
proof (induction calls arbitrary: st evs)
  case Nil
  then show ?case by (simp add: issued_grow_refl)
next
  case (Cons call calls)
  obtain ev st1 where s1: "sdk_step L sdk call st = (ev, st1)" by force
  obtain evs2 st2 where s2: "sdk_run L sdk calls st1 = (evs2, st2)" by force
  have wf: "seed_id_wf (call_seed_id call)" "\<forall>c \<in> set calls. seed_id_wf (call_seed_id c)"
    using Cons.prems(2) by auto
  have "I st1" using step_effect [OF L Cons.prems(1) wf(1) s1] by blast
  from issued_grow_append [OF step_issued [OF L Cons.prems(1) wf(1) s1] Cons.IH [OF this wf(2)]] s2
    Cons.prems(3) s1 show ?case by auto
qed

end

section \<open>Properties\<close>

lemma distinct_filter_append:
  "distinct xs \<Longrightarrow> distinct ys \<Longrightarrow> (\<And>k. P k \<Longrightarrow> k \<in> set xs \<Longrightarrow> k \<notin> set ys) \<Longrightarrow> distinct (filter P (xs @ ys))"
  by auto

lemma charge_entry:
  assumes "ms_receipts m (sid, n) = Some (receipt_spec L s sid n a)"
  shows "lg_charges (ledger_of m) (sid, n) =
    Some \<lparr> en_amount = a, en_code = pay_code L s n, en_spent = False \<rparr>"
  using assms by (simp add: ledger_of_def pay_code_def)

text \<open>
  C16. A code does not expire: with the timestamp counter, whatever calls follow a charge, in whatever
  later windows, the code of the charge is still accepted as long as it was not accepted before.
  The receiver reads no clock when it validates.
\<close>
theorem codes_outlive_their_window:
  assumes L: "crypto_ok L" and sid: "seed_id_wf sid" and inv: "quantized_inv st"
    and seed: "ms_seeds (store_st st) sid = Some s"
    and charge: "generate_charge L quantized_sdk ((), now_t, ()) sid a st = (Ok c, st1)"
    and wf: "\<forall>call \<in> set calls. seed_id_wf (call_seed_id call)"
    and run: "sdk_run L quantized_sdk calls st1 = (evs, st2)"
    and unpaid: "(sid, ch_counter c) \<notin> set (accepted evs)"
  shows "ch_counter c = now_t div tc_window_seconds (counter_st st) \<and>
    fst (validate_receipt L quantized_sdk ((), ()) sid (ch_counter c) (pay_code L s (ch_counter c)) st2) = Ok Valid"
proof -
  from quantized_rx.generate_effect [OF L inv sid charge] seed obtain n where
    c: "c = charge_spec L s sid n a" and st1: "quantized_inv st1"
      "store_st st1 = snd (mem_save_receipt (receipt_spec L s sid n a) (store_st st))"
    and none: "ms_receipts (store_st st) (sid, n) = None" by auto
  have q: "ms_receipts (store_st st1) (sid, n) = Some (receipt_spec L s sid n a)"
    by (simp add: st1(2) mem_save_receipt_def Let_def)
  obtain log where log: "sdk_answers L quantized_sdk calls st1 = (log, st2)"
    using answers_state [of L quantized_sdk calls st1] run by (cases "sdk_answers L quantized_sdk calls st1") simp
  have "entries_grow (ledger_of (store_st st1)) (ledger_of (store_st st2))"
    using quantized_rx.answers_implement [OF L st1(1) wf log] ledger_run_grows by blast
  from this [unfolded entries_grow_def] charge_entry [OF q]
  obtain en where en: "lg_charges (ledger_of (store_st st2)) (sid, n) = Some en" "en_code en = pay_code L s n"
    by fastforce
  then obtain q' where q': "ms_receipts (store_st st2) (sid, n) = Some q'"
    "c2_chars (rr_expected_c2 q') = pay_code L s n"
    by (auto simp: ledger_of_def)
  have "(sid, n) \<notin> consumed_keys (store_st st1)" using q by (simp add: consumed_keys_def)
  with quantized_rx.run_effect [OF L st1(1) wf run] unpaid c
  have "(sid, n) \<notin> consumed_keys (store_st st2)" by (auto simp: receipts_effect_def)
  with q'(1) have "\<not> rr_consumed q'" by (auto simp: consumed_keys_def)
  moreover have "c2_spec L s n (c1_spec L s n) = rr_expected_c2 q'"
    using q'(2) unfolding pay_code_def by (metis c2.expand)
  ultimately have "fst (validate_receipt L quantized_sdk ((), ()) sid n (pay_code L s n) st2) = Ok Valid"
    using present_spec [OF L quantized_sdk_fields(1) q'(1), where t' = n and s = s and c = "c1_spec L s n"]
    by (simp add: pay_code_def)
  moreover have "n = now_t div tc_window_seconds (counter_st st)"
  proof -
    have w: "tc_window_seconds (counter_st st) \<noteq> 0" using inv by (simp add: quantized_inv_def)
    show ?thesis
      using charge c unfolding mem_generate_charge [OF L sid quantized_sdk_fields(1)]
      by (auto simp: seed ts_next_cases [OF w] Let_def split: option.splits if_splits
          dest: arg_cong [where f = ch_counter])
  qed
  ultimately show ?thesis by (simp add: c)
qed

text \<open>
  C11. Moving to another device: the receiver is exported with a counter that covers what it has issued,
  and restored elsewhere. No counter of the seed identifier is charged by both devices, no charge
  is accepted by both, and what the old device has charged is nothing to the new one.
\<close>
theorem device_change_keeps_codes_single_use:
  assumes B: "backup_lib_ok B" and L: "crypto_ok L" and i: "input_wf i" "ei_counter_mode i = Sequential"
    and inv: "default_inv st0" and wf1: "\<forall>call \<in> set calls1. seed_id_wf (call_seed_id call)"
    and old: "sdk_run L default_sdk calls1 st0 = (evs1, st1)"
    and covers: "\<forall>m. counter_st st1 (ei_seed_id i) = Some m \<longrightarrow> m \<le> ei_counter_t i"
    and bk: "export_with_params B os i pw params = Ok bk" and restored: "from_sealed_backup B bk pw = Ok st"
    and wf2: "\<forall>call \<in> set calls2. seed_id_wf (call_seed_id call)"
    and new: "sdk_run L default_sdk calls2 st = (evs2, st2)"
  shows "distinct (filter (\<lambda>k. fst k = ei_seed_id i) (charged (evs1 @ evs2))) \<and>
    distinct (filter (\<lambda>k. fst k = ei_seed_id i) (accepted (evs1 @ evs2))) \<and>
    (\<forall>t code. ms_receipts (store_st st1) (ei_seed_id i, t) \<noteq> None \<longrightarrow>
      \<not> is_ok (fst (validate_receipt L default_sdk ((), ()) (ei_seed_id i) t code st2)))"
proof -
  let ?sid = "ei_seed_id i"
  have st: "st = restored_receiver (state_of i)"
    using restored export_then_import [OF B i(1) bk] i(2) by (simp add: from_sealed_backup_import state_of_def)
  have "default_inv st"
    unfolding st using i(1) by (intro restored_receiver_inv) (simp_all add: state_of_def input_wf_def)
  note eff2 = default_rx.run_effect [OF L this wf2 new]
    and grow = default_rx.run_issued [OF L this wf2 new]
  note eff1 = default_rx.run_effect [OF L inv wf1 old]
  have cnt: "counter_st st ?sid = Some (ei_counter_t i)" and none: "ms_receipts (store_st st) = Map.empty"
    by (simp_all add: st restored_receiver_def state_of_def mem_store_new_def)
  have above: "ei_counter_t i < t" if "(?sid, t) \<in> set (charged evs2)" for t
    using grow that cnt unfolding default_rx.issued_grow_def by blast
  have below: "t \<le> ei_counter_t i" if t: "(?sid, t) \<in> dom (ms_receipts (store_st st1))" for t
  proof -
    obtain l where "counter_st st1 ?sid = Some l" "t \<le> l"
      using eff1 t unfolding default_inv_def receipts_bounded_def by blast
    with covers show ?thesis by (blast intro: order_trans)
  qed
  have dom2: "dom (ms_receipts (store_st st2)) = set (charged evs2)" "set (accepted evs2) \<subseteq> set (charged evs2)"
    using eff2 none by (auto simp: receipts_effect_def)
  have apart: "(?sid, t) \<notin> dom (ms_receipts (store_st st1)) \<inter> set (charged evs2)" for t
    using above [of t] below [of t] by (meson Int_iff leD)
  have old: "set (charged evs1) \<union> set (accepted evs1) \<subseteq> dom (ms_receipts (store_st st1))"
    "distinct (charged evs1)" "distinct (accepted evs1)"
    using eff1 by (auto simp: receipts_effect_def)
  have "distinct (charged evs2)" "distinct (accepted evs2)"
    using eff2 by (simp_all add: receipts_effect_def)
  moreover have "k \<notin> set (charged evs2)" if "fst k = ?sid" "k \<in> dom (ms_receipts (store_st st1))" for k
    using that apart [of "snd k"] by (cases k) auto
  ultimately have "distinct (filter (\<lambda>k. fst k = ?sid) (charged (evs1 @ evs2)))"
    "distinct (filter (\<lambda>k. fst k = ?sid) (accepted (evs1 @ evs2)))"
    using old dom2(2) unfolding charged_append accepted_append by (blast intro: distinct_filter_append)+
  moreover have "\<not> is_ok (fst (validate_receipt L default_sdk ((), ()) ?sid t code st2))"
    if "ms_receipts (store_st st1) (?sid, t) \<noteq> None" for t code
  proof -
    have "ms_receipts (store_st st2) (?sid, t) = None"
      using apart [of t] that dom2(1) by (auto simp: domIff)
    then show ?thesis by (simp add: mem_validate_receipt [OF L] split: outcome.split)
  qed
  ultimately show ?thesis by blast
qed

text \<open>
  C9. The limit that \<^verbatim>\<open>mcpix-backup\<close> documents for a backup that is restored twice: both devices
  reuse counters. Their next charges, whatever the two amounts, have the same public field and the
  same counter, and one payment, of any amount, gives a code that both devices accept, each for its own
  amount.
\<close>
theorem two_devices_accept_one_payment:
  assumes "backup_lib_ok B" and L: "crypto_ok L" and "input_wf i" and "ei_counter_mode i = Sequential"
    and "export_with_params B os i pw params = Ok bk" and "ei_counter_t i \<noteq> - 1"
    and "b (ei_seed_id i) = Some (ei_seed i)"
  shows "\<exists>st c1 st1 c2 st2 p st1' st2'. from_sealed_backup B bk pw = Ok st \<and>
    uniffi_generate_charge L (sid_as_str (ei_seed_id i)) amount1 st = (Ok c1, st1) \<and>
    uniffi_generate_charge L (sid_as_str (ei_seed_id i)) amount2 st = (Ok c2, st2) \<and>
    uc_amount_cents c1 = amount1 \<and> uc_amount_cents c2 = amount2 \<and>
    uc_transport_field c1 = uc_transport_field c2 \<and> uc_counter c1 = uc_counter c2 \<and>
    process_payment L mem_bank_ops e \<lparr> pr_instrument_string = uc_transport_field c1,
      pr_amount_cents = paid, pr_counter = uc_counter c1, pr_requester = rq \<rparr> b = Ok p \<and>
    uniffi_validate_receipt L (sid_as_str (ei_seed_id i)) (uc_counter c1) (py_identifier p) st1 = (Ok UValid, st1') \<and>
    uniffi_validate_receipt L (sid_as_str (ei_seed_id i)) (uc_counter c2) (py_identifier p) st2 = (Ok UValid, st2')"
proof -
  let ?r = "state_of i" and ?sid = "ei_seed_id i" and ?t = "ei_counter_t i + 1"
  have wf: "seed_id_wf ?sid" using assms(3) by (simp add: input_wf_def)
  have r: "rs_seed_id ?r = ?sid" "rs_seed ?r = ei_seed i" "rs_counter_t ?r = ei_counter_t i"
    "rs_counter_mode ?r = Sequential"
    using assms(4) by (simp_all add: state_of_def)
  have imp: "from_sealed_backup B bk pw = Ok (restored_receiver ?r)"
    using export_then_import [OF assms(1,3,5)] r by (simp add: from_sealed_backup_import)
  have "\<exists>st1. uniffi_generate_charge L (sid_as_str ?sid) amount (restored_receiver ?r) =
      (Ok \<lparr> uc_transport_field = field_of ?sid (c1_spec L (ei_seed i) ?t), uc_counter = ?t,
            uc_amount_cents = amount \<rparr>, st1) \<and>
      (\<exists>st2. uniffi_validate_receipt L (sid_as_str ?sid) ?t
        (c2_chars (c2_spec L (ei_seed i) ?t (c1_spec L (ei_seed i) ?t))) st1 = (Ok UValid, st2))" for amount
  proof -
    obtain st1 where "uniffi_generate_charge L (sid_as_str ?sid) amount (restored_receiver ?r) =
        (Ok \<lparr> uc_transport_field = field_of ?sid (c1_spec L (ei_seed i) ?t), uc_counter = ?t,
              uc_amount_cents = amount \<rparr>, st1)"
      and q: "ms_receipts (store_st st1) (?sid, ?t) = Some (receipt_spec L (ei_seed i) ?sid ?t amount)"
      using restored_generate [OF L, of ?r amount] wf assms(6) unfolding r by blast
    then show ?thesis
      by (simp add: uniffi_validate_receipt_def seed_id_new_as_str [OF wf] uniffi_call_def
          present_spec [OF L _ q])
  qed
  from this [of amount1] this [of amount2] obtain st1 st2 st1' st2' where
    g: "uniffi_generate_charge L (sid_as_str ?sid) amount1 (restored_receiver ?r) =
      (Ok \<lparr> uc_transport_field = field_of ?sid (c1_spec L (ei_seed i) ?t), uc_counter = ?t,
            uc_amount_cents = amount1 \<rparr>, st1)"
    "uniffi_generate_charge L (sid_as_str ?sid) amount2 (restored_receiver ?r) =
      (Ok \<lparr> uc_transport_field = field_of ?sid (c1_spec L (ei_seed i) ?t), uc_counter = ?t,
            uc_amount_cents = amount2 \<rparr>, st2)"
    and v: "uniffi_validate_receipt L (sid_as_str ?sid) ?t
        (c2_chars (c2_spec L (ei_seed i) ?t (c1_spec L (ei_seed i) ?t))) st1 = (Ok UValid, st1')"
      "uniffi_validate_receipt L (sid_as_str ?sid) ?t
        (c2_chars (c2_spec L (ei_seed i) ?t (c1_spec L (ei_seed i) ?t))) st2 = (Ok UValid, st2')"
    by blast
  show ?thesis
    by (rule exI [of _ "restored_receiver ?r"]) (simp add: imp g v mem_payment [OF L wf] assms(7))
qed

section \<open>Witnesses\<close>

lemma restored_charge_run:
  assumes "crypto_ok L" and "seed_id_wf (rs_seed_id r)" and "rs_counter_t r = n" and "n \<noteq> - 1"
  shows "\<exists>st. sdk_run L default_sdk [Generate ((), (), ()) (rs_seed_id r) a] (restored_receiver r) =
      ([Charged (rs_seed_id r) (n + 1)], st) \<and> counter_st st (rs_seed_id r) = Some (n + 1) \<and>
    ms_receipts (store_st st) (rs_seed_id r, n + 1) \<noteq> None"
  using assms counter_next_Some [of "counter_st (restored_receiver r)" "rs_seed_id r" n]
  by (simp add: mem_generate_charge restored_receiver_def mem_save_receipt_def Let_def)

theorem codes_outlive_their_window_witness:
  "\<exists>st2. fst (validate_receipt demo_crypto quantized_sdk ((), ()) demo_sid 3
      (pay_code demo_crypto demo_seed 3) st2) = Ok Valid \<and>
    (\<exists>r. ms_receipts (store_st st2) (demo_sid, 1000) = Some r)"
proof -
  let ?st = "\<lparr> store_st = mem_store_new \<lparr> ms_seeds := [demo_sid \<mapsto> demo_seed] \<rparr>,
    counter_st = \<lparr> tc_window_seconds = 30, tc_last_issued = Map.empty \<rparr> \<rparr>"
  let ?c = "charge_spec demo_crypto demo_seed demo_sid 3 5"
  let ?calls = "[Generate ((), 30000, ()) demo_sid 7]"
  have inv: "quantized_inv ?st"
    by (simp add: quantized_inv_def store_view_wf_def mem_store_new_def receipts_bounded_def)
  obtain st1 where g: "generate_charge demo_crypto quantized_sdk ((), 100, ()) demo_sid 5 ?st = (Ok ?c, st1)"
    and st1: "ms_seeds (store_st st1) demo_sid = Some demo_seed"
      "counter_st st1 = \<lparr> tc_window_seconds = 30, tc_last_issued = [demo_sid \<mapsto> 3] \<rparr>"
    by (simp add: mem_generate_charge [OF demo_crypto_ok demo_sid_wf] ts_next_def div_oc_def mem_store_new_def
        mem_save_receipt_def Let_def)
  obtain st2 where r: "sdk_run demo_crypto quantized_sdk ?calls st1 = ([Charged demo_sid 1000], st2)"
    and st2: "\<exists>r. ms_receipts (store_st st2) (demo_sid, 1000) = Some r"
    using st1 by (simp add: mem_generate_charge [OF demo_crypto_ok demo_sid_wf] ts_next_def div_oc_def
        mem_save_receipt_def Let_def)
  have "ms_seeds (store_st ?st) demo_sid = Some demo_seed" "\<forall>call \<in> set ?calls. seed_id_wf (call_seed_id call)"
    by simp_all
  from codes_outlive_their_window [OF demo_crypto_ok demo_sid_wf inv this(1) g this(2) r] st2
  show ?thesis by auto
qed

theorem device_change_keeps_codes_single_use_witness:
  "let sid = ei_seed_id demo_input in
   \<exists>evs1 evs2 st2. evs1 = [Charged sid 40] \<and> evs2 = [Charged sid 42] \<and>
     distinct (filter (\<lambda>k. fst k = sid) (charged (evs1 @ evs2))) \<and>
     \<not> is_ok (fst (validate_receipt demo_crypto default_sdk ((), ()) sid 40 demo_code st2))"
proof -
  let ?sid = "ei_seed_id demo_input"
  let ?r = "\<lparr> rs_seed = demo_seed, rs_seed_id = ?sid, rs_counter_mode = Sequential, rs_counter_t = 39 \<rparr>"
  have sid: "seed_id_wf ?sid" using demo_input_wf by (simp add: input_wf_def)
  have inv: "default_inv (restored_receiver ?r)" by (rule restored_receiver_inv) (simp_all add: sid)
  have mode: "ei_counter_mode demo_input = Sequential" by (simp add: demo_input_def)
  obtain st1 where old: "sdk_run demo_crypto default_sdk [Generate ((), (), ()) ?sid 5] (restored_receiver ?r) =
      ([Charged ?sid 40], st1)" and cnt: "counter_st st1 ?sid = Some 40"
    and made: "ms_receipts (store_st st1) (?sid, 40) \<noteq> None"
    using restored_charge_run [OF demo_crypto_ok, of ?r 39 5] sid by auto
  obtain bk where bk: "export_with_params demo_backup (Inr (\<lambda>_. 3), Inr (\<lambda>_. 4)) demo_input
    (ascii ''pw'') default_embed = Ok bk" using demo_export by blast
  have moved: "from_sealed_backup demo_backup bk (ascii ''pw'') = Ok (restored_receiver (state_of demo_input))"
    using export_then_import [OF demo_backup_ok demo_input_wf bk] mode
    by (simp add: from_sealed_backup_import state_of_def)
  obtain st2 where new: "sdk_run demo_crypto default_sdk [Generate ((), (), ()) ?sid 6]
      (restored_receiver (state_of demo_input)) = ([Charged ?sid 42], st2)"
    using restored_charge_run [OF demo_crypto_ok, of "state_of demo_input" 41 6] sid
    by (auto simp: state_of_def demo_input_def)
  have covers: "\<forall>m. counter_st st1 ?sid = Some m \<longrightarrow> m \<le> ei_counter_t demo_input"
    using cnt by (simp add: demo_input_def)
  have wf: "\<forall>call \<in> set [Generate ((), (), ()) ?sid a]. seed_id_wf (call_seed_id call)" for a
    using sid by simp
  from device_change_keeps_codes_single_use [OF demo_backup_ok demo_crypto_ok demo_input_wf mode inv
      wf old covers bk moved wf new] made
  show ?thesis unfolding Let_def by blast
qed

theorem two_devices_accept_one_payment_witness:
  "\<exists>bk st c1 st1 c2 st2 code st1' st2'. export_with_params demo_backup (Inr (\<lambda>_. 3), Inr (\<lambda>_. 4)) demo_input
      (ascii ''pw'') default_embed = Ok bk \<and> from_sealed_backup demo_backup bk (ascii ''pw'') = Ok st \<and>
    uniffi_generate_charge demo_crypto (sid_as_str (ei_seed_id demo_input)) 100 st = (Ok c1, st1) \<and>
    uniffi_generate_charge demo_crypto (sid_as_str (ei_seed_id demo_input)) 9000 st = (Ok c2, st2) \<and>
    uniffi_validate_receipt demo_crypto (sid_as_str (ei_seed_id demo_input)) (uc_counter c1) code st1 = (Ok UValid, st1') \<and>
    uniffi_validate_receipt demo_crypto (sid_as_str (ei_seed_id demo_input)) (uc_counter c2) code st2 = (Ok UValid, st2')"
proof -
  obtain bk where t: "export_with_params demo_backup (Inr (\<lambda>_. 3), Inr (\<lambda>_. 4)) demo_input
    (ascii ''pw'') default_embed = Ok bk" using demo_export by blast
  have m: "ei_counter_mode demo_input = Sequential" "ei_counter_t demo_input \<noteq> - 1"
    by (simp_all add: demo_input_def)
  from two_devices_accept_one_payment [where b = "demo_bank_of (ei_seed_id demo_input) (ei_seed demo_input)"
      and ?amount1.0 = 100 and ?amount2.0 = 9000 and e = "()" and paid = 1 and rq = demo_requester,
      OF demo_backup_ok demo_crypto_ok demo_input_wf m(1) t m(2) demo_bank_of_seed] t
  show ?thesis by blast
qed

end
