(* ===== verification/Ocsp.thy ===== *)
theory Ocsp
  imports Mtls
begin

text \<open>
  \<^verbatim>\<open>mcpix-bank-receiver/src/ocsp.rs\<close>: the query of a certificate's status at the responder of its
  authority.

  DER, certificates and identifiers (SHA-1 of the issuer and the serial number) are third-party:
  \<open>ocsp_lib\<close> is a parameter, over the types of certificates and of certificate identifiers. The
  HTTP client is the function from a URL and a body to what came back.
\<close>

section \<open>Types\<close>

datatype ocsp_status = OcspGood | OcspRevoked "u32 option" | OcspUnknown

text \<open>The response of the library: RFC 6960 section 4.2.1.\<close>

datatype cert_status = CsGood | CsRevoked "u32 option" | CsUnknown

datatype response_status =
    Successful | MalformedRequest | InternalError | TryLater | SigRequired | Unauthorized

record ocsp_response =
  or_status :: response_status
  or_bytes :: "bytes option"

record ('c, 'i) ocsp_lib =
  cert_from_der :: "bytes \<Rightarrow> bytes + 'c"
  cert_id :: "'c \<Rightarrow> 'c \<Rightarrow> bytes + 'i"
  request_to_der :: "'i list \<Rightarrow> bytes + bytes"
  response_from_der :: "bytes \<Rightarrow> bytes + ocsp_response"
  basic_from_der :: "bytes \<Rightarrow> bytes + ('i \<times> cert_status) list"
  show_response_status :: "response_status \<Rightarrow> bytes"
  show_http_status :: "nat \<Rightarrow> bytes"

section \<open>Operations\<close>

definition first_cert :: "pem_lib \<Rightarrow> ('c, 'i) ocsp_lib \<Rightarrow> bytes \<Rightarrow> string \<Rightarrow> 'c mcpix" where
  "first_cert P O' pem role =
     (case pem_certs P pem of
        [] \<Rightarrow> Err (Transport (ascii (''ocsp: no cert in '' @ role @ '' pem'')))
      | Inl e # _ \<Rightarrow> Err (Transport (ascii (''ocsp: read '' @ role @ '' pem: '') @ e))
      | Inr der # _ \<Rightarrow> of_result (''ocsp: parse '' @ role @ '' DER: '') (cert_from_der O' der))"

definition build_ocsp_request ::
  "pem_lib \<Rightarrow> ('c, 'i) ocsp_lib \<Rightarrow> bytes \<Rightarrow> bytes \<Rightarrow> bytes mcpix" where
  "build_ocsp_request P O' subject_cert_pem issuer_cert_pem =
     and_then (first_cert P O' subject_cert_pem ''subject'') (\<lambda>subject.
     and_then (first_cert P O' issuer_cert_pem ''issuer'') (\<lambda>issuer.
     and_then (of_result ''ocsp: build CertId: '' (cert_id O' issuer subject)) (\<lambda>cid.
     of_result ''ocsp: encode request: '' (request_to_der O' [cid]))))"

text \<open>One POST: a failure to send, or a status and a body that may fail to arrive.\<close>

type_synonym http_post = "bytes \<Rightarrow> bytes \<Rightarrow> bytes + nat \<times> (bytes + bytes)"

definition send_ocsp_request ::
  "('c, 'i) ocsp_lib \<Rightarrow> http_post \<Rightarrow> bytes \<Rightarrow> bytes \<Rightarrow> bytes mcpix" where
  "send_ocsp_request O' post responder_url request_der =
     and_then (of_result ''ocsp: POST: '' (post responder_url request_der)) (\<lambda>(status, body).
     if \<not> is_success status
     then Err (Transport (ascii ''ocsp: responder returned '' @ show_http_status O' status))
     else
       and_then (of_result ''ocsp: read response body: '' body) (\<lambda>bs.
       if bs = [] then Err (Transport (ascii ''ocsp: empty response'')) else Ok bs))"

fun status_of_single :: "cert_status \<Rightarrow> ocsp_status" where
  "status_of_single CsGood = OcspGood"
| "status_of_single (CsRevoked reason) = OcspRevoked reason"
| "status_of_single CsUnknown = OcspUnknown"

definition parse_ocsp_response :: "('c, 'i) ocsp_lib \<Rightarrow> bytes \<Rightarrow> ocsp_status mcpix" where
  "parse_ocsp_response O' response_der =
     and_then (of_result ''ocsp: decode response: '' (response_from_der O' response_der)) (\<lambda>response.
     if or_status response \<noteq> Successful
     then Err (Transport (ascii ''ocsp: non-successful response status: ''
                 @ show_response_status O' (or_status response)))
     else
       and_then (ok_or (Transport (ascii ''ocsp: successful response without responseBytes''))
                   (or_bytes response)) (\<lambda>response_bytes.
       and_then (of_result ''ocsp: decode BasicOcspResponse: '' (basic_from_der O' response_bytes))
         (\<lambda>basic.
       case basic of
         [] \<Rightarrow> Err (Transport (ascii ''ocsp: empty SingleResponse list''))
       | single # _ \<Rightarrow> Ok (status_of_single (snd single)))))"

record ocsp_checker =
  oc_post :: http_post
  oc_responder_url :: bytes

definition ocsp_checker_new :: "http_post \<Rightarrow> bytes \<Rightarrow> ocsp_checker" where
  "ocsp_checker_new client url = \<lparr> oc_post = client, oc_responder_url = url \<rparr>"

definition ocsp_check ::
  "pem_lib \<Rightarrow> ('c, 'i) ocsp_lib \<Rightarrow> ocsp_checker \<Rightarrow> bytes \<Rightarrow> bytes \<Rightarrow> ocsp_status mcpix" where
  "ocsp_check P O' ck subject_cert_pem issuer_cert_pem =
     and_then (build_ocsp_request P O' subject_cert_pem issuer_cert_pem) (\<lambda>req.
     and_then (send_ocsp_request O' (oc_post ck) (oc_responder_url ck) req) (\<lambda>resp.
     parse_ocsp_response O' resp))"

section \<open>Properties\<close>

lemma of_result_Err: "of_result msg r = Err e \<Longrightarrow> \<exists>m. e = Transport m"
  by (cases r) auto

lemma first_cert_errors:
  "first_cert P O' pem role \<noteq> Panic"
  "first_cert P O' pem role = Err e \<Longrightarrow> \<exists>m. e = Transport m"
  by (auto simp: first_cert_def split: list.splits sum.splits dest: of_result_Err)

lemma parse_ocsp_errors:
  "parse_ocsp_response O' der \<noteq> Panic"
  "parse_ocsp_response O' der = Err e \<Longrightarrow> \<exists>m. e = Transport m"
  by (auto simp: parse_ocsp_response_def outcome_simps neq_Nil_conv split: if_splits list.split_asm
      dest: of_result_Err)

lemma send_ocsp_errors:
  "send_ocsp_request O' post url req \<noteq> Panic"
  "send_ocsp_request O' post url req = Err e \<Longrightarrow> \<exists>m. e = Transport m"
  by (auto simp: send_ocsp_request_def outcome_simps split: if_splits prod.splits
      dest: of_result_Err)

text \<open>
  C38. The status is not tied to the certificate that was asked about: once the request could be
  built, any successful reply whose first single response says good makes the check answer good,
  whatever certificate that response names and whatever the later ones say of the one in
  question. Every failure on the way is a transport error and none is a panic.
\<close>
theorem ocsp_answer_for_any_certificate:
  assumes "build_ocsp_request P O' subject issuer = Ok req"
    and "oc_post ck (oc_responder_url ck) req = Inr (200, Inr body)" and "body \<noteq> []"
    and "response_from_der O' body = Inr \<lparr> or_status = Successful, or_bytes = Some inner \<rparr>"
    and "basic_from_der O' inner = Inr ((other_cert, CsGood) # rest)"
  shows "ocsp_check P O' ck subject issuer = Ok OcspGood \<and>
    (case ocsp_check P O' ck' subject' issuer' of
       Ok _ \<Rightarrow> True | Err e \<Rightarrow> (\<exists>m. e = Transport m) | Panic \<Rightarrow> False)"
proof
  show "ocsp_check P O' ck subject issuer = Ok OcspGood"
    using assms by (simp add: ocsp_check_def send_ocsp_request_def is_success_def parse_ocsp_response_def)
  have "build_ocsp_request P O' subject' issuer' \<noteq> Panic"
    using first_cert_errors(1) by (auto simp: build_ocsp_request_def outcome_simps)
  moreover have "\<exists>m. e = Transport m" if "build_ocsp_request P O' subject' issuer' = Err e" for e
    using that by (auto simp: build_ocsp_request_def outcome_simps
        dest: of_result_Err first_cert_errors(2))
  ultimately show "case ocsp_check P O' ck' subject' issuer' of
       Ok _ \<Rightarrow> True | Err e \<Rightarrow> (\<exists>m. e = Transport m) | Panic \<Rightarrow> False"
    using parse_ocsp_errors [of O'] send_ocsp_errors [of O']
    by (auto simp: ocsp_check_def outcome_simps split: outcome.split)
qed

text \<open>
  Toy codecs: a certificate is its bytes and its own identifier, a request names it, a reply names
  a certificate in its first byte and says it is good.
\<close>

definition demo_ocsp :: "(bytes, bytes) ocsp_lib" where
  "demo_ocsp =
     \<lparr> cert_from_der = Inr, cert_id = (\<lambda>issuer subject. Inr subject),
       request_to_der = (\<lambda>ids. Inr (concat ids)),
       response_from_der = (\<lambda>b. Inr \<lparr> or_status = Successful, or_bytes = Some b \<rparr>),
       basic_from_der = (\<lambda>b. Inr [([hd b], CsGood)]), show_response_status = (\<lambda>_. []),
       show_http_status = show_nat \<rparr>"

theorem ocsp_answer_for_any_certificate_witness:
  "ocsp_check demo_pem demo_ocsp (ocsp_checker_new (\<lambda>url req. Inr (200, Inr [0x42])) [])
     demo_cert demo_cert = Ok OcspGood \<and>
   basic_from_der demo_ocsp [0x42] = Inr [([0x42], CsGood)] \<and>
   cert_id demo_ocsp demo_cert demo_cert \<noteq> Inr [0x42]"
proof -
  have "contains demo_cert (ascii ''-----BEGIN'')" by code_simp
  then have "build_ocsp_request demo_pem demo_ocsp demo_cert demo_cert = Ok demo_cert"
    by (simp add: build_ocsp_request_def first_cert_def demo_pem_def demo_ocsp_def)
  from ocsp_answer_for_any_certificate [OF this, of "ocsp_checker_new (\<lambda>url req. Inr (200, Inr [0x42])) []"
      "[0x42]" "[0x42]" "[0x42]" "[]"]
  have "ocsp_check demo_pem demo_ocsp (ocsp_checker_new (\<lambda>url req. Inr (200, Inr [0x42])) [])
     demo_cert demo_cert = Ok OcspGood"
    by (simp add: demo_ocsp_def ocsp_checker_new_def)
  then show ?thesis by (simp add: demo_ocsp_def demo_cert_def ascii_def)
qed

end
