(* ===== verification/FuzzTargets.thy ===== *)
theory FuzzTargets
  imports TransportField Integrity
begin

text \<open>
  The programs of \<^verbatim>\<open>fuzz/fuzz_targets\<close>: one run of each on one input. A run that ends is
  \<open>Ok ()\<close>, a crash that the fuzzer records is \<open>Panic\<close>.
\<close>

fun ends :: "('e, 'a) outcome \<Rightarrow> (unit, unit) outcome" where
  "ends Panic = Panic"
| "ends _ = Ok ()"

definition fuzz_transport_parse :: "bytes \<Rightarrow> (unit, unit) outcome" where
  "fuzz_transport_parse data = (if utf8_valid data then ends (parse data) else Ok ())"

definition fuzz_sums_line :: "bytes \<Rightarrow> (unit, unit) outcome" where
  "fuzz_sums_line data =
     (if utf8_valid data then (case parse_sums_line data of _ \<Rightarrow> Ok ()) else Ok ())"

record fuzz_input =
  fi_sums :: bytes
  fi_sig :: bytes
  fi_filename :: bytes
  fi_hash_hex :: bytes

definition fuzz_verify_combined :: "ed_lib \<Rightarrow> bytes \<Rightarrow> fuzz_input \<Rightarrow> (unit, unit) outcome" where
  "fuzz_verify_combined D release_pubkey input =
     (case verify_combined D (fi_sums input) (fi_sig input) release_pubkey
             (fi_filename input) (fi_hash_hex input) of
        Ok SVerified \<Rightarrow> Panic
      | r \<Rightarrow> ends r)"

lemma parse_not_Panic: "parse f \<noteq> Panic"
proof (cases "26 \<le> length f \<and> length f \<le> 35 \<and> (\<forall>b \<in> set f. is_alnum b)")
  case True
  then have "parse_v1 f \<noteq> Panic"
    by (cases "length f = 35") (simp_all add: parse_v1_eq parse_v1_len outcome_simps seed_id_new_not_Panic)
  with True show ?thesis by (simp add: parse_alnum)
next
  case False
  then show ?thesis using parse_len [of f] parse_charset [of f] by (metis outcome.distinct(5))
qed

lemma verify_combined_not_Panic: "verify_combined D sums sig key name h \<noteq> Panic"
  by (simp add: verify_combined_def verify_signature_def outcome_simps split: option.splits)

text \<open>
  The transport-field parser cannot crash its host on any input, and the manifest check crashes its
  fuzz target exactly on a signed manifest that lists the hash: a forgery, unless the release key
  made it.
\<close>

theorem fuzz_targets_crash_only_on_forgery:
  "fuzz_transport_parse data = Ok () \<and>
   (fuzz_verify_combined D key input = Panic \<longleftrightarrow>
      signature_ok D (fi_sums input) (fi_sig input) key \<and> utf8_valid (fi_sums input) \<and>
      (case entry_for (fi_filename input) (manifest_entries (fi_sums input)) of
         None \<Rightarrow> False | Some (listed, _) \<Rightarrow> eq_ignore_case listed (fi_hash_hex input)))"
proof
  show "fuzz_transport_parse data = Ok ()"
    using parse_not_Panic [of data] by (cases "parse data") (simp_all add: fuzz_transport_parse_def)
  have "fuzz_verify_combined D key input = Panic \<longleftrightarrow>
      verify_combined D (fi_sums input) (fi_sig input) key (fi_filename input) (fi_hash_hex input) = Ok SVerified"
    using verify_combined_not_Panic
    by (auto simp: fuzz_verify_combined_def split: outcome.splits signature_check.splits)
  also have "\<dots> \<longleftrightarrow> signature_ok D (fi_sums input) (fi_sig input) key \<and> utf8_valid (fi_sums input) \<and>
      (case entry_for (fi_filename input) (manifest_entries (fi_sums input)) of
         None \<Rightarrow> False | Some (listed, _) \<Rightarrow> eq_ignore_case listed (fi_hash_hex input))"
    by (auto simp: verify_combined_def verify_signature_def signature_ok_def SIGNATURE_LEN_def
        check_lines_entry manifest_entries_def verdict_of_Verified_iff outcome_simps
        split: option.splits)
  finally show "fuzz_verify_combined D key input = Panic \<longleftrightarrow>
      signature_ok D (fi_sums input) (fi_sig input) key \<and> utf8_valid (fi_sums input) \<and>
      (case entry_for (fi_filename input) (manifest_entries (fi_sums input)) of
         None \<Rightarrow> False | Some (listed, _) \<Rightarrow> eq_ignore_case listed (fi_hash_hex input))" .
qed

end
