(* ===== verification/Spec2Isabelle.thy ===== *)
theory Spec2Isabelle
  imports ReceiverSdk Concurrent Restarts ClockRestarts Ledger SharedLedger Reference SealedStore
    SqliteStore HttpBank MtlsServer BuildScripts PayerBank Embed EmbedStorage Integrity Ffi Uniffi Wasm
    EndToEnd LongRuns Ocsp Mtls Firmware Release Xtask FuzzTargets
begin

text \<open>
  \<^bold>\<open>mcpix-sdk\<close>: one-time payment codes for offline receivers.

  A receiver shares a seed with its bank. For the counter \<open>T\<close> it derives a public code \<open>C1\<close> and
  a secret code \<open>C2\<close>, puts \<open>C1\<close> and its own identifier in the transport field of the payment
  instrument, and keeps \<open>C2\<close>. The bank of the payer looks up the seed at the bank of the receiver,
  recomputes \<open>C2\<close> from the field and \<open>T\<close>, and hands it to the payer, who shows it; the receiver,
  still offline, accepts it once. The workspace holds this protocol twice (a host library and a
  \<^verbatim>\<open>no_std\<close> one for devices), the stores, banks, bindings and programs around it, and the
  checks of its own released binaries. This development models all of these.

  \<^bold>\<open>How Rust is modelled.\<close> A call returns \<open>Ok v\<close>, \<open>Err e\<close> or \<open>Panic\<close> (\<open>outcome\<close> in Prelude);
  \<open>and_then\<close> is the question mark, \<open>st_then\<close> the same for a call that returns a new state. A
  \<^verbatim>\<open>&mut self\<close> or a lock becomes explicit state passing. Unsigned integers are words; where a
  debug and a release build differ, the definition takes a flag (\<open>oc\<close> for overflow checks,
  \<open>debug\<close> for debug assertions). A string is the list of its UTF-8 bytes. A trait is a record of
  functions whose first argument is the environment of the call (what the random source, the
  database engine, the network or the flash does in it), and its contract is a locale that every
  implementation interprets.

  \<^bold>\<open>Theories, in the order in which they build on each other\<close>, with the files under
  \<^verbatim>\<open>crates/\<close> that they translate:

    \<^item> Prelude: outcomes, checked, wrapping and saturating arithmetic, big-endian bytes, the
      functions of \<^verbatim>\<open>core::str\<close> with their panics at character boundaries.
    \<^item> CoreTypes (\<^verbatim>\<open>mcpix-core/src/error.rs\<close>, \<^verbatim>\<open>types.rs\<close>), Crypto (\<^verbatim>\<open>crypto.rs\<close>), Version
      (\<^verbatim>\<open>version.rs\<close>), TransportField (\<^verbatim>\<open>transport_field.rs\<close>), CoreState (\<^verbatim>\<open>state.rs\<close>): the
      functional core. The encoder of a MAC is proved equal to a specification that reads five
      bits at a time; the codes to \<open>c1_spec\<close> and \<open>c2_spec\<close>; the parser is characterised on every
      input and is a two-sided inverse of the encoder.
    \<^item> SeedStores (\<^verbatim>\<open>mcpix-core/src/traits.rs\<close>, \<^verbatim>\<open>mcpix-receiver-sdk/src/memory_store.rs\<close>):
      the contract of a seed store (locale \<open>seed_store\<close>) over an abstract view, and the in-memory
      store. SealedStore (\<^verbatim>\<open>sealed_store.rs\<close>) and SqliteStore (\<^verbatim>\<open>sqlite_store.rs\<close>) interpret
      the same contract and refine the in-memory store over any sequence of calls.
    \<^item> Counters (\<^verbatim>\<open>clock.rs\<close>, \<^verbatim>\<open>monotonic_counter.rs\<close>, \<^verbatim>\<open>timestamp_counter.rs\<close>): both
      counters under one contract (locale \<open>counter_impl\<close>).
    \<^item> ReceiverSdk (\<^verbatim>\<open>mcpix-receiver-sdk/src/lib.rs\<close>, \<^verbatim>\<open>system_random.rs\<close>): the facade over
      any store and counter (locale \<open>receiver\<close>), runs of calls, and validations that interleave
      as a step relation. SdkFacts holds exact results that the bindings use. Concurrent interleaves
      all the accesses of any number of threads (\<open>conc_step\<close>), with the invariant of the locale
      carried over every interleaving. Restarts interprets \<open>receiver\<close> on the sealed and the SQLite
      store and stops and starts the process between any two accesses; ClockRestarts does so with
      the clock as the counter, which jumps within the life of a process. Ledger is the abstract
      specification of the facade, a ledger of charges that can only be spent, and the proof that
      all four configurations implement it, answer by answer; SharedLedger proves the same of threads
      whose calls overlap, access by access (a simulation, with the seeds that were ever registered
      as its ghost state). Reference gives, for the in-memory
      configuration of the bindings, the one function on the ledger that the facade computes.
    \<^item> BankReceivers, HttpBank, Mtls, MtlsServer, Ocsp (\<^verbatim>\<open>mcpix-bank-receiver/src\<close>): the bank of
      the receiver (locale \<open>bank_receiver\<close>), its HTTP binding as a client against the router, which
      interprets that locale again over the bank behind it, the TLS configuration of both sides,
      what the servers do until they listen and what they hand to the library, and the OCSP client.
    \<^item> PayerBank (\<^verbatim>\<open>mcpix-bank-payer-mock/src/lib.rs\<close>): both payment paths.
    \<^item> Backup (\<^verbatim>\<open>mcpix-backup/src\<close>): the container, export and import.
    \<^item> Embed, EmbedStorage (\<^verbatim>\<open>mcpix-embed/src\<close>): the second implementation of the core, proved
      equal to the first, and the stores in NOR flash: two slots per record, over any flash that
      keeps the contract \<open>nor_flash\<close>, with a power cut as an environment of a call.
    \<^item> Integrity (\<^verbatim>\<open>signature.rs\<close>, \<^verbatim>\<open>integrity.rs\<close>, \<^verbatim>\<open>integrity_runtime.rs\<close>): the signed
      manifest and the self-check of the binary. Release and Xtask (\<^verbatim>\<open>xtask/src/main.rs\<close>): the
      tasks that build, hash, sign and package what is checked, over the tree of the workspace.
      BuildScripts (\<^verbatim>\<open>mcpix-ffi/build.rs\<close>, \<^verbatim>\<open>embedded/build.rs\<close>): what cargo runs before.
    \<^item> Ffi (\<^verbatim>\<open>mcpix-ffi/src\<close>), Uniffi (\<^verbatim>\<open>mcpix-uniffi/src/lib.rs\<close>), Wasm
      (\<^verbatim>\<open>mcpix-wasm/src/lib.rs\<close>): the three language bindings. A run through the C interface
      simulates a run of the facade.
    \<^item> Firmware (\<^verbatim>\<open>mcpix-embed/src/qr.rs\<close>, \<^verbatim>\<open>embedded/src/main.rs\<close>,
      \<^verbatim>\<open>embedded-uno-q/src/main.rs\<close>): boots of the two bare-metal programs, one after the other on
      the same flash.
    \<^item> EndToEnd (\<^verbatim>\<open>examples/e2e_demo.rs\<close>): the parties together, and the program that runs
      them. LongRuns follows a charge past its window and the receiver to another device. FuzzTargets
      (\<^verbatim>\<open>fuzz/fuzz_targets\<close>): one run of each target.

  \<^bold>\<open>What the properties say\<close>, by subject. Codes: the encoder reads the bits of the MAC, \<open>C2\<close> is
  recomputed from \<open>C1\<close>, the field is parsed back exactly. One-time use: over any run of calls each
  charge is accepted at most once and its later presentations are replays; the C interface keeps
  this; two concurrent validations break it, and a restart that does not restore the counter breaks
  it over the file of SQLite, as does a restart within a window of the clock, and two devices
  restored from one backup accept one payment twice; threads that only
  interleave elsewhere, and restarts that do restore it or come in a later window, keep it, and so
  does a move to another device with a backup that covers what was issued. A code does not expire.
  Every configuration of the facade implements the ledger of charges, also with calls that overlap,
  and the in-memory one is exactly the reference function, errors included. Stores and banks: the
  sealed store, the SQLite store and the HTTP bank behave as the in-memory one on the calls that
  succeed. A client of mutual TLS trusts the configured authorities (and, without revocation lists,
  those of its HTTP library), a revocation list that is not PEM is dropped, and the bank takes the
  requester's word for who it is.
  Payment: a charge that is paid at any bank that keeps the contract is accepted, also after drift
  within the tolerance, after a restore from a backup, and when a device made it. Devices: every
  boot charges and consumes, a persisted counter is spent, a power cut loses at most the record
  being written.
  Releases: the check accepts exactly what a signed manifest lists, and what \<^verbatim>\<open>build-linux\<close>
  built, hashed and signed is accepted.

  \<^bold>\<open>Parameters and hypotheses.\<close> Third-party code is a parameter, and a hypothesis names the
  documented behaviour that is used: \<open>crypto_ok\<close> (HMAC-SHA-256 gives 32 bytes, the constant-time
  comparison compares), \<open>aead_ok\<close> and \<open>backup_lib_ok\<close> (what was sealed opens again, Base58Check
  decodes what it encoded), \<open>wire_ok\<close> and \<open>origin_ok\<close> (JSON, base64, URL parsing and the extractors of the server), \<open>sha_ok\<close>,
  \<open>signature_ok\<close> and \<open>signs_for\<close> (SHA-256 and Ed25519), \<open>pem_ok\<close> (PEM readers see only PEM
  sections), \<open>qr_ok\<close> (a version 4 code of level M holds a field), \<open>nor_flash\<close> (reads and writes of a
  flash) and \<open>io_ok\<close> (a file operation without an error found what it needs). No secrecy or unforgeability is assumed or
  proved.

  \<^bold>\<open>Loops.\<close> Every loop of the sources ends and is structural recursion or has a measure (the refill
  loop of the encoder: bits still missing); no definition needs fuel.

  \<^bold>\<open>Not modelled.\<close> The connections, handshakes and shutdown of a running server and the connection
  pool of the client, which are axum-server's, rustls' and reqwest's: nothing is claimed of who gets
  through a handshake. Memory that runs out. Timing: the requests of a server and the accesses of threads come one after
  the other, in any order; what the programs print; zeroing on drop, which no value shows; the code
  that UniFFI, cbindgen and wasm-bindgen generate; the boards' clocks and pins.
\<close>

end
